(* ===== verification/Prelude.thy ===== *)
theory Prelude
  imports Main "HOL-Library.Word"
begin

text \<open>
  The shared vocabulary of the development: Rust results and panics as values, the arithmetic
  of \<^verbatim>\<open>usize\<close> with its overflow, the \<^verbatim>\<open>watch\<close> cell, the
  collections the component proofs use, and two interfaces that several components provide:
  a partial inverse pair (\<open>codec\<close>) and a system with an invariant (\<open>invariant_system\<close>).
\<close>

section \<open>Rust values\<close>

type_synonym byte = "8 word"
type_synonym bytes = "8 word list"
type_synonym uuid = "128 word"

datatype ('a, 'e) result = Ok 'a | Err 'e

datatype 'a may_panic = Return 'a | Panicked

text \<open>The question mark operator: go on with the value, or return the error.\<close>

fun and_then :: "('a, 'e) result \<Rightarrow> ('a \<Rightarrow> ('b, 'e) result) \<Rightarrow> ('b, 'e) result" where
  "and_then (Ok x) f = f x"
| "and_then (Err e) f = Err e"

fun map_err :: "('e \<Rightarrow> 'f) \<Rightarrow> ('a, 'e) result \<Rightarrow> ('a, 'f) result" where
  "map_err g (Ok x) = Ok x"
| "map_err g (Err e) = Err (g e)"

fun map_ok :: "('a \<Rightarrow> 'b) \<Rightarrow> ('a, 'e) result \<Rightarrow> ('b, 'e) result" where
  "map_ok g (Ok x) = Ok (g x)"
| "map_ok g (Err e) = Err e"

fun is_ok :: "('a, 'e) result \<Rightarrow> bool" where
  "is_ok (Ok _) = True"
| "is_ok (Err _) = False"

text \<open>Collecting an iterator of results: all values, or the first error.\<close>

fun collect_results :: "('a, 'e) result list \<Rightarrow> ('a list, 'e) result" where
  "collect_results [] = Ok []"
| "collect_results (r # rs) = and_then r (\<lambda>x. map_ok ((#) x) (collect_results rs))"

section \<open>Fallible state changes\<close>

text \<open>
  An operation that may fail and that changes a state: a transaction on a document, a statement on
  the database. \<open>io_bind\<close> is the question mark operator on them; what was done to the state before
  an error stays.
\<close>

type_synonym ('s, 'a, 'e) io = "'s \<Rightarrow> ('a, 'e) result \<times> 's"

definition io_return :: "'a \<Rightarrow> ('s, 'a, 'e) io" where
  "io_return x s = (Ok x, s)"

definition io_bind :: "('s, 'a, 'e) io \<Rightarrow> ('a \<Rightarrow> ('s, 'b, 'e) io) \<Rightarrow> ('s, 'b, 'e) io" where
  "io_bind m f s = (case m s of (Ok x, s') \<Rightarrow> f x s' | (Err e, s') \<Rightarrow> (Err e, s'))"

definition io_map_err :: "('e \<Rightarrow> 'f) \<Rightarrow> ('s, 'a, 'e) io \<Rightarrow> ('s, 'a, 'f) io" where
  "io_map_err g m s = (case m s of (r, s') \<Rightarrow> (map_err g r, s'))"

definition io_lift :: "('a, 'e) result \<Rightarrow> ('s, 'a, 'e) io" where
  "io_lift r s = (r, s)"

definition io_read :: "('s \<Rightarrow> 'a) \<Rightarrow> ('s, 'a, 'e) io" where
  "io_read f s = (Ok (f s), s)"

section \<open>Arithmetic of \<open>usize\<close>\<close>

text \<open>
  A \<^verbatim>\<open>usize\<close> is a natural number up to \<open>usize_max\<close> (64-bit targets).
  \<^verbatim>\<open>+\<close> panics on overflow in a debug build and wraps in a release build;
  \<^verbatim>\<open>saturating_sub\<close> is the subtraction of \<open>nat\<close>.
\<close>

datatype build = Debug | Release

definition usize_max :: nat where
  "usize_max = 2 ^ 64 - 1"

definition usize_add :: "build \<Rightarrow> nat \<Rightarrow> nat \<Rightarrow> nat may_panic" where
  "usize_add b x y =
     (if x + y \<le> usize_max then Return (x + y)
      else if b = Debug then Panicked else Return ((x + y) mod 2 ^ 64))"

section \<open>Watch cells\<close>

text \<open>
  A watch channel keeps one value and the number of notifications its receivers can observe.
  \<^verbatim>\<open>send_modify\<close> always notifies; \<^verbatim>\<open>send_if_modified\<close> notifies when the closure
  says that the value changed, and every closure of the code says so exactly when the new value
  differs.
\<close>

record 'a watch =
  watch_value :: 'a
  watch_version :: nat

definition watch_channel :: "'a \<Rightarrow> 'a watch" where
  "watch_channel v = \<lparr>watch_value = v, watch_version = 0\<rparr>"

definition send_modify :: "'a \<Rightarrow> 'a watch \<Rightarrow> 'a watch" where
  "send_modify v w = \<lparr>watch_value = v, watch_version = Suc (watch_version w)\<rparr>"

definition send_if_modified :: "'a \<Rightarrow> 'a watch \<Rightarrow> 'a watch" where
  "send_if_modified v w = (if watch_value w \<noteq> v then send_modify v w else w)"

section \<open>Text\<close>

definition strip_prefix :: "string \<Rightarrow> string \<Rightarrow> string option" where
  "strip_prefix p s = (if take (length p) s = p then Some (drop (length p) s) else None)"

definition starts_with :: "string \<Rightarrow> string \<Rightarrow> bool" where
  "starts_with s p \<longleftrightarrow> take (length p) s = p"

text \<open>\<^verbatim>\<open>split_once\<close> on a character: the text before and after its first occurrence.\<close>

fun split_once :: "char \<Rightarrow> string \<Rightarrow> (string \<times> string) option" where
  "split_once c [] = None"
| "split_once c (x # xs) =
     (if x = c then Some ([], xs)
      else map_option (\<lambda>(a, b). (x # a, b)) (split_once c xs))"

section \<open>The last elements of a list\<close>

definition lastn :: "nat \<Rightarrow> 'a list \<Rightarrow> 'a list" where
  "lastn n xs = drop (length xs - n) xs"

named_theorems result_simps "reading off results"

section \<open>Lemmas\<close>

lemma and_then_Ok_iff [result_simps]:
  "and_then r f = Ok y \<longleftrightarrow> (\<exists>x. r = Ok x \<and> f x = Ok y)"
  by (cases r) auto

lemma and_then_Err_iff [result_simps]:
  "and_then r f = Err e \<longleftrightarrow> r = Err e \<or> (\<exists>x. r = Ok x \<and> f x = Err e)"
  by (cases r) auto

lemma map_err_Ok_iff [result_simps, simp]: "map_err g r = Ok x \<longleftrightarrow> r = Ok x"
  by (cases r) auto

lemma map_ok_Ok_iff [result_simps]: "map_ok g r = Ok y \<longleftrightarrow> (\<exists>x. r = Ok x \<and> y = g x)"
  by (cases r) auto

lemma map_ok_Err_iff [result_simps, simp]: "map_ok g r = Err e \<longleftrightarrow> r = Err e"
  by (cases r) auto

lemma is_ok_iff [result_simps]: "is_ok r \<longleftrightarrow> (\<exists>x. r = Ok x)"
  by (cases r) auto

lemma collect_results_map_Ok [simp]: "collect_results (map (\<lambda>x. Ok (f x)) xs) = Ok (map f xs)"
  by (induction xs) auto

lemma collect_results_Ok_iff:
  "collect_results rs = Ok xs \<longleftrightarrow> rs = map Ok xs"
  by (induction rs arbitrary: xs) (auto simp: result_simps)

lemma io_return_apply [simp]: "io_return x s = (Ok x, s)"
  by (simp add: io_return_def)

lemma io_lift_apply [simp]: "io_lift r s = (r, s)"
  by (simp add: io_lift_def)

lemma io_read_apply [simp]: "io_read f s = (Ok (f s), s)"
  by (simp add: io_read_def)

lemma io_bind_Ok: "m s = (Ok x, s') \<Longrightarrow> io_bind m f s = f x s'"
  by (simp add: io_bind_def)

lemma io_bind_Err: "m s = (Err e, s') \<Longrightarrow> io_bind m f s = (Err e, s')"
  by (simp add: io_bind_def)

lemma io_bind_Ok_iff [result_simps]:
  "io_bind m f s = (Ok y, s'') \<longleftrightarrow> (\<exists>x s'. m s = (Ok x, s') \<and> f x s' = (Ok y, s''))"
  by (auto simp: io_bind_def split: prod.splits result.splits)

lemma io_map_err_Ok: "m s = (Ok x, s') \<Longrightarrow> io_map_err g m s = (Ok x, s')"
  by (simp add: io_map_err_def)

lemma io_map_err_Ok_iff [result_simps]: "io_map_err g m s = (Ok x, s') \<longleftrightarrow> m s = (Ok x, s')"
  by (auto simp: io_map_err_def split: prod.splits)

lemma watch_value_send_modify [simp]: "watch_value (send_modify v w) = v"
  by (simp add: send_modify_def)

lemma watch_value_send_if_modified [simp]: "watch_value (send_if_modified v w) = v"
  by (simp add: send_if_modified_def)

lemma watch_value_channel [simp]: "watch_value (watch_channel v) = v"
  by (simp add: watch_channel_def)

lemma watch_version_send_modify [simp]: "watch_version (send_modify v w) = Suc (watch_version w)"
  by (simp add: send_modify_def)

lemma watch_version_send_if_modified:
  "watch_version (send_if_modified v w) =
     (if watch_value w = v then watch_version w else Suc (watch_version w))"
  by (simp add: send_if_modified_def)

lemma strip_prefix_append [simp]: "strip_prefix p (p @ s) = Some s"
  by (simp add: strip_prefix_def)

lemma strip_prefix_Some_iff: "strip_prefix p s = Some t \<longleftrightarrow> s = p @ t"
  by (auto simp: strip_prefix_def) (metis append_take_drop_id)

lemma starts_with_iff: "starts_with s p \<longleftrightarrow> (\<exists>t. s = p @ t)"
  by (auto simp: starts_with_def) (metis append_take_drop_id)

lemma split_once_append:
  "c \<notin> set a \<Longrightarrow> split_once c (a @ c # b) = Some (a, b)"
  by (induction a) auto

lemma split_once_None_iff: "split_once c s = None \<longleftrightarrow> c \<notin> set s"
  by (induction s) auto

lemma split_once_Some_iff:
  "split_once c s = Some (a, b) \<longleftrightarrow> c \<notin> set a \<and> s = a @ c # b"
proof (induction s arbitrary: a)
  case Nil
  then show ?case by simp
next
  case (Cons x xs)
  then show ?case by (cases a) auto
qed

lemma length_lastn [simp]: "length (lastn n xs) = min n (length xs)"
  by (auto simp: lastn_def)

lemma lastn_all [simp]: "length xs \<le> n \<Longrightarrow> lastn n xs = xs"
  by (simp add: lastn_def)

lemma lastn_0 [simp]: "lastn 0 xs = []"
  by (simp add: lastn_def)

lemma lastn_append: "n \<le> length ys \<Longrightarrow> lastn n (xs @ ys) = lastn n ys"
  by (simp add: lastn_def)

lemma lastn_Cons: "n \<le> length xs \<Longrightarrow> lastn n (x # xs) = lastn n xs"
  by (simp add: lastn_def Suc_diff_le)

lemma set_lastn: "set (lastn n xs) \<subseteq> set xs"
  by (simp add: lastn_def set_drop_subset)

text \<open>Where no run is endless, a run ends somewhere.\<close>

lemma ends_somewhere:
  assumes "\<not> (\<exists>f. f 0 = s \<and> (\<forall>n. R (f n) (f (Suc n))))"
  shows "\<exists>t. R\<^sup>*\<^sup>* s t \<and> \<not> (\<exists>u. R t u)"
proof (rule ccontr)
  assume "\<not> ?thesis"
  then have "\<And>t. R\<^sup>*\<^sup>* s t \<Longrightarrow> \<exists>u. R t u" by blast
  then have "\<exists>f. \<forall>n. (R\<^sup>*\<^sup>* s (f n) \<and> (n = 0 \<longrightarrow> f n = s)) \<and> R (f n) (f (Suc n))"
    by (intro dependent_nat_choice) (auto intro: rtranclp.rtrancl_into_rtrancl)
  then show False using assms by blast
qed

section \<open>Interfaces\<close>

text \<open>
  A partial inverse pair: what was written can be read back. Printers and parsers, encoders and
  decoders, and the rows of a table provide it; what follows for all of them is proved here.
\<close>

locale codec =
  fixes enc :: "'a \<Rightarrow> 'b"
    and dec :: "'b \<Rightarrow> ('a, 'e) result"
    and ok :: "'a \<Rightarrow> bool"
  assumes dec_enc: "ok x \<Longrightarrow> dec (enc x) = Ok x"
begin

lemma enc_inject: "ok x \<Longrightarrow> ok y \<Longrightarrow> enc x = enc y \<longleftrightarrow> x = y"
  using dec_enc by (metis result.inject(1))

lemma dec_all: "(\<And>x. x \<in> set xs \<Longrightarrow> ok x) \<Longrightarrow> collect_results (map (dec \<circ> enc) xs) = Ok xs"
  by (induction xs) (auto simp: dec_enc)

lemma enc_distinct: "distinct xs \<Longrightarrow> (\<And>x. x \<in> set xs \<Longrightarrow> ok x) \<Longrightarrow> distinct (map enc xs)"
  by (auto simp: distinct_map inj_on_def enc_inject)

end

text \<open>
  A system that starts in one of its initial states and moves by a step relation. An invariant
  that the initial states have and that every step keeps holds in every state that can be
  reached.
\<close>

inductive reach :: "('s \<Rightarrow> bool) \<Rightarrow> ('s \<Rightarrow> 's \<Rightarrow> bool) \<Rightarrow> 's \<Rightarrow> bool"
  for init :: "'s \<Rightarrow> bool" and step :: "'s \<Rightarrow> 's \<Rightarrow> bool" where
  reach_init: "init s \<Longrightarrow> reach init step s"
| reach_step: "reach init step s \<Longrightarrow> step s t \<Longrightarrow> reach init step t"

locale invariant_system =
  fixes init :: "'s \<Rightarrow> bool"
    and step :: "'s \<Rightarrow> 's \<Rightarrow> bool"
    and inv :: "'s \<Rightarrow> bool"
  assumes inv_init: "init s \<Longrightarrow> inv s"
    and inv_step: "inv s \<Longrightarrow> step s t \<Longrightarrow> inv t"
begin

lemma reach_inv: "reach init step s \<Longrightarrow> inv s"
  by (induction rule: reach.induct) (auto intro: inv_init inv_step)

lemma steps_inv: "inv s \<Longrightarrow> step\<^sup>*\<^sup>* s t \<Longrightarrow> inv t"
  by (rotate_tac, induction rule: rtranclp_induct) (auto intro: inv_step)

end

text \<open>
  An actor: a loop of turns, each of which meets one event, that goes on until a turn ends it. Three
  actors of the program have this form. What is proved once here: what every turn keeps holds after
  the loop, the loop stops in the first turn that must end it, and work that every turn decreases is
  done after as many turns.
\<close>

locale actor_loop =
  fixes turn :: "'e \<Rightarrow> 's \<Rightarrow> 'r \<times> 's"
    and run :: "'e list \<Rightarrow> 's \<Rightarrow> 'r \<times> 's"
    and running :: 'r
  assumes run_Nil: "run [] s = (running, s)"
    and run_Cons: "run (e # es) s = (if fst (turn e s) = running then run es (snd (turn e s)) else turn e s)"
begin

lemma run_keeps:
  assumes "run es s = (running, s')" "\<forall>e\<in>set es. ok e"
    and "\<And>e s s'. ok e \<Longrightarrow> turn e s = (running, s') \<Longrightarrow> g s' = g s"
  shows "g s' = g s"
  using assms(1,2)
proof (induction es arbitrary: s)
  case (Cons e es)
  show ?case
  proof (cases "turn e s")
    case (Pair r t)
    then show ?thesis
      using Cons assms(3) [of e s t] by (auto simp: run_Cons split: if_splits)
  qed
qed (simp add: run_Nil)

lemma run_preserves:
  assumes "run es s = (running, s')" "\<forall>e\<in>set es. ok e" "P s"
    and "\<And>e s s'. P s \<Longrightarrow> ok e \<Longrightarrow> turn e s = (running, s') \<Longrightarrow> P s'"
  shows "P s'"
  using assms(1-3)
proof (induction es arbitrary: s)
  case (Cons e es)
  show ?case
  proof (cases "turn e s")
    case (Pair r t)
    then show ?thesis
      using Cons assms(4) [of s e t] by (auto simp: run_Cons split: if_splits)
  qed
qed (simp add: run_Nil)

lemma run_stops:
  assumes "P s" "\<forall>e\<in>set es. ok e" "\<exists>e\<in>set es. stop e"
    and "\<And>e s. P s \<Longrightarrow> ok e \<Longrightarrow> \<not> stop e \<Longrightarrow> \<exists>s'. turn e s = (running, s') \<and> P s'"
    and "\<And>e s. P s \<Longrightarrow> stop e \<Longrightarrow> \<exists>s'. turn e s = (r, s') \<and> Q s'"
    and "r \<noteq> running"
  shows "\<exists>s'. run es s = (r, s') \<and> Q s'"
  using assms(1-3)
proof (induction es arbitrary: s)
  case (Cons e es)
  show ?case
  proof (cases "stop e")
    case True
    then show ?thesis using assms(5) [of s e] assms(6) Cons.prems(1) by (auto simp: run_Cons)
  next
    case False
    then obtain t where "turn e s = (running, t)" "P t" using assms(4) [of s e] Cons.prems(1,2) by auto
    then show ?thesis using Cons False by (simp add: run_Cons)
  qed
qed simp

lemma run_works_off:
  assumes "P s" "\<forall>e\<in>set es. ok e" "work s \<le> length es"
    and "\<And>e s. P s \<Longrightarrow> ok e \<Longrightarrow>
      \<exists>s'. turn e s = (running, s') \<and> P s' \<and> (if work s = 0 then work s' = 0 else work s' < (work s :: nat))"
  shows "\<exists>s'. run es s = (running, s') \<and> work s' = 0"
  using assms(1-3)
proof (induction es arbitrary: s)
  case (Cons e es)
  obtain t where t: "turn e s = (running, t)" "P t" "if work s = 0 then work t = 0 else work t < work s"
    using assms(4) [of s e] Cons.prems by auto
  then have "\<exists>s'. run es t = (running, s') \<and> work s' = 0"
    using Cons.prems by (intro Cons.IH) (auto split: if_splits)
  with t show ?case by (simp add: run_Cons)
qed (simp add: run_Nil)

end

end
