(* ===== verification/Bench_Utils.thy ===== *)
theory Bench_Utils
  imports Text
begin

text \<open>
  What the benchmark programs share (\<^verbatim>\<open>src/bench_utils.rs\<close>): reading the processor time and
  the transferred bytes, waiting until no more bytes are transferred, a fresh directory for the
  databases, and the line in which a worker reports its result. The answers of the operating system
  are arguments.
\<close>

section \<open>Measurements\<close>

text \<open>
  Sums and products of \<^verbatim>\<open>u64\<close>, with the overflow of the build as for \<open>usize_add\<close>.
\<close>

definition u64_mul :: "build \<Rightarrow> nat \<Rightarrow> nat \<Rightarrow> nat may_panic" where
  "u64_mul b x y =
     (if x * y \<le> usize_max then Return (x * y)
      else if b = Debug then Panicked else Return ((x * y) mod 2 ^ 64))"

fun or_panic :: "'a may_panic \<Rightarrow> ('a \<Rightarrow> 'b may_panic) \<Rightarrow> 'b may_panic" where
  "or_panic (Return x) f = f x"
| "or_panic Panicked f = Panicked"

text \<open>A time of the system: signed seconds and microseconds, cast to unsigned numbers.\<close>

record timeval =
  tv_sec :: "64 word"
  tv_usec :: "64 word"

definition timeval_us :: "build \<Rightarrow> timeval \<Rightarrow> nat may_panic" where
  "timeval_us b t =
     or_panic (u64_mul b (unat (tv_sec t)) 1000000) (\<lambda>s. usize_add b s (unat (tv_usec t)))"

definition get_cpu_time_us :: "build \<Rightarrow> timeval \<Rightarrow> timeval \<Rightarrow> nat may_panic" where
  "get_cpu_time_us b ru_utime ru_stime =
     or_panic (timeval_us b ru_utime) (\<lambda>user_cpu.
     or_panic (timeval_us b ru_stime) (\<lambda>sys_cpu.
       usize_add b user_cpu sys_cpu))"

definition unwrap_or :: "'a \<Rightarrow> ('a, 'e) result \<Rightarrow> 'a" where
  "unwrap_or z r = (case r of Ok x \<Rightarrow> x | Err _ \<Rightarrow> z)"

text \<open>On macOS: the line of the process in the output of \<^verbatim>\<open>nettop\<close>.\<close>

definition first_or :: "string \<Rightarrow> string list \<Rightarrow> string" where
  "first_or z ws = (case ws of [] \<Rightarrow> z | w # _ \<Rightarrow> w)"

fun nettop_lines :: "string \<Rightarrow> string list \<Rightarrow> nat \<times> nat" where
  "nettop_lines pid_suffix [] = (0, 0)"
| "nettop_lines pid_suffix (line # rest) =
     (if contains line ''bytes_in'' then nettop_lines pid_suffix rest
      else (case split_whitespace line of
              [] \<Rightarrow> nettop_lines pid_suffix rest
            | name_pid # parts \<Rightarrow>
                if ends_with name_pid pid_suffix
                then (unwrap_or 0 (parse_u64 (first_or ''0'' parts)),
                      unwrap_or 0 (parse_u64 (first_or ''0'' (drop 1 parts))))
                else nettop_lines pid_suffix rest))"

definition get_bandwidth_bytes_macos :: "nat \<Rightarrow> string \<Rightarrow> nat \<times> nat" where
  "get_bandwidth_bytes_macos pid stdout = nettop_lines (CHR ''.'' # show_nat pid) (text_lines stdout)"

text \<open>On Linux: the two counters of the interface, if their files can be read.\<close>

definition get_bandwidth_bytes_linux :: "string option \<Rightarrow> string option \<Rightarrow> nat \<times> nat" where
  "get_bandwidth_bytes_linux rx_file tx_file =
     (let rx_str = (case rx_file of Some s \<Rightarrow> s | None \<Rightarrow> ''0'');
          tx_str = (case tx_file of Some s \<Rightarrow> s | None \<Rightarrow> ''0'')
      in (unwrap_or 0 (parse_u64 (trim rx_str)), unwrap_or 0 (parse_u64 (trim tx_str))))"

section \<open>Waiting for silence\<close>

text \<open>
  \<open>sample i\<close> is what the \<open>i\<close>-th reading gives. The loop body runs for \<open>i\<close>, \<open>i + 1\<close>, \<open>\<dots>\<close>, at most
  \<open>n\<close> times.
\<close>

fun stabilize ::
  "build \<Rightarrow> (nat \<Rightarrow> nat \<times> nat) \<Rightarrow> nat \<Rightarrow> nat \<Rightarrow> nat \<Rightarrow> nat \<Rightarrow> nat \<Rightarrow> nat may_panic" where
  "stabilize b sample i 0 max_bytes previous_total silent_intervals = Return max_bytes"
| "stabilize b sample i (Suc n) max_bytes previous_total silent_intervals =
     (case sample i of
        (curr_in, curr_out) \<Rightarrow>
          or_panic (usize_add b curr_in curr_out) (\<lambda>current_total.
            let max_bytes = max max_bytes current_total;
                delta = current_total - previous_total
            in if delta = 0
               then (if Suc silent_intervals \<ge> 3 then Return max_bytes
                     else stabilize b sample (Suc i) n max_bytes current_total (Suc silent_intervals))
               else stabilize b sample (Suc i) n max_bytes current_total 0))"

definition wait_for_bandwidth_stabilization :: "build \<Rightarrow> (nat \<Rightarrow> nat \<times> nat) \<Rightarrow> nat may_panic" where
  "wait_for_bandwidth_stabilization b sample = stabilize b sample 0 20 0 0 0"

section \<open>Directories and reports\<close>

text \<open>\<open>there\<close>: the directory exists; \<open>remove\<close> and \<open>create\<close>: what the file system answers.\<close>

definition setup_bench_db ::
  "string \<Rightarrow> string \<Rightarrow> bool \<Rightarrow> (unit, string) result \<Rightarrow> (unit, string) result \<Rightarrow> (string, string) result"
where
  "setup_bench_db name iteration there remove create =
     (let db_root = ''./target/bench_dbs/'' @ name @ ''_'' @ iteration in
      and_then (if there then remove else Ok ()) (\<lambda>_. and_then create (\<lambda>_. Ok db_root)))"

text \<open>The printed line, without its line end.\<close>

definition report_result :: "nat list \<Rightarrow> string" where
  "report_result parts = ''RESULT,'' @ join '','' (map show_nat parts)"

section \<open>The end of the wait\<close>

text \<open>The sum of a reading, and whether the reading shows no more bytes than the one before.\<close>

definition sum_bytes :: "(nat \<Rightarrow> nat \<times> nat) \<Rightarrow> nat \<Rightarrow> nat" where
  "sum_bytes sample i = fst (sample i) + snd (sample i)"

definition silent :: "(nat \<Rightarrow> nat \<times> nat) \<Rightarrow> nat \<Rightarrow> bool" where
  "silent sample i \<longleftrightarrow> sum_bytes sample i \<le> (if i = 0 then 0 else sum_bytes sample (i - 1))"

text \<open>Three readings in a row, the last of them the \<open>i\<close>-th, are silent.\<close>

definition settled :: "(nat \<Rightarrow> nat \<times> nat) \<Rightarrow> nat \<Rightarrow> bool" where
  "settled sample i \<longleftrightarrow> 2 \<le> i \<and> silent sample (i - 2) \<and> silent sample (i - 1) \<and> silent sample i"

text \<open>The number of readings: up to the first settled one, and twenty at most.\<close>

definition readings :: "(nat \<Rightarrow> nat \<times> nat) \<Rightarrow> nat" where
  "readings sample = (case find (settled sample) [0..<20] of Some i \<Rightarrow> Suc i | None \<Rightarrow> 20)"

text \<open>The silent readings that end just before the \<open>i\<close>-th.\<close>

fun trail :: "(nat \<Rightarrow> nat \<times> nat) \<Rightarrow> nat \<Rightarrow> nat" where
  "trail sample 0 = 0"
| "trail sample (Suc i) = (if silent sample i then Suc (trail sample i) else 0)"

lemma settled_trail: "settled sample i \<longleftrightarrow> 3 \<le> trail sample (Suc i)"
proof (cases "2 \<le> i")
  case True
  then obtain k where "i = Suc (Suc k)" by (metis add_2_eq_Suc le_Suc_ex)
  then show ?thesis by (auto simp: settled_def)
next
  case False
  then have "i = 0 \<or> i = Suc 0" by auto
  then show ?thesis by (auto simp: settled_def split: if_splits)
qed

definition end_of_wait :: "(nat \<Rightarrow> nat \<times> nat) \<Rightarrow> nat \<Rightarrow> nat \<Rightarrow> nat" where
  "end_of_wait sample i n = (case find (settled sample) [i..<i + n] of Some j \<Rightarrow> Suc j | None \<Rightarrow> i + n)"

lemma end_of_wait_simps:
  "end_of_wait sample i 0 = i"
  "end_of_wait sample i (Suc n) = (if settled sample i then Suc i else end_of_wait sample (Suc i) n)"
  by (simp_all add: end_of_wait_def upt_conv_Cons del: upt_Suc split: option.splits)

lemma end_of_wait_ge: "i \<le> end_of_wait sample i n"
  by (induction n arbitrary: i) (auto simp: end_of_wait_simps intro: Suc_leD)

lemma stabilize_reference:
  assumes "\<And>j. i \<le> j \<Longrightarrow> j < i + n \<Longrightarrow> sum_bytes sample j \<le> usize_max" "trail sample i < 3"
  shows "stabilize b sample i n mx (if i = 0 then 0 else sum_bytes sample (i - 1)) (trail sample i) =
    Return (Max (insert mx (sum_bytes sample ` {i..<end_of_wait sample i n})))"
  using assms
proof (induction n arbitrary: i mx)
  case (Suc n)
  let ?prev = "if i = 0 then 0 else sum_bytes sample (i - 1)"
  obtain x y where s: "sample i = (x, y)" by fastforce
  then have t: "sum_bytes sample i = x + y" by (simp add: sum_bytes_def)
  have add: "usize_add b x y = Return (x + y)" using Suc.prems(1) [of i] t by (simp add: usize_add_def)
  have sil: "silent sample i \<longleftrightarrow> x + y - ?prev = 0" by (auto simp: silent_def t)
  have step: "stabilize b sample i (Suc n) mx ?prev (trail sample i) =
      (if settled sample i then Return (max mx (sum_bytes sample i))
       else stabilize b sample (Suc i) n (max mx (sum_bytes sample i)) (sum_bytes sample i) (trail sample (Suc i)))"
    using sil by (auto simp: s add settled_trail t)
  show ?case
  proof (cases "settled sample i")
    case True
    then show ?thesis unfolding step by (simp add: end_of_wait_simps)
  next
    case False
    have "stabilize b sample (Suc i) n (max mx (sum_bytes sample i)) (sum_bytes sample i) (trail sample (Suc i)) =
        Return (Max (insert (max mx (sum_bytes sample i)) (sum_bytes sample ` {Suc i..<end_of_wait sample (Suc i) n})))"
      using Suc.IH [of "Suc i" "max mx (sum_bytes sample i)"] Suc.prems(1) False by (simp add: settled_trail del: trail.simps)
    moreover have "{i..<end_of_wait sample (Suc i) n} = insert i {Suc i..<end_of_wait sample (Suc i) n}"
      using end_of_wait_ge [of "Suc i" sample n] by auto
    moreover have "Max (insert (max mx (sum_bytes sample i)) S) = Max (insert mx (insert (sum_bytes sample i) S))"
      if "finite S" for S
      using that by (cases "S = {}") (simp_all add: max.assoc)
    ultimately show ?thesis
      unfolding step using False by (simp add: end_of_wait_simps)
  qed
qed (simp add: end_of_wait_simps)

text \<open>
  C38: Waiting for silence always ends, after the first three readings in a row that show no growth
  and after twenty readings at the latest, and returns the largest sum of bytes among exactly the
  readings that were made; an overflow of a sum is the only other outcome.
\<close>

theorem wait_returns_peak:
  assumes "\<forall>i<20. sum_bytes sample i \<le> usize_max"
  shows "wait_for_bandwidth_stabilization b sample = Return (Max (sum_bytes sample ` {..<readings sample})) \<and>
    0 < readings sample \<and> readings sample \<le> 20"
proof -
  have e: "end_of_wait sample 0 20 = readings sample" by (simp only: end_of_wait_def readings_def add_0)
  have "\<not> settled sample 0" by (simp add: settled_def)
  then have "0 < readings sample"
    using end_of_wait_ge [of 1 sample 19] e end_of_wait_simps(2) [of sample 0 19] by simp
  moreover have "readings sample \<le> 20"
    by (auto simp: readings_def find_Some_iff split: option.splits simp del: upt_Suc)
  moreover have "stabilize b sample 0 20 0 0 0 = Return (Max (insert 0 (sum_bytes sample ` {0..<readings sample})))"
    using stabilize_reference [of 0 20 sample b 0] assms e by simp
  moreover have "sum_bytes sample ` {..<readings sample} \<noteq> {}"
    using \<open>0 < readings sample\<close> by auto
  ultimately show ?thesis
    by (simp add: wait_for_bandwidth_stabilization_def atLeast0LessThan)
qed

theorem wait_returns_peak_witness:
  "wait_for_bandwidth_stabilization Debug (\<lambda>i. (min i 2, 5)) = Return 7"
proof -
  have "readings (\<lambda>i. (min i 2, 5)) = 6" by code_simp
  moreover have "\<forall>i<20. sum_bytes (\<lambda>i. (min i 2, 5)) i \<le> usize_max"
    by (auto simp: sum_bytes_def usize_max_def min_def)
  moreover have "Max (sum_bytes (\<lambda>i. (min i 2, 5)) ` {..<6}) = 7" by code_simp
  ultimately show ?thesis using wait_returns_peak [of "\<lambda>i. (min i 2, 5)" Debug] by metis
qed

end
