(* ===== verification/Message.thy ===== *)
theory Message
  imports Prelude
begin

text \<open>
  The wire message of the chat protocol (\<^verbatim>\<open>src/protocols/chat/message.rs\<close>): a sync
  message travels as the bytes that the document library encodes it to. The encoder and the
  decoder of that library are parameters.
\<close>

datatype sync_message = SyncMessage bytes

datatype proto_message = Sync "sync_message option"

definition sync_message_from :: "('m \<Rightarrow> bytes) \<Rightarrow> 'm \<Rightarrow> sync_message" where
  "sync_message_from encode value = SyncMessage (encode value)"

fun sync_message_try_into :: "(bytes \<Rightarrow> ('m, string) result) \<Rightarrow> sync_message \<Rightarrow> ('m, string) result"
where
  "sync_message_try_into decode (SyncMessage bs) = decode bs"

lemma sync_message_roundtrip:
  "decode (encode m) = Ok m \<Longrightarrow> sync_message_try_into decode (sync_message_from encode m) = Ok m"
  by (simp add: sync_message_from_def)

end
