(* ===== verification/Framing.thy ===== *)
theory Framing
  imports Message
begin

text \<open>
  Length-prefixed frames on a byte stream (\<^verbatim>\<open>src/protocols/chat/utils.rs\<close>). A reader is
  the sequence of what its reads deliver: non-empty chunks of any size, or a failure, and the end
  of the stream after the last one. A writer takes bytes until its stream fails. The serialisation
  library is a parameter.
\<close>

section \<open>Streams\<close>

datatype read_event = Chunk byte bytes | ReadFail string

type_synonym reader = "read_event list"

datatype io_error = UnexpectedEof | IoError string

fun push_front :: "bytes \<Rightarrow> reader \<Rightarrow> reader" where
  "push_front [] r = r"
| "push_front (b # bs) r = Chunk b bs # r"

text \<open>Reading exactly \<open>n\<close> bytes, as \<^verbatim>\<open>read_u32\<close> and \<^verbatim>\<open>read_exact\<close> do.\<close>

fun read_exact :: "nat \<Rightarrow> reader \<Rightarrow> (bytes, io_error) result \<times> reader" where
  "read_exact 0 r = (Ok [], r)"
| "read_exact (Suc n) [] = (Err UnexpectedEof, [])"
| "read_exact (Suc n) (ReadFail e # r) = (Err (IoError e), r)"
| "read_exact (Suc n) (Chunk b bs # r) =
     (case read_exact n (push_front bs r) of (res, r') \<Rightarrow> (map_ok ((#) b) res, r'))"

text \<open>
  One \<^verbatim>\<open>read_buf\<close> on a reader limited by \<^verbatim>\<open>take\<close>: nothing at the limit or at the end.
\<close>

fun take_read :: "nat \<Rightarrow> reader \<Rightarrow> (bytes, io_error) result \<times> reader" where
  "take_read limit r =
     (if limit = 0 then (Ok [], r)
      else case r of
        [] \<Rightarrow> (Ok [], [])
      | ReadFail e # r' \<Rightarrow> (Err (IoError e), r')
      | Chunk b bs # r' \<Rightarrow> (Ok (take limit (b # bs)), push_front (drop limit (b # bs)) r'))"

text \<open>The loop of \<^verbatim>\<open>read_lp\<close>: read into the buffer until a read returns nothing.\<close>

function read_loop :: "nat \<Rightarrow> reader \<Rightarrow> bytes \<Rightarrow> (unit, io_error) result \<times> reader \<times> bytes" where
  "read_loop limit r buffer =
     (case take_read limit r of
        (Err e, r') \<Rightarrow> (Err e, r', buffer)
      | (Ok bs, r') \<Rightarrow>
          if bs = [] then (Ok (), r', buffer)
          else read_loop (limit - length bs) r' (buffer @ bs))"
  by pat_completeness auto
termination
  by (relation "measure (\<lambda>(limit, r, buffer). limit)")
    (auto split: if_splits list.splits read_event.splits)

declare read_loop.simps [simp del]

section \<open>Big-endian lengths\<close>

unbundle bit_operations_syntax

definition u32_to_be :: "32 word \<Rightarrow> bytes" where
  "u32_to_be w = map (\<lambda>k. ucast (drop_bit k w)) [24, 16, 8, 0]"

fun u32_of_be :: "bytes \<Rightarrow> 32 word" where
  "u32_of_be [b0, b1, b2, b3] =
     push_bit 24 (ucast b0) OR push_bit 16 (ucast b1) OR push_bit 8 (ucast b2) OR ucast b3"
| "u32_of_be _ = 0"

section \<open>The serialisation library\<close>

record postcard =
  serialized_size :: "proto_message \<Rightarrow> (nat, string) result"
  to_slice :: "proto_message \<Rightarrow> nat \<Rightarrow> (bytes, string) result"
  from_bytes :: "bytes \<Rightarrow> (proto_message, string) result"

text \<open>
  Its documented behaviour: the announced size is the size of the encoding, and an encoding
  decodes to its message.
\<close>

definition postcard_laws :: "postcard \<Rightarrow> bool" where
  "postcard_laws P \<longleftrightarrow>
     (\<forall>m. \<exists>bs. serialized_size P m = Ok (length bs) \<and> to_slice P m (length bs) = Ok bs \<and>
        from_bytes P bs = Ok m)"

section \<open>Writing\<close>

datatype write_error = WSer string | WIo string | WTooLarge

text \<open>A writer: what was written, and after how many more bytes its stream fails.\<close>

record writer =
  written :: bytes
  room :: "nat option"

definition write_all :: "bytes \<Rightarrow> writer \<Rightarrow> (unit, write_error) result \<times> writer" where
  "write_all bs w =
     (case room w of
        None \<Rightarrow> (Ok (), w\<lparr>written := written w @ bs\<rparr>)
      | Some n \<Rightarrow>
          if length bs \<le> n
          then (Ok (), w\<lparr>written := written w @ bs, room := Some (n - length bs)\<rparr>)
          else (Err (WIo ''broken stream''), w\<lparr>written := written w @ take n bs, room := Some 0\<rparr>))"

definition write_message ::
  "postcard \<Rightarrow> proto_message \<Rightarrow> nat \<Rightarrow> writer \<Rightarrow> bytes \<Rightarrow> (unit, write_error) result \<times> writer \<times> bytes"
where
  "write_message P frame max_message_size w buffer =
     (case serialized_size P frame of
        Err e \<Rightarrow> (Err (WSer e), w, buffer)
      | Ok len \<Rightarrow>
          if len \<ge> max_message_size then (Err WTooLarge, w, buffer)
          else
            (case to_slice P frame len of
               Err e \<Rightarrow> (Err (WSer e), w, replicate len 0)
             | Ok encoded \<Rightarrow>
                 (case write_all (u32_to_be (of_nat len)) w of
                    (Err e, w1) \<Rightarrow> (Err e, w1, encoded)
                  | (Ok _, w1) \<Rightarrow> (case write_all encoded w1 of (res, w2) \<Rightarrow> (res, w2, encoded)))))"

section \<open>Reading\<close>

datatype read_error = RDe string | RIo string | RTooLarge

text \<open>
  \<^verbatim>\<open>split_to\<close> panics when the buffer is shorter than asked; the conversion of the length to
  \<^verbatim>\<open>usize\<close> cannot fail on the 64-bit targets.
\<close>

definition read_lp ::
  "reader \<Rightarrow> bytes \<Rightarrow> nat \<Rightarrow> (bytes option, read_error) result may_panic \<times> reader \<times> bytes"
where
  "read_lp r buffer max_message_size =
     (case read_exact 4 r of
        (Err UnexpectedEof, r1) \<Rightarrow> (Return (Ok None), r1, buffer)
      | (Err (IoError e), r1) \<Rightarrow> (Return (Err (RIo e)), r1, buffer)
      | (Ok header, r1) \<Rightarrow>
          (let size = unat (u32_of_be header)
           in if size > max_message_size then (Return (Err RTooLarge), r1, buffer)
              else
                (case read_loop size r1 buffer of
                   (Err (IoError e), r2, buffer1) \<Rightarrow> (Return (Err (RIo e)), r2, buffer1)
                 | (Err UnexpectedEof, r2, buffer1) \<Rightarrow> (Return (Err (RIo ''unexpected end'')), r2, buffer1)
                 | (Ok _, r2, buffer1) \<Rightarrow>
                     if length buffer1 < size then (Panicked, r2, buffer1)
                     else (Return (Ok (Some (take size buffer1))), r2, drop size buffer1))))"

definition read_message ::
  "postcard \<Rightarrow> reader \<Rightarrow> bytes \<Rightarrow> nat \<Rightarrow>
     (proto_message option, read_error) result may_panic \<times> reader \<times> bytes"
where
  "read_message P r buffer max_message_size =
     (case read_lp r buffer max_message_size of
        (Panicked, r1, buffer1) \<Rightarrow> (Panicked, r1, buffer1)
      | (Return (Err e), r1, buffer1) \<Rightarrow> (Return (Err e), r1, buffer1)
      | (Return (Ok None), r1, buffer1) \<Rightarrow> (Return (Ok None), r1, buffer1)
      | (Return (Ok (Some d)), r1, buffer1) \<Rightarrow>
          (Return (map_ok Some (map_err RDe (from_bytes P d))), r1, buffer1))"

section \<open>Reference\<close>

text \<open>The bytes of a stream that does not fail, and reading a frame off them at once.\<close>

fun faultless :: "reader \<Rightarrow> bool" where
  "faultless [] = True"
| "faultless (Chunk b bs # r) = faultless r"
| "faultless (ReadFail e # r) = False"

fun stream_bytes :: "reader \<Rightarrow> bytes" where
  "stream_bytes [] = []"
| "stream_bytes (Chunk b bs # r) = b # bs @ stream_bytes r"
| "stream_bytes (ReadFail e # r) = []"

definition read_lp_ref ::
  "bytes \<Rightarrow> bytes \<Rightarrow> nat \<Rightarrow> (bytes option, read_error) result may_panic \<times> bytes \<times> bytes"
where
  "read_lp_ref stream buffer max_message_size =
     (if length stream < 4 then (Return (Ok None), [], buffer)
      else
        (let size = unat (u32_of_be (take 4 stream)); body = drop 4 stream;
             filled = buffer @ take size body
         in if size > max_message_size then (Return (Err RTooLarge), body, buffer)
            else if length filled < size then (Panicked, drop size body, filled)
            else (Return (Ok (Some (take size filled))), drop size body, drop size filled)))"

definition frame_of :: "bytes \<Rightarrow> bytes" where
  "frame_of bs = u32_to_be (of_nat (length bs)) @ bs"

section \<open>Lemmas\<close>

lemma u32_of_be_to_be [simp]: "u32_of_be (u32_to_be w) = w"
proof (rule bit_word_eqI)
  fix n assume "n < LENGTH(32)"
  then have "n < 32" by simp
  then consider "n < 8" | "8 \<le> n" "n < 16" | "16 \<le> n" "n < 24" | "24 \<le> n" "n < 32"
    by linarith
  then show "bit (u32_of_be (u32_to_be w)) n \<longleftrightarrow> bit w n"
    by cases (auto simp: u32_to_be_def bit_simps)
qed

lemma length_u32_to_be [simp]: "length (u32_to_be w) = 4"
  by (simp add: u32_to_be_def)

lemma faultless_push_front [simp]: "faultless (push_front bs r) = faultless r"
  by (cases bs) auto

lemma stream_bytes_push_front [simp]: "stream_bytes (push_front bs r) = bs @ stream_bytes r"
  by (cases bs) auto

lemma faultless_cases:
  assumes "faultless r"
  obtains "r = []" | b bs r' where "r = Chunk b bs # r'" "faultless r'"
  using assms by (cases r rule: faultless.cases) auto

lemma read_exact_faultless:
  "faultless r \<Longrightarrow>
   (\<exists>r'. read_exact n r =
      (if length (stream_bytes r) < n then Err UnexpectedEof else Ok (take n (stream_bytes r)), r') \<and>
      faultless r' \<and> stream_bytes r' = drop n (stream_bytes r))"
proof (induction n arbitrary: r)
  case 0
  then show ?case by simp
next
  case (Suc n)
  from Suc.prems show ?case
  proof (cases rule: faultless_cases)
    case 1
    then show ?thesis by simp
  next
    case (2 b bs r1)
    with Suc.IH [of "push_front bs r1"] show ?thesis by auto
  qed
qed

lemma read_loop_faultless:
  "faultless r \<Longrightarrow>
   (\<exists>r'. read_loop limit r buffer = (Ok (), r', buffer @ take limit (stream_bytes r)) \<and>
      faultless r' \<and> stream_bytes r' = drop limit (stream_bytes r))"
proof (induction limit r buffer rule: read_loop.induct)
  case (1 limit r buffer)
  from 1(2) show ?case
  proof (cases rule: faultless_cases)
    case 1
    then show ?thesis by (simp add: read_loop.simps)
  next
    case (2 b bs r1)
    show ?thesis
    proof (cases "limit = 0")
      case True
      then show ?thesis using \<open>faultless r\<close> by (simp add: read_loop.simps)
    next
      case False
      then obtain k where k: "limit = Suc k" by (cases limit) auto
      let ?rest = "push_front (drop limit (b # bs)) r1"
      have "take_read limit r = (Ok (take limit (b # bs)), ?rest)" "take limit (b # bs) \<noteq> []"
        using 2 k by simp_all
      moreover from this 2 obtain r' where
        "read_loop (limit - length (take limit (b # bs))) ?rest (buffer @ take limit (b # bs)) =
           (Ok (), r', (buffer @ take limit (b # bs)) @
             take (limit - length (take limit (b # bs))) (stream_bytes ?rest))"
        "faultless r'"
        "stream_bytes r' = drop (limit - length (take limit (b # bs))) (stream_bytes ?rest)"
        using "1.IH" by fastforce
      ultimately show ?thesis
        using 2 by (subst read_loop.simps) (auto simp: k min_def)
    qed
  qed
qed

lemma read_lp_faultless:
  assumes "faultless r"
  shows "\<exists>r'. read_lp r buffer mx =
     (fst (read_lp_ref (stream_bytes r) buffer mx), r', snd (snd (read_lp_ref (stream_bytes r) buffer mx))) \<and>
     faultless r' \<and> stream_bytes r' = fst (snd (read_lp_ref (stream_bytes r) buffer mx))"
proof (cases "length (stream_bytes r) < 4")
  case True
  then show ?thesis
    using read_exact_faultless [OF assms, of 4] by (auto simp: read_lp_def read_lp_ref_def)
next
  case False
  define header body where "header = take 4 (stream_bytes r)" and "body = drop 4 (stream_bytes r)"
  define size where "size = unat (u32_of_be header)"
  obtain r1 where r1: "read_exact 4 r = (Ok header, r1)" "faultless r1" "stream_bytes r1 = body"
    using read_exact_faultless [OF assms, of 4] False by (auto simp: header_def body_def)
  obtain r2 where r2: "read_loop size r1 buffer = (Ok (), r2, buffer @ take size body)"
      "faultless r2" "stream_bytes r2 = drop size body"
    using read_loop_faultless [OF r1(2), of size buffer] r1(3) by auto
  have "read_lp_ref (stream_bytes r) buffer mx =
      (if size > mx then (Return (Err RTooLarge), body, buffer)
       else if length (buffer @ take size body) < size
         then (Panicked, drop size body, buffer @ take size body)
       else (Return (Ok (Some (take size (buffer @ take size body)))), drop size body,
             drop size (buffer @ take size body)))"
    using False by (simp only: read_lp_ref_def Let_def if_False header_def [symmetric]
        body_def [symmetric] size_def [symmetric])
  moreover have "read_lp r buffer mx =
      (if size > mx then (Return (Err RTooLarge), r1, buffer)
       else if length (buffer @ take size body) < size
         then (Panicked, r2, buffer @ take size body)
       else (Return (Ok (Some (take size (buffer @ take size body)))), r2,
             drop size (buffer @ take size body)))"
    by (simp only: read_lp_def r1(1) size_def [symmetric] r2(1) Let_def prod.case result.case)
  ultimately show ?thesis
    using r1(2,3) r2(2,3) by (auto simp: min_def)
qed

lemma read_lp_ref_frame:
  assumes "length bs < 2 ^ 32" "length bs \<le> mx"
  shows "read_lp_ref (frame_of bs @ rest) [] mx = (Return (Ok (Some bs)), rest, [])"
proof -
  have "unat (of_nat (length bs) :: 32 word) = length bs"
    using assms(1) by (simp add: unat_of_nat take_bit_nat_eq_self)
  with assms(2) show ?thesis by (simp add: read_lp_ref_def frame_of_def)
qed

lemma read_lp_ref_end: "read_lp_ref [] buffer mx = (Return (Ok None), [], buffer)"
  by (simp add: read_lp_ref_def)

lemma write_message_Ok:
  assumes "postcard_laws P" "write_message P m mx w buffer = (Ok (), w', buffer')"
  obtains bs where "written w' = written w @ frame_of bs" "from_bytes P bs = Ok m" "length bs < mx"
proof -
  from assms(1) obtain bs where bs: "serialized_size P m = Ok (length bs)"
      "to_slice P m (length bs) = Ok bs" "from_bytes P bs = Ok m"
    unfolding postcard_laws_def by blast
  with assms(2) have "written w' = written w @ frame_of bs" "length bs < mx"
    by (auto simp: write_message_def write_all_def frame_of_def
        split: if_splits option.splits prod.splits result.splits)
  with bs(3) that show thesis by blast
qed

text \<open>One frame read off a stream in chunks.\<close>

lemma read_message_frame:
  assumes "faultless r" "stream_bytes r = frame_of bs @ rest" "length bs < 2 ^ 32" "length bs \<le> mx"
    "from_bytes P bs = Ok m"
  obtains r' where "read_message P r [] mx = (Return (Ok (Some m)), r', [])"
    "faultless r'" "stream_bytes r' = rest"
  using read_lp_faultless [OF assms(1), of "[]" mx] assms(2-5)
  by (auto simp: read_lp_ref_frame read_message_def)

lemma read_message_end:
  assumes "faultless r" "stream_bytes r = []"
  obtains r' where "read_message P r [] mx = (Return (Ok None), r', [])"
    "faultless r'" "stream_bytes r' = []"
  using read_lp_faultless [OF assms(1), of "[]" mx] assms(2)
  by (auto simp: read_lp_ref_end read_message_def)

section \<open>Properties\<close>

text \<open>
  C23: A frame survives the stream. If a message was written, then a reader with the same size limit
  that is given these bytes, cut into chunks in any way and followed by anything, returns the
  message, leaves what follows unread and its buffer empty.
\<close>

theorem frame_roundtrip:
  assumes "postcard_laws P" and "mx \<le> 2 ^ 32"
    and "write_message P m mx \<lparr>written = [], room = limit\<rparr> buffer = (Ok (), w, buffer')"
    and "faultless r" and "stream_bytes r = written w @ rest"
  shows "\<exists>r'. read_message P r [] mx = (Return (Ok (Some m)), r', []) \<and>
     faultless r' \<and> stream_bytes r' = rest"
proof -
  obtain bs where "written w = frame_of bs" "from_bytes P bs = Ok m" "length bs < mx"
    using write_message_Ok [OF assms(1,3)] by auto
  moreover from this assms(2) have "length bs < 2 ^ 32" "length bs \<le> mx" by simp_all
  ultimately show ?thesis
    using read_message_frame [OF assms(4), of bs rest mx P m] assms(5) by metis
qed

text \<open>A serialisation for the examples: a tag byte, then the bytes of the sync message.\<close>

fun sample_encode :: "proto_message \<Rightarrow> bytes" where
  "sample_encode (Sync None) = [0]"
| "sample_encode (Sync (Some (SyncMessage bs))) = 1 # bs"

fun sample_decode :: "bytes \<Rightarrow> (proto_message, string) result" where
  "sample_decode [] = Err ''empty''"
| "sample_decode (t # bs) =
     (if t = 0 then Ok (Sync None) else Ok (Sync (Some (SyncMessage bs))))"

definition sample_postcard :: postcard where
  "sample_postcard =
     \<lparr>serialized_size = (\<lambda>m. Ok (length (sample_encode m))),
      to_slice = (\<lambda>m n. if length (sample_encode m) \<le> n then Ok (sample_encode m) else Err ''full''),
      from_bytes = sample_decode\<rparr>"

lemma sample_postcard_laws: "postcard_laws sample_postcard"
proof -
  have "sample_decode (sample_encode m) = Ok m" for m
    by (cases m rule: sample_encode.cases) auto
  then show ?thesis by (auto simp: postcard_laws_def sample_postcard_def)
qed

theorem frame_roundtrip_witness:
  "\<exists>r'. read_message sample_postcard [Chunk 0 [0, 0], Chunk 3 [1, 42], Chunk 43 [9]] [] 100 =
     (Return (Ok (Some (Sync (Some (SyncMessage [42, 43]))))), r', []) \<and>
     faultless r' \<and> stream_bytes r' = [9]"
proof -
  let ?m = "Sync (Some (SyncMessage [42, 43]))"
  have be: "u32_to_be 3 = [0, 0, 0, 3]"
    by (simp add: u32_to_be_def)
  have "write_message sample_postcard ?m 100 \<lparr>written = [], room = None\<rparr> [] =
      (Ok (), \<lparr>written = [0, 0, 0, 3, 1, 42, 43], room = None\<rparr>, [1, 42, 43])"
    by (simp add: write_message_def write_all_def sample_postcard_def be)
  from frame_roundtrip [OF sample_postcard_laws _ this,
      of "[Chunk 0 [0, 0], Chunk 3 [1, 42], Chunk 43 [9]]" "[9]"]
  show ?thesis by simp
qed

text \<open>
  C24: Where reading panics. On a stream that does not fail, with the empty buffer that every read
  leaves behind, reading a frame panics exactly when the stream holds a whole length prefix within
  the limit but ends before the announced number of bytes. A stream that ends inside the length
  prefix is reported as a clean end instead.
\<close>

theorem read_lp_panics_iff_truncated:
  assumes "faultless r"
  shows "(fst (read_lp r [] mx) = Panicked \<longleftrightarrow>
       4 \<le> length (stream_bytes r) \<and>
       unat (u32_of_be (take 4 (stream_bytes r))) \<le> mx \<and>
       length (stream_bytes r) < 4 + unat (u32_of_be (take 4 (stream_bytes r)))) \<and>
     (fst (read_lp r [] mx) = Return (Ok None) \<longleftrightarrow> length (stream_bytes r) < 4)"
proof -
  have "fst (read_lp r [] mx) = fst (read_lp_ref (stream_bytes r) [] mx)"
    using read_lp_faultless [OF assms, of "[]" mx] by auto
  then show ?thesis by (auto simp: read_lp_ref_def Let_def)
qed

theorem read_lp_panics_iff_truncated_witness:
  "fst (read_lp [Chunk 0 [0, 0, 5], Chunk 1 [2]] [] 1048576) = Panicked \<and>
   fst (read_lp [Chunk 0 [0, 0]] [] 1048576) = Return (Ok None)"
proof -
  have "u32_of_be (u32_to_be 5) = 5" by (rule u32_of_be_to_be)
  then have be: "u32_of_be [0, 0, 0, 5] = 5" by (simp add: u32_to_be_def)
  show ?thesis
    using read_lp_panics_iff_truncated [of "[Chunk 0 [0, 0, 5], Chunk 1 [2]]" 1048576]
      read_lp_panics_iff_truncated [of "[Chunk 0 [0, 0]]" 1048576]
    by (simp add: be del: u32_of_be.simps)
qed

text \<open>
  C34: The size limit is kept on both sides. A message whose encoding reaches the limit is refused
  before a byte is written; every message that is written stays below the limit, so its length fits
  the prefix and is within what a reader with the same limit accepts; and a reader that gets a
  longer announcement refuses it without reading further.
\<close>

theorem frame_size_limit:
  assumes "postcard_laws P" and "mx \<le> 2 ^ 32"
  shows "(\<forall>m n w buffer. serialized_size P m = Ok n \<and> mx \<le> n \<longrightarrow>
       write_message P m mx w buffer = (Err WTooLarge, w, buffer)) \<and>
     (\<forall>m w buffer w' buffer'. write_message P m mx w buffer = (Ok (), w', buffer') \<longrightarrow>
       (\<exists>len bs. written w' = written w @ u32_to_be len @ bs \<and> unat len = length bs \<and> length bs < mx)) \<and>
     (\<forall>header r r' buffer. read_exact 4 r = (Ok header, r') \<and> mx < unat (u32_of_be header) \<longrightarrow>
       read_lp r buffer mx = (Return (Err RTooLarge), r', buffer))"
proof (intro conjI allI impI; (elim conjE)?)
  fix m w buffer w' buffer'
  assume "write_message P m mx w buffer = (Ok (), w', buffer')"
  then obtain bs where bs: "written w' = written w @ frame_of bs" "length bs < mx"
    using write_message_Ok [OF assms(1)] by metis
  with assms(2) have "unat (of_nat (length bs) :: 32 word) = length bs"
    by (simp add: unat_of_nat take_bit_nat_eq_self)
  with bs show "\<exists>len bs. written w' = written w @ u32_to_be len @ bs \<and> unat len = length bs \<and> length bs < mx"
    unfolding frame_of_def by blast
qed (simp_all add: write_message_def read_lp_def)

theorem frame_size_limit_witness:
  "write_message sample_postcard (Sync None) 1 \<lparr>written = [], room = None\<rparr> [] =
     (Err WTooLarge, \<lparr>written = [], room = None\<rparr>, [])"
  using frame_size_limit [OF sample_postcard_laws, of 1] by (simp add: sample_postcard_def)

end
