(* ===== verification/Chat_Connection.thy ===== *)
theory Chat_Connection
  imports Message
begin

text \<open>
  The connection of one chat (\<^verbatim>\<open>src/protocols/chat.rs\<close>): the state behind the read-write
  lock, the watch cell that publishes it, the cancellation of handles, and the glare resolution
  between a dialled and an accepted connection. Each operation below is one critical section of
  the lock; what the code spawns or awaits in between is a pending task, and \<open>conn_step\<close> lets the
  tasks and the callers interleave. Whether a channel is still open and what a dial answers are
  decided by the environment, as labels of the steps.
\<close>

section \<open>Data\<close>

datatype conn_origin = Accept | Dial

text \<open>A QUIC connection: its identity, which both ends share, and the remote endpoint.\<close>

record 'id connection =
  conn_key :: nat
  conn_remote_id :: 'id

record 'id handle =
  handle_id :: uuid
  origin :: conn_origin
  connection :: "'id connection"
  tx :: nat
  rx :: nat
  cancel_token :: nat

datatype chat_connection_state = Disconnected | Connected uuid | Reconnecting

datatype uniffi_chat_connection_state = UDisconnected | UConnected string | UReconnecting

datatype 'id internal_conn_state = IDisconnected | IConnected "'id handle" | IReconnecting

text \<open>What the connection has spawned or is waiting for.\<close>

datatype conn_task =
    AwaitSend nat uuid proto_message
  | AwaitReceive uuid
  | SetDisconnectedIfIdMatches uuid
  | ReconnectStart
  | ReconnectSend
  | ReconnectReply

text \<open>
  The shared state of a connection. \<open>cancelled\<close> holds the cancellation tokens that
  the connection itself has triggered, \<open>outbox\<close> what was handed to which writer channel, \<open>requests\<close> the endpoints that the
  protocol actor was asked to dial.
\<close>

record 'id chat_conn =
  local_id :: 'id
  remote_id :: 'id
  state :: "'id internal_conn_state"
  state_notifier :: "chat_connection_state watch"
  cancelled :: "nat set"
  tasks :: "conn_task list"
  outbox :: "(nat \<times> proto_message) list"
  requests :: "'id list"

section \<open>Conversions\<close>

fun chat_connection_state_from :: "'id internal_conn_state \<Rightarrow> chat_connection_state" where
  "chat_connection_state_from IDisconnected = Disconnected"
| "chat_connection_state_from (IConnected handle) = Connected (handle_id handle)"
| "chat_connection_state_from IReconnecting = Reconnecting"

text \<open>The text of a UUID is printed by its library: a parameter.\<close>

fun uniffi_state_from :: "(uuid \<Rightarrow> string) \<Rightarrow> chat_connection_state \<Rightarrow> uniffi_chat_connection_state"
where
  "uniffi_state_from uuid_to_string Disconnected = UDisconnected"
| "uniffi_state_from uuid_to_string (Connected i) = UConnected (uuid_to_string i)"
| "uniffi_state_from uuid_to_string Reconnecting = UReconnecting"

definition handle_remote_id :: "'id handle \<Rightarrow> 'id" where
  "handle_remote_id h = conn_remote_id (connection h)"

section \<open>Operations\<close>

definition shutdown :: "'id handle \<Rightarrow> 'id chat_conn \<Rightarrow> 'id chat_conn" where
  "shutdown h c = c\<lparr>cancelled := insert (cancel_token h) (cancelled c)\<rparr>"

text \<open>The handle of the current state, if there is one, is shut down.\<close>

definition shutdown_current :: "'id chat_conn \<Rightarrow> 'id chat_conn" where
  "shutdown_current c = (case state c of IConnected old \<Rightarrow> shutdown old c | _ \<Rightarrow> c)"

definition spawn :: "conn_task \<Rightarrow> 'id chat_conn \<Rightarrow> 'id chat_conn" where
  "spawn t c = c\<lparr>tasks := tasks c @ [t]\<rparr>"

text \<open>\<^verbatim>\<open>set_state\<close> and the three guarded variants.\<close>

definition set_state :: "'id internal_conn_state \<Rightarrow> 'id chat_conn \<Rightarrow> 'id chat_conn" where
  "set_state new_state c =
     (let c1 = shutdown_current c
      in c1\<lparr>state := new_state,
            state_notifier :=
              send_if_modified (chat_connection_state_from new_state) (state_notifier c1)\<rparr>)"

definition set_state_disconnected_if_id_matches :: "uuid \<Rightarrow> 'id chat_conn \<Rightarrow> 'id chat_conn" where
  "set_state_disconnected_if_id_matches expected_id c =
     (case state c of
        IConnected h \<Rightarrow>
          if handle_id h = expected_id
          then (shutdown h c)
                 \<lparr>state := IDisconnected,
                  state_notifier := send_if_modified Disconnected (state_notifier c)\<rparr>
          else c
      | _ \<Rightarrow> c)"

definition set_state_if_disconnected ::
  "'id internal_conn_state \<Rightarrow> 'id chat_conn \<Rightarrow> bool \<times> 'id chat_conn"
where
  "set_state_if_disconnected new_state c =
     (case state c of
        IDisconnected \<Rightarrow>
          (True, c\<lparr>state := new_state,
                   state_notifier :=
                     send_if_modified (chat_connection_state_from new_state) (state_notifier c)\<rparr>)
      | _ \<Rightarrow> (False, c))"

definition set_state_if_reconnecting ::
  "'id internal_conn_state \<Rightarrow> 'id chat_conn \<Rightarrow> bool \<times> 'id chat_conn"
where
  "set_state_if_reconnecting new_state c =
     (case state c of
        IReconnecting \<Rightarrow>
          (True, c\<lparr>state := new_state,
                   state_notifier :=
                     send_if_modified (chat_connection_state_from new_state) (state_notifier c)\<rparr>)
      | _ \<Rightarrow> (False, c))"

definition close :: "'id chat_conn \<Rightarrow> 'id chat_conn" where
  "close c = set_state IDisconnected c"

text \<open>
  Glare resolution. \<open>should_switch\<close> is the decision under the write lock; \<open>update_handle\<close> installs
  the new handle, or keeps the current one under a fresh identifier (\<open>new_id\<close>, from
  \<^verbatim>\<open>Uuid::new_v4\<close>).
\<close>

definition should_switch ::
  "'id::linorder \<Rightarrow> 'id \<Rightarrow> 'id internal_conn_state \<Rightarrow> 'id handle \<Rightarrow> bool"
where
  "should_switch local remote st new_handle =
     (case st of
        IConnected current_handle \<Rightarrow>
          if origin current_handle = origin new_handle then True
          else (case (local < remote, origin new_handle) of
                  (True, Dial) \<Rightarrow> True
                | (True, Accept) \<Rightarrow> False
                | (False, Accept) \<Rightarrow> True
                | (False, Dial) \<Rightarrow> False)
      | _ \<Rightarrow> True)"

definition update_handle ::
  "uuid \<Rightarrow> 'id::linorder handle \<Rightarrow> 'id chat_conn \<Rightarrow> 'id chat_conn"
where
  "update_handle new_id new_handle c =
     (if should_switch (local_id c) (remote_id c) (state c) new_handle
      then
        (let c1 = shutdown_current c; internal_state = IConnected new_handle
         in c1\<lparr>state := internal_state,
               state_notifier :=
                 send_modify (chat_connection_state_from internal_state) (state_notifier c1)\<rparr>)
      else
        (let c1 = shutdown new_handle c
         in case state c1 of
              IConnected current_handle \<Rightarrow>
                (let internal_state = IConnected (current_handle\<lparr>handle_id := new_id\<rparr>)
                 in c1\<lparr>state := internal_state,
                       state_notifier :=
                         send_modify (chat_connection_state_from internal_state)
                           (state_notifier c1)\<rparr>)
            | _ \<Rightarrow> c1))"

text \<open>
  Sending: the writer channel and the handle's identifier are read under the lock, the send runs
  outside it. A closed channel spawns a disconnect for the handle that was read.
\<close>

definition send_target :: "'id chat_conn \<Rightarrow> (nat \<times> uuid) option" where
  "send_target c = (case state c of IConnected h \<Rightarrow> Some (tx h, handle_id h) | _ \<Rightarrow> None)"

definition send_finish :: "nat \<Rightarrow> uuid \<Rightarrow> proto_message \<Rightarrow> bool \<Rightarrow> 'id chat_conn \<Rightarrow> 'id chat_conn"
where
  "send_finish ch hid msg is_open c =
     (if is_open then c\<lparr>outbox := outbox c @ [(ch, msg)]\<rparr>
      else spawn (SetDisconnectedIfIdMatches hid) c)"

definition send_message :: "proto_message \<Rightarrow> bool \<Rightarrow> 'id chat_conn \<Rightarrow> 'id chat_conn" where
  "send_message msg is_open c =
     (case send_target c of
        Some (ch, hid) \<Rightarrow> send_finish ch hid msg is_open c
      | None \<Rightarrow> c)"

text \<open>Receiving: \<open>None\<close> from the channel means that it is closed.\<close>

definition receive_target :: "'id chat_conn \<Rightarrow> uuid option" where
  "receive_target c = (case state c of IConnected h \<Rightarrow> Some (handle_id h) | _ \<Rightarrow> None)"

definition receive_finish ::
  "uuid \<Rightarrow> proto_message option \<Rightarrow> 'id chat_conn \<Rightarrow> proto_message option \<times> 'id chat_conn"
where
  "receive_finish hid incoming c =
     (case incoming of
        Some msg \<Rightarrow> (Some msg, c)
      | None \<Rightarrow> (None, spawn (SetDisconnectedIfIdMatches hid) c))"

definition receive ::
  "proto_message option \<Rightarrow> 'id chat_conn \<Rightarrow> proto_message option \<times> 'id chat_conn"
where
  "receive incoming c =
     (case receive_target c of
        Some hid \<Rightarrow> receive_finish hid incoming c
      | None \<Rightarrow> (None, c))"

text \<open>
  Reconnecting runs in a spawned task of three stages: claim the disconnected state, queue the
  dial request, and act on its answer.
\<close>

datatype 'id dial_reply = DialOk uuid "'id handle" | DialErr string | DialDropped

definition reconnect :: "'id chat_conn \<Rightarrow> 'id chat_conn" where
  "reconnect c = spawn ReconnectStart c"

definition reconnect_start :: "'id chat_conn \<Rightarrow> 'id chat_conn" where
  "reconnect_start c =
     (case set_state_if_disconnected IReconnecting c of
        (True, c1) \<Rightarrow> spawn ReconnectSend c1
      | (False, c1) \<Rightarrow> c1)"

definition reconnect_send :: "bool \<Rightarrow> 'id chat_conn \<Rightarrow> 'id chat_conn" where
  "reconnect_send is_open c =
     (if is_open then spawn ReconnectReply (c\<lparr>requests := requests c @ [remote_id c]\<rparr>)
      else snd (set_state_if_reconnecting IDisconnected c))"

fun reconnect_reply :: "'id::linorder dial_reply \<Rightarrow> 'id chat_conn \<Rightarrow> 'id chat_conn" where
  "reconnect_reply (DialOk new_id h) c = update_handle new_id h c"
| "reconnect_reply (DialErr e) c = snd (set_state_if_reconnecting IDisconnected c)"
| "reconnect_reply DialDropped c = snd (set_state_if_reconnecting IDisconnected c)"

section \<open>Construction\<close>

definition new_conn :: "'id \<Rightarrow> 'id \<Rightarrow> 'id chat_conn" where
  "new_conn local remote =
     reconnect
       \<lparr>local_id = local, remote_id = remote, state = IDisconnected,
        state_notifier = watch_channel (chat_connection_state_from (IDisconnected :: 'id internal_conn_state)),
        cancelled = {}, tasks = [], outbox = [], requests = []\<rparr>"

definition new_connected :: "'id \<Rightarrow> 'id handle \<Rightarrow> 'id chat_conn" where
  "new_connected local h =
     \<lparr>local_id = local, remote_id = conn_remote_id (connection h), state = IConnected h,
      state_notifier = watch_channel (Connected (handle_id h)),
      cancelled = {}, tasks = [], outbox = [], requests = []\<rparr>"

definition subscribe_to_state :: "'id chat_conn \<Rightarrow> chat_connection_state watch" where
  "subscribe_to_state c = state_notifier c"

section \<open>Interleaving\<close>

datatype 'id conn_event =
    CallSend proto_message
  | CallReceive
  | CallReconnect
  | CallUpdateHandle uuid "'id handle"
  | CallClose
  | EndSend nat uuid proto_message bool
  | EndReceive uuid "proto_message option"
  | RunSetDisconnected uuid
  | RunReconnectStart
  | RunReconnectSend bool
  | RunReconnectReply "'id dial_reply"

definition finish_task :: "conn_task \<Rightarrow> 'id chat_conn \<Rightarrow> 'id chat_conn" where
  "finish_task t c = c\<lparr>tasks := remove1 t (tasks c)\<rparr>"

inductive conn_step :: "'id::linorder chat_conn \<Rightarrow> 'id conn_event \<Rightarrow> 'id chat_conn \<Rightarrow> bool" where
  call_send: "send_target c = Some (ch, hid) \<Longrightarrow>
     conn_step c (CallSend msg) (spawn (AwaitSend ch hid msg) c)"
| call_send_idle: "send_target c = None \<Longrightarrow> conn_step c (CallSend msg) c"
| end_send: "AwaitSend ch hid msg \<in> set (tasks c) \<Longrightarrow>
     conn_step c (EndSend ch hid msg is_open)
       (send_finish ch hid msg is_open (finish_task (AwaitSend ch hid msg) c))"
| call_receive: "receive_target c = Some hid \<Longrightarrow>
     conn_step c CallReceive (spawn (AwaitReceive hid) c)"
| call_receive_idle: "receive_target c = None \<Longrightarrow> conn_step c CallReceive c"
| end_receive: "AwaitReceive hid \<in> set (tasks c) \<Longrightarrow>
     conn_step c (EndReceive hid incoming)
       (snd (receive_finish hid incoming (finish_task (AwaitReceive hid) c)))"
| call_reconnect: "conn_step c CallReconnect (reconnect c)"
| call_update_handle: "conn_step c (CallUpdateHandle new_id h) (update_handle new_id h c)"
| call_close: "conn_step c CallClose (close c)"
| run_set_disconnected: "SetDisconnectedIfIdMatches hid \<in> set (tasks c) \<Longrightarrow>
     conn_step c (RunSetDisconnected hid)
       (set_state_disconnected_if_id_matches hid (finish_task (SetDisconnectedIfIdMatches hid) c))"
| run_reconnect_start: "ReconnectStart \<in> set (tasks c) \<Longrightarrow>
     conn_step c RunReconnectStart (reconnect_start (finish_task ReconnectStart c))"
| run_reconnect_send: "ReconnectSend \<in> set (tasks c) \<Longrightarrow>
     conn_step c (RunReconnectSend is_open) (reconnect_send is_open (finish_task ReconnectSend c))"
| run_reconnect_reply: "ReconnectReply \<in> set (tasks c) \<Longrightarrow>
     conn_step c (RunReconnectReply reply) (reconnect_reply reply (finish_task ReconnectReply c))"

inductive_cases run_replyE: "conn_step c (RunReconnectReply reply) c'"
inductive_cases run_sendE: "conn_step c (RunReconnectSend is_open) c'"

text \<open>An execution with the events it goes through, the latest last.\<close>

inductive conn_run :: "'id::linorder chat_conn \<Rightarrow> 'id conn_event list \<Rightarrow> 'id chat_conn \<Rightarrow> bool" where
  run_nil: "conn_run c [] c"
| run_snoc: "conn_run c es c1 \<Longrightarrow> conn_step c1 e c2 \<Longrightarrow> conn_run c (es @ [e]) c2"

text \<open>The handles that an execution offered to the connection.\<close>

fun offered :: "'id conn_event \<Rightarrow> 'id handle list" where
  "offered (CallUpdateHandle i h) = [h]"
| "offered (RunReconnectReply (DialOk i h)) = [h]"
| "offered _ = []"

definition offers :: "'id conn_event list \<Rightarrow> 'id handle list" where
  "offers es = concat (map offered es)"

text \<open>
  The handle that a connection starts with. The token of every handle is a child of the token of the
  chat protocol: it counts as cancelled when the connection has cancelled it or the protocol is shut
  down.
\<close>

definition first_handle :: "'id chat_conn \<Rightarrow> 'id handle list" where
  "first_handle c = (case state c of IConnected h \<Rightarrow> [h] | _ \<Rightarrow> [])"

definition token_cancelled :: "bool \<Rightarrow> 'id chat_conn \<Rightarrow> 'id handle \<Rightarrow> bool" where
  "token_cancelled protocol_cancelled c h \<longleftrightarrow> protocol_cancelled \<or> cancel_token h \<in> cancelled c"

text \<open>
  Reference for glare resolution: the peer with the smaller identifier keeps the connections it
  dialled, the other one those it accepted. Out of a sequence of offers the last one of the
  preferred origin wins, and the last one of all if there is none.
\<close>

definition preferred_origin :: "'id::linorder \<Rightarrow> 'id \<Rightarrow> conn_origin" where
  "preferred_origin local remote = (if local < remote then Dial else Accept)"

definition winner :: "conn_origin \<Rightarrow> 'id handle list \<Rightarrow> 'id handle" where
  "winner pref hs =
     (if \<exists>h \<in> set hs. origin h = pref then last (filter (\<lambda>h. origin h = pref) hs) else last hs)"

definition offer_all :: "(uuid \<times> 'id::linorder handle) list \<Rightarrow> 'id chat_conn \<Rightarrow> 'id chat_conn" where
  "offer_all uhs c = fold (\<lambda>(u, h). update_handle u h) uhs c"

text \<open>What holds of a connection whenever its lock is free.\<close>

definition dialing :: "'id chat_conn \<Rightarrow> bool" where
  "dialing c \<longleftrightarrow> ReconnectSend \<in> set (tasks c) \<or> ReconnectReply \<in> set (tasks c)"

definition conn_inv :: "'id chat_conn \<Rightarrow> bool" where
  "conn_inv c \<longleftrightarrow>
     watch_value (state_notifier c) = chat_connection_state_from (state c) \<and>
     (state c = IReconnecting \<longrightarrow> dialing c)"

definition conn_init :: "'id chat_conn \<Rightarrow> bool" where
  "conn_init c \<longleftrightarrow>
     (\<exists>local remote. c = new_conn local remote) \<or> (\<exists>local h. c = new_connected local h)"

section \<open>Lemmas\<close>

lemmas conn_defs =
  shutdown_def shutdown_current_def spawn_def set_state_def
  set_state_disconnected_if_id_matches_def set_state_if_disconnected_def
  set_state_if_reconnecting_def close_def send_finish_def receive_finish_def
  reconnect_def reconnect_start_def reconnect_send_def finish_task_def

lemma should_switch_iff:
  "should_switch l r st h \<longleftrightarrow>
     (case st of IConnected cur \<Rightarrow> origin cur = origin h \<or> origin h = preferred_origin l r | _ \<Rightarrow> True)"
  by (auto simp: should_switch_def preferred_origin_def
      split: internal_conn_state.splits conn_origin.splits bool.splits)

lemma update_handle_take:
  "should_switch (local_id c) (remote_id c) (state c) h \<Longrightarrow>
   update_handle u h c =
     (shutdown_current c)\<lparr>state := IConnected h,
        state_notifier := send_modify (Connected (handle_id h)) (state_notifier c)\<rparr>"
  by (auto simp: update_handle_def conn_defs Let_def split: internal_conn_state.splits)

lemma update_handle_keep:
  assumes "\<not> should_switch (local_id c) (remote_id c) (state c) h"
  obtains cur where "state c = IConnected cur" "origin cur \<noteq> origin h"
    "origin cur = preferred_origin (local_id c) (remote_id c)"
    "update_handle u h c =
       (shutdown h c)\<lparr>state := IConnected (cur\<lparr>handle_id := u\<rparr>),
          state_notifier := send_modify (Connected u) (state_notifier c)\<rparr>"
proof -
  from assms obtain cur where cur: "state c = IConnected cur" "origin cur \<noteq> origin h"
      "origin h \<noteq> preferred_origin (local_id c) (remote_id c)"
    by (auto simp: should_switch_iff split: internal_conn_state.splits)
  moreover from cur have "origin cur = preferred_origin (local_id c) (remote_id c)"
    by (metis (full_types) conn_origin.exhaust)
  moreover from assms cur(1) have "update_handle u h c =
       (shutdown h c)\<lparr>state := IConnected (cur\<lparr>handle_id := u\<rparr>),
          state_notifier := send_modify (Connected u) (state_notifier c)\<rparr>"
    by (simp add: update_handle_def conn_defs Let_def)
  ultimately show thesis by (blast intro: that)
qed

lemma update_handle_ids [simp]:
  "local_id (update_handle u h c) = local_id c"
  "remote_id (update_handle u h c) = remote_id c"
  "tasks (update_handle u h c) = tasks c"
  by (cases "should_switch (local_id c) (remote_id c) (state c) h";
      (force simp: update_handle_take conn_defs split: internal_conn_state.splits
         elim: update_handle_keep [where u = u]))+

lemma update_handle_connected:
  "\<exists>cur. state (update_handle u h c) = IConnected cur \<and>
     (cur = h \<or> (\<exists>old. state c = IConnected old \<and> cur = old\<lparr>handle_id := u\<rparr>))"
proof (cases "should_switch (local_id c) (remote_id c) (state c) h")
  case True
  then show ?thesis by (simp add: update_handle_take)
next
  case False
  then show ?thesis by (rule update_handle_keep [where u = u]) auto
qed

lemma update_handle_not_reconnecting [simp]:
  "state (update_handle u h c) \<noteq> IReconnecting" "state (update_handle u h c) \<noteq> IDisconnected"
  using update_handle_connected [of u h c] by auto

lemma update_handle_notifier:
  "watch_value (state_notifier (update_handle u h c)) =
     chat_connection_state_from (state (update_handle u h c)) \<and>
   watch_version (state_notifier (update_handle u h c)) = Suc (watch_version (state_notifier c))"
proof (cases "should_switch (local_id c) (remote_id c) (state c) h")
  case True
  then show ?thesis by (simp add: update_handle_take)
next
  case False
  then show ?thesis by (rule update_handle_keep [where u = u]) simp
qed

subsection \<open>The published state and the pending dial\<close>

lemma conn_inv_new_conn: "conn_inv (new_conn l r)"
  by (simp add: conn_inv_def new_conn_def conn_defs)

lemma conn_inv_new_connected: "conn_inv (new_connected l h)"
  by (simp add: conn_inv_def new_connected_def)

lemma dialing_remove1 [simp]:
  "dialing (c\<lparr>tasks := remove1 t (tasks c)\<rparr>) \<longleftrightarrow>
     ReconnectSend \<in> set (remove1 t (tasks c)) \<or> ReconnectReply \<in> set (remove1 t (tasks c))"
  by (simp add: dialing_def)

lemma in_set_remove1_other: "x \<noteq> y \<Longrightarrow> x \<in> set (remove1 y xs) \<longleftrightarrow> x \<in> set xs"
  by (rule in_set_remove1)

lemma conn_inv_update_handle: "conn_inv (update_handle u h c)"
  using update_handle_connected [of u h c] update_handle_notifier [of u h c]
  by (auto simp: conn_inv_def)

lemma conn_inv_dial_failed:
  "conn_inv c \<Longrightarrow> conn_inv (snd (set_state_if_reconnecting IDisconnected (finish_task t c)))"
  by (auto simp: conn_inv_def conn_defs split: internal_conn_state.splits)

lemma conn_inv_conn_step: "conn_step c e c' \<Longrightarrow> conn_inv c \<Longrightarrow> conn_inv c'"
proof (induction rule: conn_step.induct)
  case (call_update_handle c new_id h)
  show ?case by (rule conn_inv_update_handle)
next
  case (run_reconnect_reply c r)
  then show ?case
    by (cases r) (auto intro: conn_inv_update_handle conn_inv_dial_failed)
qed (auto simp: conn_inv_def conn_defs dialing_def in_set_remove1_other
    split: internal_conn_state.splits option.splits bool.splits)

definition conn_move :: "'id::linorder chat_conn \<Rightarrow> 'id chat_conn \<Rightarrow> bool" where
  "conn_move c c' \<longleftrightarrow> (\<exists>e. conn_step c e c')"

interpretation conn: invariant_system conn_init conn_move conn_inv
  by unfold_locales
    (auto simp: conn_init_def conn_move_def
      intro: conn_inv_new_conn conn_inv_new_connected conn_inv_conn_step)

subsection \<open>Which handles are cancelled\<close>

definition live_tokens :: "'id chat_conn \<Rightarrow> nat set" where
  "live_tokens c = (case state c of IConnected cur \<Rightarrow> {cancel_token cur} | _ \<Rightarrow> {})"

definition tokens_inv :: "nat set \<Rightarrow> 'id chat_conn \<Rightarrow> bool" where
  "tokens_inv T c \<longleftrightarrow> cancelled c = T - live_tokens c \<and> live_tokens c \<subseteq> T"

lemmas tokens_defs = tokens_inv_def live_tokens_def

lemma tokens_inv_update_handle:
  assumes "tokens_inv T c" "cancel_token h \<notin> T"
  shows "tokens_inv (insert (cancel_token h) T) (update_handle u h c)"
proof (cases "should_switch (local_id c) (remote_id c) (state c) h")
  case True
  then show ?thesis
    using assms by (auto simp: update_handle_take tokens_defs conn_defs
        split: internal_conn_state.splits)
next
  case False
  then show ?thesis
    using assms by (auto simp: tokens_defs conn_defs elim!: update_handle_keep [where u = u])
qed

lemma tokens_inv_set_reconnecting:
  "tokens_inv T c \<Longrightarrow> tokens_inv T (snd (set_state_if_reconnecting IDisconnected (finish_task t c)))"
  by (auto simp: tokens_defs conn_defs split: internal_conn_state.splits)

lemma tokens_inv_conn_step:
  assumes "conn_step c e c'" "tokens_inv T c" "distinct (map cancel_token (offered e))"
    "\<And>h. h \<in> set (offered e) \<Longrightarrow> cancel_token h \<notin> T"
  shows "tokens_inv (T \<union> cancel_token ` set (offered e)) c'"
  using assms
proof (induction rule: conn_step.induct)
  case (call_update_handle c new_id h)
  then show ?case by (simp add: tokens_inv_update_handle)
next
  case (run_reconnect_reply c r)
  have "tokens_inv T (finish_task ReconnectReply c)"
    using run_reconnect_reply.prems(1) by (simp add: tokens_defs conn_defs)
  with run_reconnect_reply show ?case
    by (cases r) (auto intro: tokens_inv_update_handle tokens_inv_set_reconnecting)
qed (auto simp: tokens_defs conn_defs
    split: internal_conn_state.splits option.splits bool.splits)

lemma tokens_inv_conn_run:
  assumes "conn_run c es c'" "tokens_inv T c" "distinct (map cancel_token (offers es))"
    "\<And>h. h \<in> set (offers es) \<Longrightarrow> cancel_token h \<notin> T"
  shows "tokens_inv (T \<union> cancel_token ` set (offers es)) c'"
  using assms
proof (induction rule: conn_run.induct)
  case (run_nil c)
  then show ?case by (simp add: offers_def)
next
  case (run_snoc c es c1 e c2)
  let ?T = "T \<union> cancel_token ` set (offers es)"
  have offers_snoc: "offers (es @ [e]) = offers es @ offered e"
    by (simp add: offers_def)
  have "tokens_inv ?T c1"
    using run_snoc by (simp add: offers_snoc)
  moreover have "cancel_token h \<notin> ?T" if "h \<in> set (offered e)" for h
    using that run_snoc.prems(2,3) by (force simp: offers_snoc)
  ultimately have "tokens_inv (?T \<union> cancel_token ` set (offered e)) c2"
    using run_snoc.prems(2) by (intro tokens_inv_conn_step [OF run_snoc.hyps(2)])
      (auto simp: offers_snoc)
  then show ?case by (simp add: offers_snoc image_Un Un_assoc)
qed

subsection \<open>Glare resolution\<close>

lemma winner_snoc:
  "winner pref (hs @ [h]) =
     (if origin h = pref \<or> (\<forall>g \<in> set hs. origin g \<noteq> pref) then h else winner pref hs)"
  by (auto simp: winner_def)

lemma winner_in_set: "hs \<noteq> [] \<Longrightarrow> winner pref hs \<in> set hs"
  using last_in_set [of hs] last_in_set [of "filter (\<lambda>h. origin h = pref) hs"]
  by (auto simp: winner_def filter_empty_conv)

lemma winner_origin: "\<exists>h \<in> set hs. origin h = pref \<Longrightarrow> origin (winner pref hs) = pref"
  using last_in_set [of "filter (\<lambda>h. origin h = pref) hs"]
  by (auto simp: winner_def filter_empty_conv)

lemma state_update_handle:
  "state (update_handle u h c) =
     (case state c of
        IConnected cur \<Rightarrow>
          if origin cur = origin h \<or> origin h = preferred_origin (local_id c) (remote_id c)
          then IConnected h else IConnected (cur\<lparr>handle_id := u\<rparr>)
      | _ \<Rightarrow> IConnected h)"
proof (cases "should_switch (local_id c) (remote_id c) (state c) h")
  case True
  then show ?thesis
    by (auto simp: update_handle_take should_switch_iff split: internal_conn_state.splits)
next
  case False
  then show ?thesis
    by (rule update_handle_keep [where u = u]) (use False in \<open>auto simp: should_switch_iff\<close>)
qed

lemma offer_all_Nil [simp]: "offer_all [] c = c"
  by (simp add: offer_all_def)

lemma offer_all_single [simp]: "offer_all [(u, h)] c = update_handle u h c"
  by (simp add: offer_all_def)

lemma offer_all_snoc: "offer_all (uhs @ [(u, h)]) c = update_handle u h (offer_all uhs c)"
  by (simp add: offer_all_def)

lemma offer_all_ids [simp]:
  "local_id (offer_all uhs c) = local_id c" "remote_id (offer_all uhs c) = remote_id c"
  by (induction uhs rule: rev_induct) (auto simp: offer_all_snoc)

text \<open>After any number of offers the reference's winner is installed, up to its rotated identifier.\<close>

lemma offer_all_winner:
  assumes "\<forall>h. state c \<noteq> IConnected h" and "uhs \<noteq> []"
  shows "\<exists>i. state (offer_all uhs c) =
     IConnected ((winner (preferred_origin (local_id c) (remote_id c)) (map snd uhs))\<lparr>handle_id := i\<rparr>)"
  using assms(2)
proof (induction uhs rule: rev_induct)
  case Nil
  then show ?case by simp
next
  case (snoc uh uhs)
  obtain u h where uh: "uh = (u, h)" by (cases uh)
  let ?p = "preferred_origin (local_id c) (remote_id c)"
  let ?w = "winner ?p (map snd uhs)"
  have self: "IConnected h = IConnected (h\<lparr>handle_id := handle_id h\<rparr>)" by simp
  show ?case
  proof (cases "uhs = []")
    case True
    then have "state (update_handle u h (offer_all uhs c)) = IConnected h"
      using assms(1) by (auto simp: state_update_handle split: internal_conn_state.splits)
    with True show ?thesis by (auto simp: uh offer_all_snoc winner_def intro!: exI [of _ "handle_id h"])
  next
    case False
    with snoc.IH obtain i where IH: "state (offer_all uhs c) = IConnected (?w\<lparr>handle_id := i\<rparr>)"
      by blast
    have "winner ?p (map snd (uhs @ [uh])) = (if origin ?w = origin h \<or> origin h = ?p then h else ?w)"
    proof (cases "origin h = ?p")
      case h: False
      then have "origin ?w = origin h \<longleftrightarrow> (\<forall>g \<in> set (map snd uhs). origin g \<noteq> ?p)"
        using False winner_in_set [of "map snd uhs" ?p] winner_origin [of "map snd uhs" ?p]
        by (metis (full_types) conn_origin.exhaust list.map_disc_iff)
      with h show ?thesis by (auto simp: winner_snoc uh)
    qed (simp add: winner_snoc uh)
    with IH self show ?thesis
      by (intro exI [of _ "if origin ?w = origin h \<or> origin h = ?p then handle_id h else u"])
        (auto simp: uh offer_all_snoc state_update_handle)
  qed
qed

lemma tokens_inv_offer_all:
  assumes "tokens_inv T c" "distinct (map cancel_token (map snd uhs))"
    "\<And>h. h \<in> set (map snd uhs) \<Longrightarrow> cancel_token h \<notin> T"
  shows "tokens_inv (T \<union> cancel_token ` set (map snd uhs)) (offer_all uhs c)"
  using assms(2,3)
proof (induction uhs rule: rev_induct)
  case Nil
  with assms(1) show ?case by simp
next
  case (snoc uh uhs)
  obtain u h where uh: "uh = (u, h)" by (cases uh)
  have "tokens_inv (T \<union> cancel_token ` set (map snd uhs)) (offer_all uhs c)"
    using snoc by simp
  moreover have "cancel_token h \<notin> T \<union> cancel_token ` set (map snd uhs)"
    using snoc.prems by (force simp: uh)
  ultimately show ?case
    by (simp add: uh offer_all_snoc tokens_inv_update_handle)
qed

section \<open>Properties\<close>

text \<open>
  Glare resolution meets its reference. Whatever sequence of dialled and accepted handles is
  offered to a connection that is not connected, the handle that ends up installed is the last one
  of the origin that this peer prefers (the last one of all if there is none of that origin), and
  exactly the other offered handles are shut down.
\<close>

lemma glare_resolution_reference:
  assumes "\<forall>h. state c \<noteq> IConnected h" and "uhs \<noteq> []"
    and "distinct (map cancel_token (map snd uhs))"
    and "\<forall>h \<in> set (map snd uhs). cancel_token h \<notin> cancelled c"
  shows "\<exists>i w. w = winner (preferred_origin (local_id c) (remote_id c)) (map snd uhs) \<and>
     state (offer_all uhs c) = IConnected (w\<lparr>handle_id := i\<rparr>) \<and>
     cancelled (offer_all uhs c) =
       cancelled c \<union> (cancel_token ` set (map snd uhs) - {cancel_token w})"
proof -
  let ?w = "winner (preferred_origin (local_id c) (remote_id c)) (map snd uhs)"
  obtain i where st: "state (offer_all uhs c) = IConnected (?w\<lparr>handle_id := i\<rparr>)"
    using offer_all_winner [OF assms(1,2)] by blast
  have "tokens_inv (cancelled c) c"
    using assms(1) by (auto simp: tokens_defs split: internal_conn_state.splits)
  then have "tokens_inv (cancelled c \<union> cancel_token ` set (map snd uhs)) (offer_all uhs c)"
    using assms(3,4) by (intro tokens_inv_offer_all) auto
  moreover have "cancel_token ?w \<notin> cancelled c"
    using assms(2,4) by (meson list.map_disc_iff winner_in_set)
  ultimately show ?thesis
    using st by (auto simp: tokens_defs)
qed

definition sample_handle :: "uuid \<Rightarrow> conn_origin \<Rightarrow> nat \<Rightarrow> nat \<Rightarrow> nat handle" where
  "sample_handle i og k r =
     \<lparr>handle_id = i, origin = og, connection = \<lparr>conn_key = k, conn_remote_id = r\<rparr>,
      tx = k, rx = k, cancel_token = k\<rparr>"

lemma sample_handle_simps [simp]:
  "handle_id (sample_handle i og k r) = i" "origin (sample_handle i og k r) = og"
  "conn_key (connection (sample_handle i og k r)) = k" "cancel_token (sample_handle i og k r) = k"
  by (simp_all add: sample_handle_def)

lemma winner_key:
  assumes "hs \<noteq> []" "pref \<noteq> pref'"
    and "map f (filter (\<lambda>h. origin h = pref) hs) = map f (filter (\<lambda>h. origin h = pref') hs')"
    and "map f (filter (\<lambda>h. origin h = pref') hs) = map f (filter (\<lambda>h. origin h = pref) hs')"
  shows "hs' \<noteq> [] \<and> f (winner pref hs) = f (winner pref' hs')"
proof -
  have w: "winner p ks = (if filter (\<lambda>h. origin h = p) ks = [] then last ks else last (filter (\<lambda>h. origin h = p) ks))" for p ks
    by (auto simp: winner_def filter_empty_conv)
  have all: "filter (\<lambda>h. origin h = p') ks = ks" if "filter (\<lambda>h. origin h = p) ks = []" "p \<noteq> p'" for p p' ks
    using that unfolding filter_empty_conv filter_id_conv by (metis conn_origin.exhaust)
  have l: "f (last ks) = f (last ks')" if "map f ks = map f ks'" "ks \<noteq> []" for ks ks'
    using that by (metis last_map map_is_Nil_conv)
  show ?thesis
  proof (cases "filter (\<lambda>h. origin h = pref) hs = []")
    case True
    then have n: "filter (\<lambda>h. origin h = pref') hs' = []" using assms(3) by simp
    have "map f hs = map f hs'" using assms(4) all [OF True assms(2)] all [OF n assms(2) [symmetric]] by simp
    then show ?thesis using True n assms(1) l by (simp add: w) (metis map_is_Nil_conv)
  next
    case False
    moreover have "filter (\<lambda>h. origin h = pref') hs' \<noteq> []" using False assms(3) by (metis map_is_Nil_conv)
    ultimately show ?thesis using l [OF assms(3)] by (auto simp: w)
  qed
qed

text \<open>
  C4: Both ends of a glare settle on the same connection. Let two peers dial each other, each any number
  of times. Whatever the order in which dialled and accepted handles reach each end, as long as both
  ends get the handles of all connections, those that one peer dialled in the same order at both,
  both ends finish connected over the same connection, and each has shut down exactly the handles of
  the others.
\<close>

theorem glare_agreement:
  fixes a b :: "'id::linorder"
  assumes "a \<noteq> b"
    and "\<forall>h. state A \<noteq> IConnected h" "local_id A = a" "remote_id A = b"
    and "\<forall>h. state B \<noteq> IConnected h" "local_id B = b" "remote_id B = a"
    and "offersA \<noteq> []"
    and "map (conn_key \<circ> connection) (filter (\<lambda>h. origin h = Dial) (map snd offersA)) =
       map (conn_key \<circ> connection) (filter (\<lambda>h. origin h = Accept) (map snd offersB))"
    and "map (conn_key \<circ> connection) (filter (\<lambda>h. origin h = Accept) (map snd offersA)) =
       map (conn_key \<circ> connection) (filter (\<lambda>h. origin h = Dial) (map snd offersB))"
    and "distinct (map cancel_token (map snd offersA))" "\<forall>h \<in> set (map snd offersA). cancel_token h \<notin> cancelled A"
    and "distinct (map cancel_token (map snd offersB))" "\<forall>h \<in> set (map snd offersB). cancel_token h \<notin> cancelled B"
  shows "\<exists>hA hB. state (offer_all offersA A) = IConnected hA \<and> state (offer_all offersB B) = IConnected hB \<and>
     conn_key (connection hA) = conn_key (connection hB) \<and>
     cancelled (offer_all offersA A) = cancelled A \<union> (cancel_token ` set (map snd offersA) - {cancel_token hA}) \<and>
     cancelled (offer_all offersB B) = cancelled B \<union> (cancel_token ` set (map snd offersB) - {cancel_token hB})"
proof -
  let ?pA = "preferred_origin a b" and ?pB = "preferred_origin b a"
  have pref: "?pA \<noteq> ?pB" "?pA = Dial \<and> ?pB = Accept \<or> ?pA = Accept \<and> ?pB = Dial"
    using assms(1) by (auto simp: preferred_origin_def)
  have key: "offersB \<noteq> [] \<and> (conn_key \<circ> connection) (winner ?pA (map snd offersA)) = (conn_key \<circ> connection) (winner ?pB (map snd offersB))"
    using winner_key [of "map snd offersA" ?pA ?pB "conn_key \<circ> connection" "map snd offersB"] pref assms(8-10) by auto
  note A = glare_resolution_reference [OF assms(2,8,11,12)] and B = glare_resolution_reference [OF assms(5) _ assms(13,14)]
  show ?thesis using A B key assms(3,4,6,7) by fastforce
qed

theorem glare_agreement_witness:
  "\<exists>hA hB. state (offer_all [(7, sample_handle 12 Accept 20 2), (8, sample_handle 11 Dial 10 2)]
        (new_conn (1::nat) 2)) = IConnected hA \<and>
     state (offer_all [(9, sample_handle 21 Accept 10 1), (6, sample_handle 22 Dial 20 1)]
        (new_conn (2::nat) 1)) = IConnected hB \<and>
     conn_key (connection hA) = conn_key (connection hB) \<and>
     cancelled (offer_all [(7, sample_handle 12 Accept 20 2), (8, sample_handle 11 Dial 10 2)] (new_conn (1::nat) 2)) =
       {10, 20} - {cancel_token hA} \<and>
     cancelled (offer_all [(9, sample_handle 21 Accept 10 1), (6, sample_handle 22 Dial 20 1)] (new_conn (2::nat) 1)) =
       {10, 20} - {cancel_token hB}"
  using glare_agreement [of "1::nat" 2 "new_conn 1 2" "new_conn 2 1"
      "[(7, sample_handle 12 Accept 20 2), (8, sample_handle 11 Dial 10 2)]"
      "[(9, sample_handle 21 Accept 10 1), (6, sample_handle 22 Dial 20 1)]"]
  by (auto simp: new_conn_def reconnect_def spawn_def insert_commute)

text \<open>
  Subscribers never observe a state that the connection is not in: in every state that the
  callers and the spawned tasks can reach by interleaving, the watch cell holds the public view of
  the state behind the lock.
\<close>

lemma published_state_agrees:
  assumes "reach conn_init conn_move c"
  shows "watch_value (subscribe_to_state c) = chat_connection_state_from (state c)"
  using conn.reach_inv [OF assms] by (simp add: conn_inv_def subscribe_to_state_def)

text \<open>
  C16: A connection is never stuck while reconnecting. In every reachable state that says
  reconnecting there is a pending dial task that can run: either every answer to the dial leaves
  that state, or the request is still to be queued, where a closed queue leaves that state and an
  open one asks the protocol actor for the remote peer and waits for the answer.
\<close>

theorem reconnecting_not_stuck:
  assumes "reach conn_init conn_move c" and "state c = IReconnecting"
  shows "(\<forall>reply. \<exists>c'. conn_step c (RunReconnectReply reply) c' \<and> state c' \<noteq> IReconnecting) \<or>
     ((\<exists>c'. conn_step c (RunReconnectSend False) c' \<and> state c' \<noteq> IReconnecting) \<and>
      (\<exists>c'. conn_step c (RunReconnectSend True) c' \<and> ReconnectReply \<in> set (tasks c') \<and>
             requests c' = requests c @ [remote_id c]))"
proof -
  have "dialing c"
    using conn.reach_inv [OF assms(1)] assms(2) by (simp add: conn_inv_def)
  then consider "ReconnectReply \<in> set (tasks c)" | "ReconnectSend \<in> set (tasks c)"
    by (auto simp: dialing_def)
  then show ?thesis
  proof cases
    case 1
    have "state (reconnect_reply reply (finish_task ReconnectReply c)) \<noteq> IReconnecting" for reply
      using assms(2) by (cases reply) (simp_all add: conn_defs)
    with 1 show ?thesis by (blast intro: run_reconnect_reply)
  next
    case 2
    have "state (reconnect_send False (finish_task ReconnectSend c)) \<noteq> IReconnecting"
      using assms(2) by (simp add: conn_defs)
    moreover have "ReconnectReply \<in> set (tasks (reconnect_send True (finish_task ReconnectSend c)))"
      "requests (reconnect_send True (finish_task ReconnectSend c)) = requests c @ [remote_id c]"
      by (simp_all add: conn_defs)
    ultimately show ?thesis using run_reconnect_send [OF 2] by blast
  qed
qed

theorem reconnecting_not_stuck_witness:
  "\<exists>c' :: nat chat_conn.
     conn_step (reconnect_start (finish_task ReconnectStart (new_conn 1 2))) (RunReconnectSend True) c'
     \<and> requests c' = [2]"
proof -
  let ?c = "new_conn (1::nat) 2"
  let ?d = "reconnect_start (finish_task ReconnectStart ?c)"
  have "conn_move ?c ?d"
    unfolding conn_move_def
    by (rule exI, rule run_reconnect_start) (simp add: new_conn_def reconnect_def spawn_def)
  then have r: "reach conn_init conn_move ?d"
    by (intro reach_step [OF reach_init]) (auto simp: conn_init_def)
  have "state ?d = IReconnecting" "requests ?d = []" "remote_id ?d = 2" "tasks ?d = [ReconnectSend]"
    by (simp_all add: new_conn_def conn_defs)
  moreover from this have "\<not> conn_step ?d (RunReconnectReply DialDropped) c'" for c'
    by (auto elim: run_replyE)
  ultimately show ?thesis
    using reconnecting_not_stuck [OF r] by (metis append_Nil)
qed

text \<open>
  C9: No connection handle leaks. In every interleaved execution of a connection, whether it starts with
  a handle or without one, if all its handles carry different tokens, then the connection has cancelled
  exactly the tokens of the handles other than the one that is installed now. So the tasks of a handle
  are told to stop when it is not the installed one, and otherwise only when the whole protocol, of
  whose token all of them are children, is shut down.
\<close>

theorem handles_cancelled_exactly:
  assumes "conn_init c0" "conn_run c0 es c" "distinct (map cancel_token (first_handle c0 @ offers es))"
  shows "cancelled c = cancel_token ` set (first_handle c0 @ offers es) -
       (case state c of IConnected cur \<Rightarrow> {cancel_token cur} | _ \<Rightarrow> {}) \<and>
     (\<forall>h\<in>set (first_handle c0 @ offers es). token_cancelled protocol_cancelled c h \<longleftrightarrow>
        protocol_cancelled \<or> \<not> (\<exists>cur. state c = IConnected cur \<and> cancel_token cur = cancel_token h))"
proof -
  have "tokens_inv (cancel_token ` set (first_handle c0)) c0"
    using assms(1) by (auto simp: conn_init_def tokens_defs new_conn_def new_connected_def reconnect_def spawn_def first_handle_def)
  from tokens_inv_conn_run [OF assms(2) this] assms(3)
  have "tokens_inv (cancel_token ` set (first_handle c0) \<union> cancel_token ` set (offers es)) c" by force
  then have c: "cancelled c = cancel_token ` set (first_handle c0 @ offers es) - live_tokens c"
    by (simp add: tokens_inv_def image_Un)
  have live: "t \<in> live_tokens c \<longleftrightarrow> (\<exists>cur. state c = IConnected cur \<and> cancel_token cur = t)" for t
    by (cases "state c") (auto simp: live_tokens_def)
  have "token_cancelled protocol_cancelled c h \<longleftrightarrow>
      protocol_cancelled \<or> \<not> (\<exists>cur. state c = IConnected cur \<and> cancel_token cur = cancel_token h)"
    if "h \<in> set (first_handle c0 @ offers es)" for h
    using that unfolding token_cancelled_def c live [symmetric] by blast
  then show ?thesis using c by (simp add: live_tokens_def)
qed

theorem handles_cancelled_exactly_witness:
  "cancelled (update_handle 8 (sample_handle 12 Accept 20 5) (new_connected 3 (sample_handle 11 Accept 10 5))) = {10} \<and>
   \<not> token_cancelled False (update_handle 8 (sample_handle 12 Accept 20 5) (new_connected 3 (sample_handle 11 Accept 10 5)))
     (sample_handle 12 Accept 20 5)"
proof -
  let ?c0 = "new_connected 3 (sample_handle 11 Accept 10 5)" and ?h = "sample_handle 12 Accept 20 5"
  have "conn_run ?c0 ([] @ [CallUpdateHandle 8 ?h]) (update_handle 8 ?h ?c0)"
    by (rule run_snoc [OF run_nil call_update_handle])
  then have r: "conn_run ?c0 [CallUpdateHandle 8 ?h] (update_handle 8 ?h ?c0)" by simp
  have st: "state (update_handle 8 ?h ?c0) = IConnected ?h"
    by (simp add: state_update_handle preferred_origin_def new_connected_def sample_handle_def)
  have "conn_init ?c0" "first_handle ?c0 = [sample_handle 11 Accept 10 5]"
    by (auto simp: conn_init_def first_handle_def new_connected_def)
  then have "cancelled (update_handle 8 ?h ?c0) = {10, 20} - {20} \<and> (token_cancelled False (update_handle 8 ?h ?c0) ?h \<longleftrightarrow> False)"
    using handles_cancelled_exactly [OF _ r, of False] by (simp add: st offers_def)
  then show ?thesis by (simp add: insert_Diff_if)
qed

text \<open>
  Every offered handle is announced, also a rejected one. After an offer the connection is
  connected, the watch cell has notified once more, and the announced identifier is that of the new
  handle or the fresh one; so a disconnect that was decided for the previous identifier has no
  effect any more, provided the previous one is neither of the two.
\<close>

lemma offer_announced:
  assumes "hid \<noteq> handle_id h" and "hid \<noteq> new_id"
  shows "(\<exists>i \<in> {handle_id h, new_id}.
       watch_value (state_notifier (update_handle new_id h c)) = Connected i) \<and>
     watch_version (state_notifier (update_handle new_id h c)) = Suc (watch_version (state_notifier c)) \<and>
     set_state_disconnected_if_id_matches hid (update_handle new_id h c) = update_handle new_id h c"
  using update_handle_connected [of new_id h c] update_handle_notifier [of new_id h c] assms
  by (auto simp: set_state_disconnected_if_id_matches_def)

end
