(* ===== verification/Errors.thy ===== *)
theory Errors
  imports Prelude
begin

text \<open>
  The error types of the library and of its foreign interface (\<^verbatim>\<open>src/error.rs\<close>). An error of
  another library is the text it prints.
\<close>

datatype lib_error =
    Sqlx string
  | SqlxMigrations string
  | PeerConnection string
  | Automerge string
  | ChatNotFound string
  | InvalidPeerId string
  | EndpointStartup
  | LockPoisoned
  | Unexpected string

datatype gossip_error =
    Storage string
  | Connectivity string
  | Protocol string
  | Internal string

fun lib_error_display :: "lib_error \<Rightarrow> string" where
  "lib_error_display (Sqlx e) = ''SQLx database error: '' @ e"
| "lib_error_display (SqlxMigrations e) = ''SQLx database migrations error: '' @ e"
| "lib_error_display (PeerConnection e) = ''iroh Connection error: '' @ e"
| "lib_error_display (Automerge e) = ''Automerge/Autosurgeon error: '' @ e"
| "lib_error_display (ChatNotFound i) = ''Chat not found for ID: '' @ i"
| "lib_error_display (InvalidPeerId e) = ''Invalid Peer ID for Chat ID generation: '' @ e"
| "lib_error_display EndpointStartup =
     ''Failed to startup network endpoint. Check internet connection.''"
| "lib_error_display LockPoisoned = ''Mutex lock poisoned''"
| "lib_error_display (Unexpected e) = ''Unexpected error: '' @ e"

fun gossip_error_message :: "gossip_error \<Rightarrow> string" where
  "gossip_error_message (Storage s) = ''Storage failure: '' @ s"
| "gossip_error_message (Connectivity s) = ''Network connectivity issue: '' @ s"
| "gossip_error_message (Protocol s) = ''P2P protocol error: '' @ s"
| "gossip_error_message (Internal s) = ''Internal system error: '' @ s"

fun gossip_error_from :: "lib_error \<Rightarrow> gossip_error" where
  "gossip_error_from (Sqlx e) = Storage e"
| "gossip_error_from (SqlxMigrations e) = Storage e"
| "gossip_error_from (PeerConnection e) = Connectivity e"
| "gossip_error_from EndpointStartup = Connectivity ''Failed to startup network endpoint.''"
| "gossip_error_from (Automerge e) = Protocol e"
| "gossip_error_from (ChatNotFound i) = Protocol (''Chat not found for ID: '' @ i)"
| "gossip_error_from (InvalidPeerId e) = Protocol e"
| "gossip_error_from LockPoisoned = Internal ''Internal lock poisoned''"
| "gossip_error_from (Unexpected e) = Internal e"

definition gossip_error_from_anyhow :: "string \<Rightarrow> gossip_error" where
  "gossip_error_from_anyhow value = Internal value"

definition lib_error_from_poison :: "'p \<Rightarrow> lib_error" where
  "lib_error_from_poison _ = LockPoisoned"

text \<open>An error raised as text and wrapped by \<^verbatim>\<open>LibError\<close> first ends up the same.\<close>

lemma gossip_error_from_unexpected [simp]:
  "gossip_error_from (Unexpected e) = gossip_error_from_anyhow e"
  by (simp add: gossip_error_from_anyhow_def)

declare gossip_error_from.simps(9) [simp del]

end
