(* ===== verification/Protocol_Handler.thy ===== *)
theory Protocol_Handler
  imports Framing Chat_Connection Errors "HOL-Library.Sublist"
begin

text \<open>
  The chat protocol on a QUIC connection
  (\<^verbatim>\<open>src/protocols/chat/protocol_handler.rs\<close>): the close codes, the opening handshake, the
  task that reads frames, the task that writes them, the task that watches both, and the actor that
  serves accept and dial requests. What the network library answers (the streams of a connection,
  the result of a dial, the reason of a close) and whether the other end of a channel still exists
  are inputs.
\<close>

section \<open>Close reasons\<close>

datatype connection_close_reason =
  Normal | InvalidOpenMessage | StreamReadFailed | StreamWriteFailed

fun to_code_reason :: "connection_close_reason \<Rightarrow> nat \<times> string" where
  "to_code_reason Normal = (0, ''Normal closure'')"
| "to_code_reason InvalidOpenMessage = (1001, ''Invalid or unexpected open message received'')"
| "to_code_reason StreamReadFailed = (1002, ''Stream read operation failed'')"
| "to_code_reason StreamWriteFailed = (1003, ''Stream write operation failed'')"

definition close_reason_try_from :: "nat \<Rightarrow> (connection_close_reason, nat) result" where
  "close_reason_try_from value =
     (if value = 0 then Ok Normal
      else if value = 1001 then Ok InvalidOpenMessage
      else if value = 1002 then Ok StreamReadFailed
      else if value = 1003 then Ok StreamWriteFailed
      else Err value)"

section \<open>Constants\<close>

definition bytes_of_string :: "string \<Rightarrow> bytes" where
  "bytes_of_string s = map (\<lambda>c. of_nat (of_char c)) s"

definition OPEN_MESSAGE :: bytes where
  "OPEN_MESSAGE = bytes_of_string ''OPEN_MESSAGE''"

definition DEFAULT_MAX_MESSAGE_SIZE :: nat where
  "DEFAULT_MAX_MESSAGE_SIZE = 1024 * 1024"

section \<open>Establishing a connection\<close>

text \<open>
  The resources that a new handle is built from: its identifier, the writer channel, the reader
  channel and the child cancellation token.
\<close>

record fresh =
  fresh_uuid :: uuid
  fresh_tx :: nat
  fresh_rx :: nat
  fresh_token :: nat

text \<open>
  The outcome: the handle or an error, the closes of the connection, and the two streams that the
  spawned tasks go on with.
\<close>

record 'id established =
  est_result :: "('id handle, string) result"
  est_closes :: "(nat \<times> string) list"
  est_streams :: "(writer \<times> reader) option"

definition est_fail :: "string \<Rightarrow> (nat \<times> string) list \<Rightarrow> 'id established" where
  "est_fail e closes = \<lparr>est_result = Err e, est_closes = closes, est_streams = None\<rparr>"

definition open_streams ::
  "conn_origin \<Rightarrow> (writer \<times> reader, string) result \<Rightarrow>
     (writer \<times> reader, string \<times> (nat \<times> string) list) result"
where
  "open_streams conn_origin bi =
     (case bi of
        Err e \<Rightarrow> Err (e, [])
      | Ok (send, recv) \<Rightarrow>
          (case conn_origin of
             Accept \<Rightarrow>
               (case read_exact (length OPEN_MESSAGE) recv of
                  (Err _, _) \<Rightarrow>
                    Err (''Failed to read open message while ACCEPTING connection.'',
                         [to_code_reason StreamReadFailed])
                | (Ok buf, recv1) \<Rightarrow>
                    if buf \<noteq> OPEN_MESSAGE
                    then Err (''Received invalid OPEN_MESSAGE while ACCEPTING connection.'',
                              [to_code_reason InvalidOpenMessage])
                    else Ok (send, recv1))
           | Dial \<Rightarrow>
               (case write_all OPEN_MESSAGE send of
                  (Err _, _) \<Rightarrow>
                    Err (''Failed to send OPEN_MESSAGE while DIAL other peer.'',
                         [to_code_reason StreamWriteFailed])
                | (Ok _, send1) \<Rightarrow> Ok (send1, recv))))"

definition process_established_connection ::
  "fresh \<Rightarrow> (writer \<times> reader, string) result \<Rightarrow> 'id connection \<Rightarrow> conn_origin \<Rightarrow> 'id established"
where
  "process_established_connection fr bi conn conn_origin =
     (case open_streams conn_origin bi of
        Err (e, closes) \<Rightarrow> est_fail e closes
      | Ok streams \<Rightarrow>
          \<lparr>est_result = Ok \<lparr>handle_id = fresh_uuid fr, origin = conn_origin, connection = conn,
                           tx = fresh_tx fr, rx = fresh_rx fr, cancel_token = fresh_token fr\<rparr>,
           est_closes = [], est_streams = Some streams\<rparr>)"

section \<open>The reading task\<close>

datatype task_end = Finished | Failed string | TaskPanicked

fun event_size :: "read_event \<Rightarrow> nat" where
  "event_size (Chunk b bs) = Suc (length bs)"
| "event_size (ReadFail e) = 1"

definition reader_size :: "reader \<Rightarrow> nat" where
  "reader_size r = sum_list (map event_size r)"

lemma reader_size_simps [simp]:
  "reader_size [] = 0" "reader_size (e # r) = event_size e + reader_size r"
  by (simp_all add: reader_size_def)

lemma reader_size_push_front [simp]: "reader_size (push_front bs r) = length bs + reader_size r"
  by (cases bs) auto

lemma read_exact_size:
  "read_exact n r = (res, r') \<Longrightarrow> reader_size r' \<le> reader_size r \<and> (is_ok res \<longrightarrow> reader_size r' + n = reader_size r)"
  by (induction n r arbitrary: res r' rule: read_exact.induct)
    (auto split: prod.splits simp: is_ok_iff result_simps)

lemma take_read_size: "take_read limit r = (res, r') \<Longrightarrow> reader_size r' \<le> reader_size r"
  by (auto split: if_splits list.splits read_event.splits)

lemma read_loop_size: "read_loop limit r buffer = (res, r', buffer') \<Longrightarrow> reader_size r' \<le> reader_size r"
proof (induction limit r buffer rule: read_loop.induct)
  case (1 limit r buffer)
  obtain res1 r1 where t: "take_read limit r = (res1, r1)" by fastforce
  note size = take_read_size [OF t]
  show ?case
  proof (cases "\<exists>bs. res1 = Ok bs \<and> bs \<noteq> []")
    case True
    then obtain bs where bs: "res1 = Ok bs" "bs \<noteq> []" by blast
    then have "read_loop (limit - length bs) r1 (buffer @ bs) = (res, r', buffer')"
      using "1.prems" t by (simp add: read_loop.simps [of limit r buffer] del: take_read.simps)
    then have "reader_size r' \<le> reader_size r1"
      using "1.IH" [OF t [symmetric] bs] by blast
    with size show ?thesis by simp
  next
    case False
    then have "r' = r1"
      using "1.prems" t
      by (cases res1) (simp_all add: read_loop.simps [of limit r buffer] del: take_read.simps)
    with size show ?thesis by simp
  qed
qed

lemma read_lp_size:
  assumes "read_lp r buffer mx = (Return (Ok (Some d)), r', buffer')"
  shows "reader_size r' < reader_size r"
proof -
  obtain header r1 where e: "read_exact 4 r = (Ok header, r1)"
    using assms by (auto simp: read_lp_def split: prod.splits result.splits io_error.splits)
  moreover obtain b1 where "read_loop (unat (u32_of_be header)) r1 buffer = (Ok (), r', b1)"
    using assms by (auto simp: read_lp_def e Let_def
        split: prod.splits result.splits io_error.splits if_splits)
  ultimately show ?thesis
    using read_exact_size [OF e] read_loop_size by fastforce
qed

lemma read_message_size:
  "read_message P r buffer mx = (Return (Ok (Some m)), r', buffer') \<Longrightarrow> reader_size r' < reader_size r"
  by (auto simp: read_message_def result_simps split: prod.splits may_panic.splits result.splits
      option.splits intro: read_lp_size)

text \<open>
  The loop that reads frames and passes the messages on. \<open>accepts\<close> is how many messages the other
  end of the channel still takes before it is dropped (\<open>None\<close>: it is not dropped).
\<close>

function recv_task ::
  "postcard \<Rightarrow> nat option \<Rightarrow> reader \<Rightarrow> bytes \<Rightarrow> proto_message list \<times> task_end"
where
  "recv_task P accepts r recv_buf =
     (case read_message P r recv_buf DEFAULT_MAX_MESSAGE_SIZE of
        (Panicked, _, _) \<Rightarrow> ([], TaskPanicked)
      | (Return (Err _), _, _) \<Rightarrow> ([], Failed ''Failed to read message on iroh connection.'')
      | (Return (Ok None), _, _) \<Rightarrow> ([], Finished)
      | (Return (Ok (Some msg)), r1, recv_buf1) \<Rightarrow>
          if accepts = Some 0 then ([], Failed ''sending into a closed channel'')
          else
            (case recv_task P (map_option (\<lambda>n. n - 1) accepts) r1 recv_buf1 of
               (msgs, e) \<Rightarrow> (msg # msgs, e)))"
  by pat_completeness auto
termination
  by (relation "measure (\<lambda>(P, accepts, r, recv_buf). reader_size r)")
    (auto dest: sym [THEN read_message_size])

declare recv_task.simps [simp del]

section \<open>The writing task\<close>

text \<open>
  It writes what the channel delivers until the channel closes, finishes the stream and waits for
  the acknowledgement (\<open>finish\<close> and \<open>stopped\<close> are the answers of the stream).
\<close>

fun send_task ::
  "postcard \<Rightarrow> (unit, string) result \<Rightarrow> (unit, string) result \<Rightarrow>
     proto_message list \<Rightarrow> writer \<Rightarrow> bytes \<Rightarrow> writer \<times> task_end"
where
  "send_task P finish stopped [] w send_buf =
     (case finish of
        Err e \<Rightarrow> (w, Failed e)
      | Ok _ \<Rightarrow> (case stopped of Err e \<Rightarrow> (w, Failed e) | Ok _ \<Rightarrow> (w, Finished)))"
| "send_task P finish stopped (msg # msgs) w send_buf =
     (case write_message P msg DEFAULT_MAX_MESSAGE_SIZE w send_buf of
        (Err e, w1, send_buf1) \<Rightarrow> (w1, Failed ''write'')
      | (Ok _, w1, send_buf1) \<Rightarrow> send_task P finish stopped msgs w1 send_buf1)"

section \<open>The watching task\<close>

text \<open>
  Why a connection ends. The two inner tasks are joined: a task that returned, with or without an
  error, joins normally, and a task that panicked does not.
\<close>

datatype close_cause =
    TokenCancelled
  | ClosedLocally
  | ClosedByApplication nat
  | ClosedOtherwise string
  | RecvJoined task_end
  | SendJoined task_end

datatype log_line = LogInfo string | LogWarn string | LogError string

fun watch_log :: "close_cause \<Rightarrow> log_line" where
  "watch_log TokenCancelled =
     LogInfo ''ChatConnection was cancelled and intentionally closed by local peer.''"
| "watch_log ClosedLocally = LogInfo ''ChatConnection was intentionally closed by local peer.''"
| "watch_log (ClosedByApplication error_code) =
     (case close_reason_try_from error_code of
        Ok reason \<Rightarrow> LogWarn ''Connection is closed by remote peer.''
      | Err e \<Rightarrow> LogError ''Chat connection was closed with unsupported reason.'')"
| "watch_log (ClosedOtherwise e) = LogError ''Chat connection was closed unexpectedly.''"
| "watch_log (RecvJoined e) =
     (if e = TaskPanicked then LogError ''Chat connection incoming stream is closed with error.''
      else LogInfo ''Chat connection incoming stream is gracefully closed.'')"
| "watch_log (SendJoined e) =
     (if e = TaskPanicked then LogError ''Chat connection outgoing stream is closed with error.''
      else LogInfo ''Chat connection outgoing stream is gracefully closed.'')"

text \<open>Whatever the cause, the connection is closed with the normal code.\<close>

definition watch_task :: "close_cause \<Rightarrow> log_line \<times> (nat \<times> string)" where
  "watch_task cause = (watch_log cause, to_code_reason Normal)"

section \<open>The actor\<close>

datatype 'id connection_request = AcceptRequest "'id connection" | DialRequest 'id nat

text \<open>
  What the surroundings answer while one request is served: the resources of a new handle, the
  dial, the bidirectional stream, and whether the receiver of the result still exists.
\<close>

record 'id actor_env =
  env_fresh :: fresh
  env_connect :: "('id connection, string) result"
  env_bi :: "(writer \<times> reader, string) result"
  env_open :: bool

record 'id proto_actor =
  accept_channel :: "('id handle, string) result list"
  dial_replies :: "(nat \<times> ('id handle, lib_error) result) list"
  connection_closes :: "(nat \<times> string) list"

datatype actor_status = Running | Exited "(unit, string) result"

definition dial_endpoint :: "'id actor_env \<Rightarrow> 'id \<Rightarrow> ('id handle, lib_error) result \<times> (nat \<times> string) list"
where
  "dial_endpoint env endpoint_id =
     (case env_connect env of
        Ok conn \<Rightarrow>
          (let est = process_established_connection (env_fresh env) (env_bi env) conn Dial
           in (map_err Unexpected (est_result est), est_closes est))
      | Err err \<Rightarrow> (Err (PeerConnection err), []))"

fun handle_request ::
  "'id actor_env \<Rightarrow> 'id connection_request \<Rightarrow> 'id proto_actor \<Rightarrow> actor_status \<times> 'id proto_actor"
where
  "handle_request env (AcceptRequest conn) a =
     (let est = process_established_connection (env_fresh env) (env_bi env) conn Accept;
          a1 = a\<lparr>connection_closes := connection_closes a @ est_closes est\<rparr>
      in if env_open env
         then (Running, a1\<lparr>accept_channel := accept_channel a1 @ [est_result est]\<rparr>)
         else (Exited (Err ''ChatProtocolActor: Failed to send Accepted connection. Channel is closed.''), a1))"
| "handle_request env (DialRequest endpoint_id respond_to) a =
     (case dial_endpoint env endpoint_id of
        (res, closes) \<Rightarrow>
          (let a1 = a\<lparr>connection_closes := connection_closes a @ closes\<rparr>
           in (Running,
               if env_open env then a1\<lparr>dial_replies := dial_replies a1 @ [(respond_to, res)]\<rparr>
               else a1)))"

text \<open>One turn of the loop: cancellation is looked at first, then the next request.\<close>

definition actor_turn ::
  "bool \<Rightarrow> ('id actor_env \<times> 'id connection_request) option \<Rightarrow> 'id proto_actor \<Rightarrow>
     actor_status \<times> 'id proto_actor"
where
  "actor_turn is_cancelled request_opt a =
     (if is_cancelled then (Exited (Ok ()), a)
      else
        (case request_opt of
           None \<Rightarrow> (Exited (Err ''ChatProtocolActor: Connection request channel is closed. Shutting down.''), a)
         | Some (env, request) \<Rightarrow> handle_request env request a))"

fun actor_run ::
  "(bool \<times> ('id actor_env \<times> 'id connection_request) option) list \<Rightarrow> 'id proto_actor \<Rightarrow>
     actor_status \<times> 'id proto_actor"
where
  "actor_run [] a = (Running, a)"
| "actor_run ((is_cancelled, request_opt) # turns) a =
     (case actor_turn is_cancelled request_opt a of
        (Running, a1) \<Rightarrow> actor_run turns a1
      | (Exited res, a1) \<Rightarrow> (Exited res, a1))"

interpretation proto_loop: actor_loop "\<lambda>(is_cancelled, request_opt). actor_turn is_cancelled request_opt" actor_run Running
  by unfold_locales (auto split: prod.splits actor_status.splits)

section \<open>The protocol handler\<close>

record 'id chat_protocol =
  request_queue :: "'id connection_request list"
  request_open :: bool
  proto_cancelled :: bool
  actor_join_handle :: bool

definition chat_protocol_new :: "'id chat_protocol" where
  "chat_protocol_new =
     \<lparr>request_queue = [], request_open = True, proto_cancelled = False, actor_join_handle = True\<rparr>"

definition protocol_accept ::
  "'id connection \<Rightarrow> 'id chat_protocol \<Rightarrow> (unit, string) result \<times> 'id chat_protocol"
where
  "protocol_accept conn p =
     (if request_open p then (Ok (), p\<lparr>request_queue := request_queue p @ [AcceptRequest conn]\<rparr>)
      else (Err ''LocallyClosed'', p))"

definition protocol_shutdown :: "bool \<Rightarrow> 'id chat_protocol \<Rightarrow> log_line \<times> 'id chat_protocol" where
  "protocol_shutdown panicked p =
     (let p1 = p\<lparr>proto_cancelled := True\<rparr>
      in if actor_join_handle p1
         then (if panicked then LogError ''ChatProtocolActor task panicked!''
               else LogInfo ''ChatProtocolActor task finished.'',
               p1\<lparr>actor_join_handle := False\<rparr>)
         else (LogWarn ''Shutdown called more than once.'', p1))"

text \<open>
  \<^verbatim>\<open>accept_conn\<close> selects between the cancellation and the accept channel without a bias:
  \<open>branch\<close> is the one that was ready first.
\<close>

datatype 'id accept_branch =
  BranchCancelled | BranchReceived "('id handle, string) result option"

fun accept_conn :: "'id accept_branch \<Rightarrow> ('id handle, lib_error) result" where
  "accept_conn BranchCancelled =
     Err (Unexpected ''Chat protocol accept connnection request was cancelled.'')"
| "accept_conn (BranchReceived None) =
     Err (Unexpected ''Failed to receive chat connection. Channel is closed.'')"
| "accept_conn (BranchReceived (Some conn_result)) = map_err Unexpected conn_result"

section \<open>Delivery of a stream of frames\<close>

text \<open>
  The interface between the framing and a loop that reads frame after frame: a whole frame at the
  front of what is available is delivered, an incomplete one delivers nothing, and at the end the
  loop finishes. Everything that follows about whole streams is proved here.
\<close>

locale frame_stream =
  fixes frame :: "'m \<Rightarrow> bytes"
    and ok :: "'m \<Rightarrow> bool"
    and avail :: "'s \<Rightarrow> bytes"
    and valid :: "'s \<Rightarrow> bool"
    and loop :: "'s \<Rightarrow> 'm list \<times> 'e"
    and finished :: 'e
  assumes loop_frame: "valid s \<Longrightarrow> ok m \<Longrightarrow> avail s = frame m @ rest \<Longrightarrow>
      \<exists>s'. valid s' \<and> avail s' = rest \<and> loop s = (m # fst (loop s'), snd (loop s'))"
    and loop_short: "valid s \<Longrightarrow> ok m \<Longrightarrow> strict_prefix (avail s) (frame m) \<Longrightarrow> fst (loop s) = []"
    and loop_end: "valid s \<Longrightarrow> avail s = [] \<Longrightarrow> loop s = ([], finished)"
begin

lemma delivers_all:
  "valid s \<Longrightarrow> (\<And>m. m \<in> set ms \<Longrightarrow> ok m) \<Longrightarrow> avail s = concat (map frame ms) \<Longrightarrow>
   loop s = (ms, finished)"
proof (induction ms arbitrary: s)
  case Nil
  then show ?case by (simp add: loop_end)
next
  case (Cons m ms)
  then obtain s' where "valid s'" "avail s' = concat (map frame ms)"
      "loop s = (m # fst (loop s'), snd (loop s'))"
    using loop_frame [of s m "concat (map frame ms)"] by auto
  with Cons show ?case by simp
qed

lemma delivers_prefix:
  "valid s \<Longrightarrow> (\<And>m. m \<in> set ms \<Longrightarrow> ok m) \<Longrightarrow> prefix (avail s) (concat (map frame ms)) \<Longrightarrow>
   prefix (fst (loop s)) ms"
proof (induction ms arbitrary: s)
  case Nil
  then show ?case by (simp add: loop_end)
next
  case (Cons m ms)
  show ?case
  proof (cases "strict_prefix (avail s) (frame m)")
    case True
    with Cons.prems loop_short [of s m] show ?thesis by simp
  next
    case False
    then obtain rest where rest: "avail s = frame m @ rest" "prefix rest (concat (map frame ms))"
      using Cons.prems(3) by (fastforce simp: prefix_append strict_prefix_def)
    obtain s' where s': "valid s'" "avail s' = rest" "loop s = (m # fst (loop s'), snd (loop s'))"
      using loop_frame [of s m rest] rest(1) Cons.prems by auto
    have "prefix (fst (loop s')) ms"
      using Cons.IH [of s'] s' rest(2) Cons.prems(2) by simp
    with s'(3) show ?thesis by simp
  qed
qed

end

section \<open>Lemmas\<close>

text \<open>The encoding of a message, and the messages that the limit lets through.\<close>

definition encoded :: "postcard \<Rightarrow> proto_message \<Rightarrow> bytes" where
  "encoded P m =
     (case serialized_size P m of
        Ok n \<Rightarrow> (case to_slice P m n of Ok bs \<Rightarrow> bs | Err _ \<Rightarrow> [])
      | Err _ \<Rightarrow> [])"

definition sendable :: "postcard \<Rightarrow> proto_message \<Rightarrow> bool" where
  "sendable P m \<longleftrightarrow>
     from_bytes P (encoded P m) = Ok m \<and> length (encoded P m) < DEFAULT_MAX_MESSAGE_SIZE"

lemma max_size_bound: "n < DEFAULT_MAX_MESSAGE_SIZE \<Longrightarrow> n < 2 ^ 32"
  by (simp add: DEFAULT_MAX_MESSAGE_SIZE_def)

lemma write_message_sendable:
  assumes "postcard_laws P" "sendable P m"
  shows "write_message P m DEFAULT_MAX_MESSAGE_SIZE w buffer =
     (case write_all (u32_to_be (of_nat (length (encoded P m)))) w of
        (Err e, w1) \<Rightarrow> (Err e, w1, encoded P m)
      | (Ok _, w1) \<Rightarrow> (case write_all (encoded P m) w1 of (res, w2) \<Rightarrow> (res, w2, encoded P m)))"
proof -
  from assms(1) obtain bs where bs: "serialized_size P m = Ok (length bs)" "to_slice P m (length bs) = Ok bs"
    unfolding postcard_laws_def by blast
  then have enc: "encoded P m = bs" by (simp add: encoded_def)
  show ?thesis
    unfolding enc using assms(2) bs by (simp add: write_message_def sendable_def enc)
qed

lemma write_message_unsendable:
  assumes "postcard_laws P" "\<not> sendable P m"
  shows "write_message P m DEFAULT_MAX_MESSAGE_SIZE w buffer = (Err WTooLarge, w, buffer)"
proof -
  from assms(1) obtain bs where "serialized_size P m = Ok (length bs)"
      "to_slice P m (length bs) = Ok bs" "from_bytes P bs = Ok m"
    unfolding postcard_laws_def by blast
  with assms(2) show ?thesis
    by (auto simp: write_message_def encoded_def sendable_def)
qed

lemma write_all_cases:
  "(\<exists>w'. write_all bs w = (Ok (), w') \<and> written w' = written w @ bs) \<or>
   (\<exists>e w'. write_all bs w = (Err e, w') \<and> prefix (written w') (written w @ bs))"
  by (auto simp: write_all_def take_is_prefix split: option.splits)

lemma write_message_frame:
  assumes "postcard_laws P" "sendable P m"
  obtains (ok) w' buffer' where
    "write_message P m DEFAULT_MAX_MESSAGE_SIZE w buffer = (Ok (), w', buffer')"
    "written w' = written w @ frame_of (encoded P m)"
  | (fail) e w' buffer' where
    "write_message P m DEFAULT_MAX_MESSAGE_SIZE w buffer = (Err e, w', buffer')"
    "prefix (written w') (written w @ frame_of (encoded P m))"
proof -
  let ?h = "u32_to_be (of_nat (length (encoded P m)))"
  from write_all_cases [of ?h w] show thesis
  proof (elim disjE exE conjE)
    fix w1 assume w1: "write_all ?h w = (Ok (), w1)" "written w1 = written w @ ?h"
    from write_all_cases [of "encoded P m" w1] show thesis
      by (elim disjE exE conjE)
        (use w1 that in \<open>simp_all add: write_message_sendable [OF assms] frame_of_def\<close>)
  next
    fix e w1 assume w1: "write_all ?h w = (Err e, w1)" "prefix (written w1) (written w @ ?h)"
    then have "prefix (written w1) ((written w @ ?h) @ encoded P m)"
      by (rule_tac prefix_prefix)
    with w1(1) show thesis
      by (intro that(2)) (simp_all add: write_message_sendable [OF assms] frame_of_def)
  qed
qed

text \<open>What the writing task puts on its stream.\<close>

lemma send_task_prefix:
  assumes "postcard_laws P" "send_task P fin st ms w buffer = (w', e)"
  shows "\<exists>ms'. prefix ms' ms \<and> (\<forall>m \<in> set ms'. sendable P m) \<and>
     prefix (written w') (written w @ concat (map (\<lambda>m. frame_of (encoded P m)) ms')) \<and>
     (e = Finished \<longrightarrow> ms' = ms \<and>
        written w' = written w @ concat (map (\<lambda>m. frame_of (encoded P m)) ms'))"
  using assms(2)
proof (induction ms arbitrary: w buffer)
  case Nil
  then show ?case by (auto split: result.splits)
next
  case (Cons m ms)
  show ?case
  proof (cases "sendable P m")
    case False
    then show ?thesis
      using Cons.prems by (auto simp: write_message_unsendable [OF assms(1)] intro!: exI [of _ "[]"])
  next
    case True
    consider (ok) w1 buffer1 where
        "write_message P m DEFAULT_MAX_MESSAGE_SIZE w buffer = (Ok (), w1, buffer1)"
        "written w1 = written w @ frame_of (encoded P m)"
      | (fail) err w1 buffer1 where
        "write_message P m DEFAULT_MAX_MESSAGE_SIZE w buffer = (Err err, w1, buffer1)"
        "prefix (written w1) (written w @ frame_of (encoded P m))"
      by (rule write_message_frame [OF assms(1) True, of w buffer])
    then show ?thesis
    proof cases
      case ok
      with Cons.prems have "send_task P fin st ms w1 buffer1 = (w', e)" by simp
      from Cons.IH [OF this] obtain ms' where "prefix ms' ms" "\<forall>m \<in> set ms'. sendable P m"
        "prefix (written w') (written w1 @ concat (map (\<lambda>m. frame_of (encoded P m)) ms'))"
        "e = Finished \<longrightarrow> ms' = ms \<and>
           written w' = written w1 @ concat (map (\<lambda>m. frame_of (encoded P m)) ms')"
        by blast
      with True ok(2) show ?thesis by (intro exI [of _ "m # ms'"]) simp
    next
      case fail
      with Cons.prems True show ?thesis by (intro exI [of _ "[m]"]) auto
    qed
  qed
qed

text \<open>What the reading task delivers.\<close>

lemma read_lp_ref_short:
  assumes "strict_prefix st (frame_of bs)" "length bs < 2 ^ 32" "length bs \<le> mx"
  shows "fst (read_lp_ref st [] mx) \<in> {Return (Ok None), Panicked}"
proof -
  have "prefix st (frame_of bs)" and len: "length st < 4 + length bs"
    using assms(1) prefix_length_less [OF assms(1)] by (auto simp: strict_prefix_def frame_of_def)
  then have "take 4 st = u32_to_be (of_nat (length bs))" if "4 \<le> length st"
    using that by (auto simp: prefix_def frame_of_def)
      (metis append_eq_append_conv_if length_u32_to_be)
  moreover have "unat (of_nat (length bs) :: 32 word) = length bs"
    using assms(2) by (simp add: unat_of_nat take_bit_nat_eq_self)
  ultimately show ?thesis
    using len assms(3) by (auto simp: read_lp_ref_def Let_def)
qed

lemma recv_task_frame:
  assumes "faultless r" "sendable P m" "stream_bytes r = frame_of (encoded P m) @ rest"
  shows "\<exists>r'. faultless r' \<and> stream_bytes r' = rest \<and>
     recv_task P None r [] = (m # fst (recv_task P None r' []), snd (recv_task P None r' []))"
proof -
  obtain r' where "read_message P r [] DEFAULT_MAX_MESSAGE_SIZE = (Return (Ok (Some m)), r', [])"
      "faultless r'" "stream_bytes r' = rest"
    using read_message_frame [OF assms(1,3), of DEFAULT_MAX_MESSAGE_SIZE P m] assms(2) max_size_bound
    by (auto simp: sendable_def)
  then show ?thesis
    by (intro exI [of _ r']) (simp add: recv_task.simps [of P None r] split: prod.splits)
qed

lemma recv_task_short:
  assumes "faultless r" "sendable P m" "strict_prefix (stream_bytes r) (frame_of (encoded P m))"
  shows "fst (recv_task P None r []) = []"
proof -
  have "fst (read_lp_ref (stream_bytes r) [] DEFAULT_MAX_MESSAGE_SIZE) \<in> {Return (Ok None), Panicked}"
    using assms(2,3) max_size_bound by (intro read_lp_ref_short) (auto simp: sendable_def)
  then have "fst (read_message P r [] DEFAULT_MAX_MESSAGE_SIZE) \<in> {Return (Ok None), Panicked}"
    using read_lp_faultless [OF assms(1), of "[]" DEFAULT_MAX_MESSAGE_SIZE]
    by (auto simp: read_message_def)
  then show ?thesis
    by (auto simp: recv_task.simps [of P None r] split: prod.splits)
qed

interpretation recv: frame_stream
  "\<lambda>m. frame_of (encoded P m)" "sendable P" stream_bytes faultless
  "\<lambda>r. recv_task P None r []" Finished
  for P :: postcard
proof unfold_locales
  fix s
  assume "faultless s" "stream_bytes s = []"
  then show "recv_task P None s [] = ([], Finished)"
    by (rule read_message_end [of s P DEFAULT_MAX_MESSAGE_SIZE]) (simp add: recv_task.simps [of P None s])
qed (use recv_task_frame recv_task_short in blast)+

interpretation close_codes: codec "\<lambda>r. fst (to_code_reason r)" close_reason_try_from "\<lambda>_. True"
proof unfold_locales
  fix r show "close_reason_try_from (fst (to_code_reason r)) = Ok r"
    by (cases r) (simp_all add: close_reason_try_from_def)
qed

lemma OPEN_MESSAGE_length [simp]: "length OPEN_MESSAGE = 12"
  by (simp add: OPEN_MESSAGE_def bytes_of_string_def)

text \<open>The opening of an accepted stream that does not fail.\<close>

lemma open_streams_accept:
  assumes "faultless r"
  shows "open_streams Accept (Ok (w, r)) =
     (if length (stream_bytes r) < 12
      then Err (''Failed to read open message while ACCEPTING connection.'', [to_code_reason StreamReadFailed])
      else if take 12 (stream_bytes r) \<noteq> OPEN_MESSAGE
      then Err (''Received invalid OPEN_MESSAGE while ACCEPTING connection.'',
                [to_code_reason InvalidOpenMessage])
      else Ok (w, snd (read_exact 12 r)))"
  using read_exact_faultless [OF assms, of 12] by (auto simp: open_streams_def)

lemma open_streams_accept_rest:
  assumes "faultless r" "stream_bytes r = OPEN_MESSAGE @ rest"
  obtains r' where "open_streams Accept (Ok (w, r)) = Ok (w, r')" "faultless r'" "stream_bytes r' = rest"
  using assms read_exact_faultless [OF assms(1), of 12] that
  by (auto simp: open_streams_accept)

lemma open_streams_dial:
  assumes "open_streams Dial (Ok (w, r)) = Ok (w', r')"
  shows "written w' = written w @ OPEN_MESSAGE"
  using assms write_all_cases [of OPEN_MESSAGE w] by (auto simp: open_streams_def)

text \<open>What the actor's two outputs should be for one served request.\<close>

fun accept_output :: "'id actor_env \<times> 'id connection_request \<Rightarrow> ('id handle, string) result list" where
  "accept_output (env, AcceptRequest conn) =
     [est_result (process_established_connection (env_fresh env) (env_bi env) conn Accept)]"
| "accept_output (env, DialRequest endpoint_id k) = []"

fun dial_output :: "'id actor_env \<times> 'id connection_request \<Rightarrow> (nat \<times> ('id handle, lib_error) result) list"
where
  "dial_output (env, AcceptRequest conn) = []"
| "dial_output (env, DialRequest endpoint_id k) = [(k, fst (dial_endpoint env endpoint_id))]"

lemma handle_request_open:
  assumes "env_open env"
  shows "\<exists>a'. handle_request env req a = (Running, a') \<and>
     accept_channel a' = accept_channel a @ accept_output (env, req) \<and>
     dial_replies a' = dial_replies a @ dial_output (env, req)"
  using assms by (cases req) (auto simp: Let_def split: prod.splits)

section \<open>Properties\<close>

text \<open>
  C5: A session delivers what was sent, in order. Let a dialled connection write the opening and
  then its queued messages, over a stream that may break at any byte. If the accepting end gets
  some beginning of these bytes that holds the opening, in chunks of any size, then it accepts the
  connection and its reading task delivers a beginning of the queued messages, none altered,
  repeated or skipped. If the writing task finished and all bytes arrived, exactly the queued
  messages are delivered and the reading task finishes cleanly.
\<close>

theorem session_delivery:
  assumes "postcard_laws P"
    and "est_streams (process_established_connection frD (Ok (\<lparr>written = [], room = limit\<rparr>, rD)) connD Dial)
       = Some (wD, rD')"
    and "send_task P finish stopped ms wD buffer = (w, e)"
    and "faultless r" and "prefix (stream_bytes r) (written w)" and "12 \<le> length (stream_bytes r)"
  shows "\<exists>r'. est_streams (process_established_connection frA (Ok (wA, r)) connA Accept) = Some (wA, r') \<and>
     prefix (fst (recv_task P None r' [])) ms \<and>
     (e = Finished \<and> stream_bytes r = written w \<longrightarrow> recv_task P None r' [] = (ms, Finished))"
proof -
  let ?frames = "\<lambda>ms. concat (map (\<lambda>m. frame_of (encoded P m)) ms)"
  have "open_streams Dial (Ok (\<lparr>written = [], room = limit\<rparr>, rD)) = Ok (wD, rD')"
    using assms(2) by (auto simp: process_established_connection_def est_fail_def
        split: result.splits prod.splits)
  then have wD: "written wD = OPEN_MESSAGE"
    using open_streams_dial by fastforce
  obtain ms' where ms': "prefix ms' ms" "\<forall>m \<in> set ms'. sendable P m"
      "prefix (written w) (OPEN_MESSAGE @ ?frames ms')"
      "e = Finished \<longrightarrow> ms' = ms \<and> written w = OPEN_MESSAGE @ ?frames ms'"
    using send_task_prefix [OF assms(1,3)] wD by auto
  from assms(5) ms'(3) have "prefix (stream_bytes r) (OPEN_MESSAGE @ ?frames ms')"
    by (rule prefix_order.trans)
  with assms(6) obtain rest where rest: "stream_bytes r = OPEN_MESSAGE @ rest" "prefix rest (?frames ms')"
    by (auto simp: prefix_append dest: prefix_length_le)
      (metis OPEN_MESSAGE_length append_self_conv prefix_bot.bot_least prefix_length_prefix
        prefix_order.dual_order.eq_iff prefix_order.refl)
  obtain r' where r': "open_streams Accept (Ok (wA, r)) = Ok (wA, r')" "faultless r'" "stream_bytes r' = rest"
    using open_streams_accept_rest [OF assms(4) rest(1)] by blast
  have "prefix (fst (recv_task P None r' [])) ms'"
    using recv.delivers_prefix [of r' ms' P] r'(2,3) rest(2) ms'(2) by blast
  moreover have "recv_task P None r' [] = (ms, Finished)" if "e = Finished" "stream_bytes r = written w"
    using recv.delivers_all [of r' ms P] r'(2,3) rest(1) ms'(2,4) that by auto
  ultimately show ?thesis
    using r'(1) ms'(1) by (auto simp: process_established_connection_def intro: prefix_order.trans)
qed

lemma OPEN_MESSAGE_bytes:
  "OPEN_MESSAGE = [79, 80, 69, 78, 95, 77, 69, 83, 83, 65, 71, 69]"
  by (simp add: OPEN_MESSAGE_def bytes_of_string_def)

definition sample_fresh :: fresh where
  "sample_fresh = \<lparr>fresh_uuid = 1, fresh_tx = 1, fresh_rx = 1, fresh_token = 1\<rparr>"

definition sample_connection :: "nat connection" where
  "sample_connection = \<lparr>conn_key = 1, conn_remote_id = 2\<rparr>"

definition sample_writer :: writer where
  "sample_writer = \<lparr>written = [], room = None\<rparr>"

definition sample_reader :: reader where
  "sample_reader = [Chunk 79 [80, 69, 78, 95, 77, 69, 83, 83, 65, 71, 69], Chunk 0 [0], Chunk 0 [1, 0]]"

theorem session_delivery_witness:
  "\<exists>r'. est_streams (process_established_connection sample_fresh (Ok (sample_writer, sample_reader))
        sample_connection Accept) = Some (sample_writer, r') \<and>
     recv_task sample_postcard None r' [] = ([Sync None], Finished)"
proof -
  let ?w = "\<lparr>written = OPEN_MESSAGE, room = None\<rparr>"
  let ?w' = "\<lparr>written = OPEN_MESSAGE @ [0, 0, 0, 1, 0], room = None\<rparr>"
  have be: "u32_to_be 1 = [0, 0, 0, 1]"
    by (simp add: u32_to_be_def)
  have dial: "est_streams (process_established_connection sample_fresh
      (Ok (\<lparr>written = [], room = None\<rparr>, [])) sample_connection Dial) = Some (?w, [])"
    by (simp add: process_established_connection_def open_streams_def write_all_def)
  have send: "send_task sample_postcard (Ok ()) (Ok ()) [Sync None] ?w [] = (?w', Finished)"
    by (simp add: write_message_def write_all_def sample_postcard_def DEFAULT_MAX_MESSAGE_SIZE_def be)
  have "faultless sample_reader" and bytes: "stream_bytes sample_reader = written ?w'"
    by (simp_all add: sample_reader_def OPEN_MESSAGE_bytes)
  with session_delivery [OF sample_postcard_laws dial send, of sample_reader sample_fresh sample_writer
      sample_connection]
  show ?thesis by auto
qed

text \<open>
  C27: The opening of an accepted connection is checked completely. On a stream that does not fail,
  the connection is accepted exactly when its first twelve bytes are the opening message; a shorter
  stream closes it with the read-failure code, a different opening with the invalid-opening code,
  and in both cases no task is started.
\<close>

theorem accept_checks_opening:
  assumes "faultless r"
  shows "let est = process_established_connection fr (Ok (w, r)) conn Accept in
     (is_ok (est_result est) \<longleftrightarrow> prefix OPEN_MESSAGE (stream_bytes r)) \<and>
     (is_ok (est_result est) \<longrightarrow> est_closes est = []) \<and>
     (\<not> is_ok (est_result est) \<longrightarrow> est_streams est = None \<and>
        map fst (est_closes est) = [if length (stream_bytes r) < 12 then 1002 else 1001])"
proof -
  have "prefix OPEN_MESSAGE (stream_bytes r) \<longleftrightarrow>
      12 \<le> length (stream_bytes r) \<and> take 12 (stream_bytes r) = OPEN_MESSAGE"
    by (metis OPEN_MESSAGE_length append_eq_conv_conj prefix_def prefix_length_le take_is_prefix)
  then show ?thesis
    by (auto simp: process_established_connection_def open_streams_accept [OF assms] est_fail_def Let_def)
qed

theorem accept_checks_opening_witness:
  "map fst (est_closes (process_established_connection sample_fresh
     (Ok (sample_writer, [Chunk 1 [2, 3, 4, 5, 6, 7, 8], Chunk 9 [10, 11, 12, 13]]))
     sample_connection Accept)) = [1001]"
proof -
  have "\<not> prefix OPEN_MESSAGE [1, 2, 3, 4, 5, 6, 7, 8, 9, 10, 11, 12, 13]"
    by (simp add: OPEN_MESSAGE_bytes)
  then show ?thesis
    using accept_checks_opening [of "[Chunk 1 [2, 3, 4, 5, 6, 7, 8], Chunk 9 [10, 11, 12, 13]]"
        sample_fresh sample_writer sample_connection]
    by (simp add: Let_def)
qed

text \<open>
  The close codes are a faithful encoding: a received code is read as a reason exactly when it
  is the code that this reason is sent with, and every other code is returned unchanged as the
  error.
\<close>

lemma close_codes_roundtrip:
  "(close_reason_try_from code = Ok reason \<longleftrightarrow> fst (to_code_reason reason) = code) \<and>
   (close_reason_try_from code = Err other \<longleftrightarrow>
      other = code \<and> code \<notin> range (\<lambda>r. fst (to_code_reason r)))"
proof -
  have "close_reason_try_from code = Ok reason \<Longrightarrow> fst (to_code_reason reason) = code" for reason
    by (auto simp: close_reason_try_from_def split: if_splits)
  then have ok: "close_reason_try_from code = Ok reason \<longleftrightarrow> fst (to_code_reason reason) = code" for reason
    using close_codes.dec_enc by auto
  have err: "close_reason_try_from code = Err other \<Longrightarrow> other = code" for other
    by (auto simp: close_reason_try_from_def split: if_splits)
  have "close_reason_try_from code = Err code \<longleftrightarrow> (\<forall>r. close_reason_try_from code \<noteq> Ok r)"
    using err by (cases "close_reason_try_from code") auto
  with ok err show ?thesis by (metis (no_types, lifting) rangeE rangeI)
qed

text \<open>
  C25: The protocol actor serves its requests in order and answers each of them. Over any run of
  requests without a cancellation, while the receivers exist, the actor keeps running, the accept
  channel receives one result per accepted connection and every dial request one reply on its own
  channel, both in the order of the requests.
\<close>

theorem actor_serves_in_order:
  assumes "\<forall>(env, req) \<in> set reqs. env_open env"
  shows "\<exists>a'. actor_run (map (\<lambda>er. (False, Some er)) reqs) a = (Running, a') \<and>
     accept_channel a' = accept_channel a @ concat (map accept_output reqs) \<and>
     dial_replies a' = dial_replies a @ concat (map dial_output reqs)"
  using assms
proof (induction reqs arbitrary: a)
  case Nil
  then show ?case by simp
next
  case (Cons er reqs)
  obtain env req where er: "er = (env, req)" by (cases er)
  obtain a1 where a1: "handle_request env req a = (Running, a1)"
      "accept_channel a1 = accept_channel a @ accept_output (env, req)"
      "dial_replies a1 = dial_replies a @ dial_output (env, req)"
    using handle_request_open [of env req a] Cons.prems er by auto
  with Cons.IH [of a1] Cons.prems show ?case
    by (auto simp: er actor_turn_def)
qed

text \<open>A cancellation ends the actor without an error, whatever requests it meets before.\<close>

lemma actor_stops_when_cancelled:
  fixes turns :: "(bool \<times> ('id actor_env \<times> 'id connection_request) option) list"
  assumes "\<forall>(c, req) \<in> set turns. c \<or> (\<exists>env r. req = Some (env, r) \<and> env_open env)" "\<exists>t\<in>set turns. fst t"
  shows "\<exists>a'. actor_run turns a = (Exited (Ok ()), a')"
proof -
  let ?ok = "\<lambda>(c, req). c \<or> (\<exists>(env :: 'id actor_env) (r :: 'id connection_request). req = Some (env, r) \<and> env_open env)"
  have "\<exists>a'. actor_run turns a = (Exited (Ok ()), a') \<and> True"
  proof (rule proto_loop.run_stops [where P = "\<lambda>_. True" and ok = ?ok and stop = fst])
    fix e :: "bool \<times> ('id actor_env \<times> 'id connection_request) option" and s :: "'id proto_actor"
    assume "?ok e" "\<not> fst e"
    then obtain env r where e: "e = (False, Some (env, r))" "env_open env" by (cases e) auto
    obtain a1 where "handle_request env r s = (Running, a1)"
      using handle_request_open [of env r s] e(2) by auto
    then show "\<exists>s'. (case e of (c, r) \<Rightarrow> actor_turn c r) s = (Running, s') \<and> True"
      using e(1) by (simp add: actor_turn_def)
  next
    fix e :: "bool \<times> ('id actor_env \<times> 'id connection_request) option" and s :: "'id proto_actor"
    assume "fst e"
    then show "\<exists>s'. (case e of (c, r) \<Rightarrow> actor_turn c r) s = (Exited (Ok ()), s') \<and> True"
      by (cases e) (simp add: actor_turn_def)
  qed (use assms in simp_all)
  then show ?thesis by simp
qed

theorem actor_serves_in_order_witness:
  "\<exists>a'. actor_run [(False, Some (\<lparr>env_fresh = sample_fresh, env_connect = Err ''timeout'',
        env_bi = Err ''none'', env_open = True\<rparr>, DialRequest (2::nat) 7))]
      \<lparr>accept_channel = [], dial_replies = [], connection_closes = []\<rparr> = (Running, a') \<and>
     dial_replies a' = [(7, Err (PeerConnection ''timeout''))]"
  using actor_serves_in_order [of "[(\<lparr>env_fresh = sample_fresh, env_connect = Err ''timeout'',
        env_bi = Err ''none'', env_open = True\<rparr>, DialRequest (2::nat) 7)]"
      "\<lparr>accept_channel = [], dial_replies = [], connection_closes = []\<rparr>"]
  by (auto simp: dial_endpoint_def)

end
