(* ===== verification/Schema.thy ===== *)
theory Schema
  imports Errors
begin

text \<open>
  The shape of a chat document (\<^verbatim>\<open>src/persistence/schema.rs\<close>) and the message types of
  \<^verbatim>\<open>src/persistence.rs\<close>. A document has, under its root, one list per peer, and every
  message is a map appended to the list of its sender. The document library
  (\<^verbatim>\<open>automerge\<close> with \<^verbatim>\<open>autosurgeon\<close>) is a parameter: the record \<open>automerge\<close>.
\<close>

section \<open>Messages\<close>

type_synonym i64 = "64 word"

datatype chat_message_content = Text string

record chat_message =
  msg_id :: string
  sender_node_id :: string
  content :: chat_message_content
  created_at :: i64
  updated_at :: i64

section \<open>The document library\<close>

datatype obj_type = ObjMap | ObjList

datatype scalar = ScalarStr string | ScalarInt i64

datatype am_value = Object obj_type | Scalar scalar

datatype am_prop = PropMap string | PropSeq nat

record 'o patch =
  patch_path :: "('o \<times> am_prop) list"

text \<open>
  Type parameters: documents \<open>'d\<close>, open transactions \<open>'t\<close>, object ids \<open>'o\<close>, change hashes \<open>'h\<close>,
  sync states \<open>'s\<close>, sync messages \<open>'m\<close> and patch logs \<open>'l\<close>. A field that returns a result fails
  with the text of the library's error.
\<close>

record ('d, 't, 'o, 'h, 's, 'm, 'l) automerge =
  am_root :: 'o
  am_new :: 'd
  am_load :: "bytes \<Rightarrow> ('d, string) result"
  am_save :: "'d \<Rightarrow> bytes"
  am_save_after :: "'d \<Rightarrow> 'h list \<Rightarrow> bytes"
  am_load_incremental :: "'d \<Rightarrow> bytes \<Rightarrow> ('d, string) result"
  am_get_heads :: "'d \<Rightarrow> 'h list"
  am_keys :: "'d \<Rightarrow> 'o \<Rightarrow> string list"
  am_get :: "'d \<Rightarrow> 'o \<Rightarrow> string \<Rightarrow> ((am_value \<times> 'o) option, string) result"
  am_length :: "'d \<Rightarrow> 'o \<Rightarrow> nat"
  am_hydrate_prop :: "'d \<Rightarrow> 'o \<Rightarrow> nat \<Rightarrow> (chat_message, string) result"
  tx_begin :: "'d \<Rightarrow> 't"
  tx_commit :: "'t \<Rightarrow> 'd"
  tx_get :: "'t \<Rightarrow> 'o \<Rightarrow> string \<Rightarrow> ((am_value \<times> 'o) option, string) result"
  tx_length :: "'t \<Rightarrow> 'o \<Rightarrow> nat"
  tx_put_object :: "'o \<Rightarrow> string \<Rightarrow> obj_type \<Rightarrow> ('t, 'o, string) io"
  tx_insert_object :: "'o \<Rightarrow> nat \<Rightarrow> obj_type \<Rightarrow> ('t, 'o, string) io"
  tx_put :: "'o \<Rightarrow> string \<Rightarrow> scalar \<Rightarrow> ('t, unit, string) io"
  tx_reconcile_init :: "string \<Rightarrow> ('t, unit, string) io"
  am_sync_new :: 's
  am_receive_sync :: "'d \<Rightarrow> 's \<Rightarrow> 'm \<Rightarrow> (unit, string) result \<times> 'd \<times> 's \<times> 'l"
  am_make_patches :: "'d \<Rightarrow> 'l \<Rightarrow> 'o patch list"
  am_generate_sync :: "'d \<Rightarrow> 's \<Rightarrow> 'm option \<times> 's"

text \<open>
  \<^verbatim>\<open>transact\<close>: the closure runs on a fresh transaction, which is committed when it succeeds and
  rolled back when it fails.
\<close>

definition transact ::
  "('d, 't, 'o, 'h, 's, 'm, 'l) automerge \<Rightarrow> ('t, 'a, 'e) io \<Rightarrow> ('d, 'a, 'e) io" where
  "transact A f d =
     (case f (tx_begin A d) of
        (Ok x, t) \<Rightarrow> (Ok x, tx_commit A t)
      | (Err e, t) \<Rightarrow> (Err e, d))"

section \<open>The schema\<close>

definition LIST_PREFIX :: string where "LIST_PREFIX = ''msgs_''"
definition key_ID :: string where "key_ID = ''id''"
definition key_SENDER :: string where "key_SENDER = ''sender_node_id''"
definition key_CONTENT :: string where "key_CONTENT = ''content''"
definition key_CONTENT_TEXT :: string where "key_CONTENT_TEXT = ''Text''"
definition key_CREATED_AT :: string where "key_CREATED_AT = ''created_at''"
definition key_UPDATED_AT :: string where "key_UPDATED_AT = ''updated_at''"

datatype 'o message_list_id = MessageListId 'o

fun list_inner :: "'o message_list_id \<Rightarrow> 'o" where
  "list_inner (MessageListId l) = l"

definition peer_list_key :: "string \<Rightarrow> string" where
  "peer_list_key peer_id = LIST_PREFIX @ peer_id"

definition ensure_peer_list ::
  "('d, 't, 'o, 'h, 's, 'm, 'l) automerge \<Rightarrow> string \<Rightarrow> ('t, 'o message_list_id, lib_error) io" where
  "ensure_peer_list A peer_id =
     (let key = peer_list_key peer_id in
      io_bind (\<lambda>tx. io_lift (map_err Automerge (tx_get A tx (am_root A) key)) tx)
        (\<lambda>found. io_bind
           (case found of
              Some (v, i) \<Rightarrow> io_return i
            | None \<Rightarrow> io_map_err Automerge (tx_put_object A (am_root A) key ObjList))
           (\<lambda>list_id. io_return (MessageListId list_id))))"

fun collect_peer_lists ::
  "('d, 't, 'o, 'h, 's, 'm, 'l) automerge \<Rightarrow> 'd \<Rightarrow> string list \<Rightarrow> 'o message_list_id list
     \<Rightarrow> ('o message_list_id list, lib_error) result" where
  "collect_peer_lists A d [] acc = Ok acc"
| "collect_peer_lists A d (key # ks) acc =
     (if starts_with key LIST_PREFIX
      then and_then (map_err Automerge (am_get A d (am_root A) key))
        (\<lambda>found. case found of
           Some (v, i) \<Rightarrow> collect_peer_lists A d ks (acc @ [MessageListId i])
         | None \<Rightarrow> collect_peer_lists A d ks acc)
      else collect_peer_lists A d ks acc)"

definition get_all_peer_lists ::
  "('d, 't, 'o, 'h, 's, 'm, 'l) automerge \<Rightarrow> 'd \<Rightarrow> ('o message_list_id list, lib_error) result"
where
  "get_all_peer_lists A d = collect_peer_lists A d (am_keys A d (am_root A)) []"

definition get_peer_list ::
  "('d, 't, 'o, 'h, 's, 'm, 'l) automerge \<Rightarrow> 'd \<Rightarrow> string
     \<Rightarrow> ('o message_list_id option, lib_error) result" where
  "get_peer_list A d peer_id =
     (let key = peer_list_key peer_id in
      and_then (map_err Automerge (am_get A d (am_root A) key))
        (\<lambda>found. case found of
           Some (v, i) \<Rightarrow> Ok (Some (MessageListId i))
         | None \<Rightarrow> Ok None))"

definition list_len ::
  "('d, 't, 'o, 'h, 's, 'm, 'l) automerge \<Rightarrow> 'd \<Rightarrow> 'o message_list_id \<Rightarrow> nat" where
  "list_len A d l = am_length A d (list_inner l)"

definition append_message ::
  "('d, 't, 'o, 'h, 's, 'm, 'l) automerge \<Rightarrow> 'o message_list_id \<Rightarrow> chat_message
     \<Rightarrow> ('t, unit, lib_error) io" where
  "append_message A l m =
     io_bind (io_read (\<lambda>tx. tx_length A tx (list_inner l))) (\<lambda>idx.
     io_bind (io_map_err Automerge (tx_insert_object A (list_inner l) idx ObjMap)) (\<lambda>mid.
     io_bind (io_map_err Automerge (tx_put A mid key_ID (ScalarStr (msg_id m)))) (\<lambda>_.
     io_bind (io_map_err Automerge (tx_put A mid key_SENDER (ScalarStr (sender_node_id m)))) (\<lambda>_.
     io_bind (io_map_err Automerge (tx_put A mid key_CREATED_AT (ScalarInt (created_at m)))) (\<lambda>_.
     io_bind (io_map_err Automerge (tx_put A mid key_UPDATED_AT (ScalarInt (updated_at m)))) (\<lambda>_.
     io_bind (io_map_err Automerge (tx_put_object A mid key_CONTENT ObjMap)) (\<lambda>cid.
     (case content m of
        Text txt \<Rightarrow> io_map_err Automerge (tx_put A cid key_CONTENT_TEXT (ScalarStr txt))))))))))"

section \<open>What the document library promises\<close>

text \<open>
  The objects of a document, by id: a map from keys to values, or a list of values. A value that is
  itself an object comes with the id of that object.
\<close>

datatype 'o node = MapNode "string \<rightharpoonup> am_value \<times> 'o" | ListNode "(am_value \<times> 'o) list"

type_synonym 'o objects = "'o \<rightharpoonup> 'o node"

fun new_node :: "obj_type \<Rightarrow> 'o node" where
  "new_node ObjMap = MapNode Map.empty"
| "new_node ObjList = ListNode []"

fun map_entries :: "'o node option \<Rightarrow> string \<rightharpoonup> am_value \<times> 'o" where
  "map_entries (Some (MapNode m)) = m"
| "map_entries _ = Map.empty"

fun str_value :: "(am_value \<times> 'o) option \<Rightarrow> string option" where
  "str_value (Some (Scalar (ScalarStr s), _)) = Some s"
| "str_value _ = None"

fun int_value :: "(am_value \<times> 'o) option \<Rightarrow> i64 option" where
  "int_value (Some (Scalar (ScalarInt i), _)) = Some i"
| "int_value _ = None"

fun map_value :: "(am_value \<times> 'o) option \<Rightarrow> 'o option" where
  "map_value (Some (Object ObjMap, i)) = Some i"
| "map_value _ = None"

text \<open>
  The message a map object stands for: the derived reading of a struct takes the entry of each
  field name, and a variant with one value is a map from the name of the variant to the value.
\<close>

definition read_message_object :: "'o objects \<Rightarrow> 'o \<Rightarrow> chat_message option" where
  "read_message_object h i =
     (let f = map_entries (h i) in
      case (str_value (f ''id''), str_value (f ''sender_node_id''), map_value (f ''content''),
            int_value (f ''created_at''), int_value (f ''updated_at'')) of
        (Some a, Some s, Some c, Some cr, Some up) \<Rightarrow>
          map_option (\<lambda>t. \<lparr>msg_id = a, sender_node_id = s, content = Text t,
                           created_at = cr, updated_at = up\<rparr>)
            (str_value (map_entries (h c) ''Text''))
      | _ \<Rightarrow> None)"

text \<open>
  The operations of a transaction on its objects \<open>h\<close>, for objects that exist.
\<close>

definition tx_laws ::
  "('d, 't, 'o, 'h, 's, 'm, 'l) automerge \<Rightarrow> ('t \<Rightarrow> 'o objects) \<Rightarrow> bool" where
  "tx_laws A h \<longleftrightarrow>
     (\<forall>t i f k. h t i = Some (MapNode f) \<longrightarrow> tx_get A t i k = Ok (f k)) \<and>
     (\<forall>t i xs. h t i = Some (ListNode xs) \<longrightarrow> tx_length A t i = length xs) \<and>
     (\<forall>t i f k ty. h t i = Some (MapNode f) \<longrightarrow>
        (\<exists>n t'. tx_put_object A i k ty t = (Ok n, t') \<and> h t n = None \<and>
           h t' = (h t)(i \<mapsto> MapNode (f(k \<mapsto> (Object ty, n))), n \<mapsto> new_node ty))) \<and>
     (\<forall>t i xs j ty. h t i = Some (ListNode xs) \<longrightarrow> j \<le> length xs \<longrightarrow>
        (\<exists>n t'. tx_insert_object A i j ty t = (Ok n, t') \<and> h t n = None \<and>
           h t' = (h t)(i \<mapsto> ListNode (take j xs @ (Object ty, n) # drop j xs), n \<mapsto> new_node ty))) \<and>
     (\<forall>t i f k v. h t i = Some (MapNode f) \<longrightarrow>
        (\<exists>w t'. tx_put A i k v t = (Ok (), t') \<and>
           h t' = (h t)(i \<mapsto> MapNode (f(k \<mapsto> (Scalar v, w))))))"

text \<open>Reading a document with the objects \<open>g\<close>, and moving between it and a transaction.\<close>

definition doc_laws ::
  "('d, 't, 'o, 'h, 's, 'm, 'l) automerge \<Rightarrow> ('t \<Rightarrow> 'o objects) \<Rightarrow> ('d \<Rightarrow> 'o objects) \<Rightarrow> bool" where
  "doc_laws A h g \<longleftrightarrow>
     (\<forall>d. h (tx_begin A d) = g d) \<and>
     (\<forall>t. g (tx_commit A t) = h t) \<and>
     (\<forall>d i f. g d i = Some (MapNode f) \<longrightarrow> distinct (am_keys A d i) \<and> set (am_keys A d i) = dom f) \<and>
     (\<forall>d i f k. g d i = Some (MapNode f) \<longrightarrow> am_get A d i k = Ok (f k)) \<and>
     (\<forall>d i xs. g d i = Some (ListNode xs) \<longrightarrow> am_length A d i = length xs) \<and>
     (\<forall>d i xs j m. g d i = Some (ListNode xs) \<longrightarrow> j < length xs \<longrightarrow>
        read_message_object (g d) (snd (xs ! j)) = Some m \<longrightarrow> am_hydrate_prop A d i j = Ok m)"

section \<open>Chat documents\<close>

text \<open>
  A document is a chat document when its root is a map, the entry of every peer is a list, every
  element of it is a message, and two peers never share a list.
\<close>

definition chat_objects :: "'o \<Rightarrow> 'o objects \<Rightarrow> bool" where
  "chat_objects root h \<longleftrightarrow>
     (\<exists>f. h root = Some (MapNode f) \<and>
        (\<forall>p v i. f (peer_list_key p) = Some (v, i) \<longrightarrow>
           (\<exists>xs. h i = Some (ListNode xs) \<and>
              (\<forall>x\<in>set xs. read_message_object h (snd x) \<noteq> None))) \<and>
        (\<forall>p q v w i. f (peer_list_key p) = Some (v, i) \<longrightarrow> f (peer_list_key q) = Some (w, i) \<longrightarrow>
           p = q))"

fun list_entries :: "'o node option \<Rightarrow> (am_value \<times> 'o) list" where
  "list_entries (Some (ListNode xs)) = xs"
| "list_entries _ = []"

text \<open>The messages of every peer, which is what a chat document means.\<close>

definition peer_view :: "'o \<Rightarrow> 'o objects \<Rightarrow> string \<rightharpoonup> chat_message list" where
  "peer_view root h p =
     map_option (\<lambda>(v, i). map (the \<circ> read_message_object h \<circ> snd) (list_entries (h i)))
       (map_entries (h root) (peer_list_key p))"

lemma peer_list_key_inject [simp]: "peer_list_key p = peer_list_key q \<longleftrightarrow> p = q"
  by (simp add: peer_list_key_def)

lemma tx_laws_get: "tx_laws A h \<Longrightarrow> h t i = Some (MapNode f) \<Longrightarrow> tx_get A t i k = Ok (f k)"
  by (simp add: tx_laws_def)

lemma tx_laws_length: "tx_laws A h \<Longrightarrow> h t i = Some (ListNode xs) \<Longrightarrow> tx_length A t i = length xs"
  by (simp add: tx_laws_def)

lemma tx_laws_put_object:
  assumes "tx_laws A h" "h t i = Some (MapNode f)"
  obtains n t' where "tx_put_object A i k ty t = (Ok n, t')" "h t n = None"
    "h t' = (h t)(i \<mapsto> MapNode (f(k \<mapsto> (Object ty, n))), n \<mapsto> new_node ty)"
  using assms unfolding tx_laws_def by meson

lemma tx_laws_insert_object:
  assumes "tx_laws A h" "h t i = Some (ListNode xs)" "j \<le> length xs"
  obtains n t' where "tx_insert_object A i j ty t = (Ok n, t')" "h t n = None"
    "h t' = (h t)(i \<mapsto> ListNode (take j xs @ (Object ty, n) # drop j xs), n \<mapsto> new_node ty)"
  using assms unfolding tx_laws_def by meson

lemma tx_laws_put:
  assumes "tx_laws A h" "h t i = Some (MapNode f)"
  obtains w t' where "tx_put A i k v t = (Ok (), t')"
    "h t' = (h t)(i \<mapsto> MapNode (f(k \<mapsto> (Scalar v, w))))"
  using assms unfolding tx_laws_def by meson

lemmas schema_keys = key_ID_def key_SENDER_def key_CONTENT_def key_CONTENT_TEXT_def
  key_CREATED_AT_def key_UPDATED_AT_def

text \<open>Putting the scalar fields of a message into its new object.\<close>

lemma put_message_fields:
  assumes L: "tx_laws A h" and "h t i = Some (MapNode Map.empty)"
  obtains t1 t2 t3 t4 w1 w2 w3 w4 where
    "tx_put A i key_ID (ScalarStr a) t = (Ok (), t1)" "tx_put A i key_SENDER (ScalarStr b) t1 = (Ok (), t2)"
    "tx_put A i key_CREATED_AT (ScalarInt c) t2 = (Ok (), t3)" "tx_put A i key_UPDATED_AT (ScalarInt d) t3 = (Ok (), t4)"
    "h t4 = (h t)(i \<mapsto> MapNode [key_ID \<mapsto> (Scalar (ScalarStr a), w1), key_SENDER \<mapsto> (Scalar (ScalarStr b), w2),
       key_CREATED_AT \<mapsto> (Scalar (ScalarInt c), w3), key_UPDATED_AT \<mapsto> (Scalar (ScalarInt d), w4)])"
proof -
  obtain w1 t1 where 1: "tx_put A i key_ID (ScalarStr a) t = (Ok (), t1)"
    "h t1 = (h t)(i \<mapsto> MapNode [key_ID \<mapsto> (Scalar (ScalarStr a), w1)])"
    by (rule tx_laws_put [OF assms])
  then have "h t1 i = Some (MapNode [key_ID \<mapsto> (Scalar (ScalarStr a), w1)])" by simp
  then obtain w2 t2 where 2: "tx_put A i key_SENDER (ScalarStr b) t1 = (Ok (), t2)"
    "h t2 = (h t1)(i \<mapsto> MapNode [key_ID \<mapsto> (Scalar (ScalarStr a), w1), key_SENDER \<mapsto> (Scalar (ScalarStr b), w2)])"
    by (rule tx_laws_put [OF L])
  then have "h t2 i = Some (MapNode [key_ID \<mapsto> (Scalar (ScalarStr a), w1), key_SENDER \<mapsto> (Scalar (ScalarStr b), w2)])"
    by simp
  then obtain w3 t3 where 3: "tx_put A i key_CREATED_AT (ScalarInt c) t2 = (Ok (), t3)"
    "h t3 = (h t2)(i \<mapsto> MapNode [key_ID \<mapsto> (Scalar (ScalarStr a), w1), key_SENDER \<mapsto> (Scalar (ScalarStr b), w2),
       key_CREATED_AT \<mapsto> (Scalar (ScalarInt c), w3)])"
    by (rule tx_laws_put [OF L])
  then have "h t3 i = Some (MapNode [key_ID \<mapsto> (Scalar (ScalarStr a), w1), key_SENDER \<mapsto> (Scalar (ScalarStr b), w2),
       key_CREATED_AT \<mapsto> (Scalar (ScalarInt c), w3)])"
    by simp
  then obtain w4 t4 where 4: "tx_put A i key_UPDATED_AT (ScalarInt d) t3 = (Ok (), t4)"
    "h t4 = (h t3)(i \<mapsto> MapNode [key_ID \<mapsto> (Scalar (ScalarStr a), w1), key_SENDER \<mapsto> (Scalar (ScalarStr b), w2),
       key_CREATED_AT \<mapsto> (Scalar (ScalarInt c), w3), key_UPDATED_AT \<mapsto> (Scalar (ScalarInt d), w4)])"
    by (rule tx_laws_put [OF L])
  show thesis
    using that [OF 1(1) 2(1) 3(1) 4(1), of w1 w2 w3 w4] 4(2) by (simp add: 1(2) 2(2) 3(2))
qed

text \<open>Appending a message changes the list and adds two objects, and reads back as the message.\<close>

lemma append_message_objects:
  assumes L: "tx_laws A h" and l: "h t l = Some (ListNode xs)"
  obtains t' mid cid f g where
    "append_message A (MessageListId l) m t = (Ok (), t')"
    "h t' = (h t)(l \<mapsto> ListNode (xs @ [(Object ObjMap, mid)]), mid \<mapsto> MapNode f, cid \<mapsto> MapNode g)"
    "h t mid = None" "h t cid = None" "mid \<noteq> cid"
    "read_message_object (h t') mid = Some m"
proof -
  obtain ct where ct: "content m = Text ct"
    by (cases "content m") auto
  obtain mid t1 where 1: "tx_insert_object A l (length xs) ObjMap t = (Ok mid, t1)" "h t mid = None"
    "h t1 = (h t)(l \<mapsto> ListNode (xs @ [(Object ObjMap, mid)]), mid \<mapsto> MapNode Map.empty)"
    using tx_laws_insert_object [OF L l, of "length xs" ObjMap] by auto
  have "h t1 mid = Some (MapNode Map.empty)" by (simp add: 1(3))
  from put_message_fields [OF L this, of "msg_id m" "sender_node_id m" "created_at m" "updated_at m"]
  obtain t2 t3 t4 t5 f where put: "tx_put A mid key_ID (ScalarStr (msg_id m)) t1 = (Ok (), t2)"
    "tx_put A mid key_SENDER (ScalarStr (sender_node_id m)) t2 = (Ok (), t3)"
    "tx_put A mid key_CREATED_AT (ScalarInt (created_at m)) t3 = (Ok (), t4)"
    "tx_put A mid key_UPDATED_AT (ScalarInt (updated_at m)) t4 = (Ok (), t5)"
    and 5: "h t5 = (h t1)(mid \<mapsto> MapNode f)" "\<exists>w1 w2 w3 w4. f = [key_ID \<mapsto> (Scalar (ScalarStr (msg_id m)), w1),
       key_SENDER \<mapsto> (Scalar (ScalarStr (sender_node_id m)), w2), key_CREATED_AT \<mapsto> (Scalar (ScalarInt (created_at m)), w3),
       key_UPDATED_AT \<mapsto> (Scalar (ScalarInt (updated_at m)), w4)]"
    by metis
  have "h t5 mid = Some (MapNode f)" by (simp add: 5(1))
  then obtain cid t6 where 6: "tx_put_object A mid key_CONTENT ObjMap t5 = (Ok cid, t6)" "h t5 cid = None"
    "h t6 = (h t5)(mid \<mapsto> MapNode (f(key_CONTENT \<mapsto> (Object ObjMap, cid))), cid \<mapsto> MapNode Map.empty)"
    using tx_laws_put_object [OF L, of t5 mid f key_CONTENT ObjMap] by (metis new_node.simps(1))
  have "h t6 cid = Some (MapNode Map.empty)" by (simp add: 6(3))
  then obtain w t7 where 7: "tx_put A cid key_CONTENT_TEXT (ScalarStr ct) t6 = (Ok (), t7)"
    "h t7 = (h t6)(cid \<mapsto> MapNode [key_CONTENT_TEXT \<mapsto> (Scalar (ScalarStr ct), w)])"
    by (rule tx_laws_put [OF L])
  have fresh: "h t cid = None" "mid \<noteq> cid" "mid \<noteq> l"
    using 1 5(1) 6(2) l by (auto split: if_splits)
  have heap: "h t7 = (h t)(l \<mapsto> ListNode (xs @ [(Object ObjMap, mid)]),
      mid \<mapsto> MapNode (f(key_CONTENT \<mapsto> (Object ObjMap, cid))), cid \<mapsto> MapNode [key_CONTENT_TEXT \<mapsto> (Scalar (ScalarStr ct), w)])"
    using fresh unfolding 7(2) 6(3) 5(1) 1(3) by (auto simp: fun_eq_iff)
  have "append_message A (MessageListId l) m t = (Ok (), t7)"
    by (simp add: append_message_def io_bind_def io_map_err_def tx_laws_length [OF L l] ct 1(1) put 6(1) 7(1))
  moreover have "read_message_object (h t7) mid = Some m"
    using fresh ct 5(2) unfolding heap read_message_object_def by (auto simp: schema_keys)
  ultimately show thesis
    using that heap 1(2) fresh by blast
qed

text \<open>Objects only gain entries, so a message that could be read still reads the same.\<close>

definition grows :: "'o objects \<Rightarrow> 'o objects \<Rightarrow> bool" where
  "grows h h' \<longleftrightarrow> (\<forall>i. map_entries (h i) \<subseteq>\<^sub>m map_entries (h' i))"

lemma grows_entry:
  "grows h h' \<Longrightarrow> map_entries (h i) k = Some x \<Longrightarrow> map_entries (h' i) k = Some x"
  by (metis domI grows_def map_le_def)

lemma str_value_Some_iff: "str_value x = Some s \<longleftrightarrow> (\<exists>w. x = Some (Scalar (ScalarStr s), w))"
  by (cases x rule: str_value.cases) auto

lemma int_value_Some_iff: "int_value x = Some i \<longleftrightarrow> (\<exists>w. x = Some (Scalar (ScalarInt i), w))"
  by (cases x rule: int_value.cases) auto

lemma map_value_Some_iff: "map_value x = Some i \<longleftrightarrow> x = Some (Object ObjMap, i)"
  by (cases x rule: map_value.cases) auto

lemma read_message_object_Some_iff:
  "read_message_object h i = Some m \<longleftrightarrow>
     (\<exists>c t. content m = Text t \<and>
        str_value (map_entries (h i) ''id'') = Some (msg_id m) \<and>
        str_value (map_entries (h i) ''sender_node_id'') = Some (sender_node_id m) \<and>
        map_value (map_entries (h i) ''content'') = Some c \<and>
        int_value (map_entries (h i) ''created_at'') = Some (created_at m) \<and>
        int_value (map_entries (h i) ''updated_at'') = Some (updated_at m) \<and>
        str_value (map_entries (h c) ''Text'') = Some t)"
  unfolding read_message_object_def Let_def
  by (cases m) (auto split: option.splits)

lemma read_message_grows:
  assumes "grows h h'" "read_message_object h i = Some m"
  shows "read_message_object h' i = Some m"
  using assms(2) unfolding read_message_object_Some_iff str_value_Some_iff int_value_Some_iff
    map_value_Some_iff
  using grows_entry [OF assms(1)] by blast

lemma chat_objects_root:
  assumes "chat_objects root h"
  obtains f where "h root = Some (MapNode f)"
  using assms unfolding chat_objects_def by blast

lemma chat_objects_list:
  "chat_objects root h \<Longrightarrow> h root = Some (MapNode f) \<Longrightarrow> f (peer_list_key p) = Some (v, i) \<Longrightarrow>
     \<exists>xs. h i = Some (ListNode xs) \<and> (\<forall>x\<in>set xs. read_message_object h (snd x) \<noteq> None)"
  unfolding chat_objects_def by (metis node.inject(1) option.inject)

lemma chat_objects_sep:
  "chat_objects root h \<Longrightarrow> h root = Some (MapNode f) \<Longrightarrow> f (peer_list_key p) = Some (v, i) \<Longrightarrow>
     f (peer_list_key q) = Some (w, i) \<Longrightarrow> p = q"
  unfolding chat_objects_def by (metis node.inject(1) option.inject)

lemma chat_objectsI:
  assumes "h root = Some (MapNode f)"
    and "\<And>p v i. f (peer_list_key p) = Some (v, i) \<Longrightarrow> \<exists>xs. h i = Some (ListNode xs) \<and>
       (\<forall>x\<in>set xs. read_message_object h (snd x) \<noteq> None)"
    and "\<And>p q v w i. f (peer_list_key p) = Some (v, i) \<Longrightarrow> f (peer_list_key q) = Some (w, i) \<Longrightarrow> p = q"
  shows "chat_objects root h"
  using assms unfolding chat_objects_def by blast

lemma map_read_grows:
  assumes "grows h h'" "\<forall>x\<in>set xs. read_message_object h (snd x) \<noteq> None"
  shows "map (the \<circ> read_message_object h' \<circ> snd) xs = map (the \<circ> read_message_object h \<circ> snd) xs"
  using assms read_message_grows by (fastforce intro!: map_cong)

text \<open>
  When only the list of the peer \<open>p\<close> is new or changed and objects only gain entries, the objects
  are still those of a chat, and only the messages of \<open>p\<close> changed.
\<close>

lemma one_list_changed:
  assumes C: "chat_objects r H" and root: "H r = Some (MapNode f)" "H' r = Some (MapNode f')" and grows: "grows H H'"
    and p: "f' (peer_list_key p) = Some (v, l)" "H' l = Some (ListNode ys)"
      "\<forall>x\<in>set ys. read_message_object H' (snd x) \<noteq> None"
    and others: "\<And>q. q \<noteq> p \<Longrightarrow> f' (peer_list_key q) = f (peer_list_key q)"
      "\<And>q w i. q \<noteq> p \<Longrightarrow> f (peer_list_key q) = Some (w, i) \<Longrightarrow> i \<noteq> l \<and> H' i = H i"
  shows "chat_objects r H' \<and> peer_view r H' = (peer_view r H)(p \<mapsto> map (the \<circ> read_message_object H' \<circ> snd) ys)"
proof
  note lists = chat_objects_list [OF C root(1)] and sep = chat_objects_sep [OF C root(1)]
  show "chat_objects r H'"
  proof (rule chat_objectsI [of H' r f'], rule root(2))
    fix q w i assume q: "f' (peer_list_key q) = Some (w, i)"
    show "\<exists>xs. H' i = Some (ListNode xs) \<and> (\<forall>x\<in>set xs. read_message_object H' (snd x) \<noteq> None)"
    proof (cases "q = p")
      case True
      with q p show ?thesis by simp
    next
      case False
      with q others(1) have old: "f (peer_list_key q) = Some (w, i)" by simp
      with lists [OF old] others(2) [OF False old] read_message_grows [OF grows] show ?thesis by fastforce
    qed
  next
    fix q q' w w' i
    assume "f' (peer_list_key q) = Some (w, i)" "f' (peer_list_key q') = Some (w', i)"
    with sep others p(1) show "q = q'" by (cases "q = p"; cases "q' = p") fastforce+
  qed
  show "peer_view r H' = (peer_view r H)(p \<mapsto> map (the \<circ> read_message_object H' \<circ> snd) ys)"
  proof
    fix q
    show "peer_view r H' q = ((peer_view r H)(p \<mapsto> map (the \<circ> read_message_object H' \<circ> snd) ys)) q"
    proof (cases "q = p \<or> f (peer_list_key q) = None")
      case True
      then show ?thesis using p(1,2) others(1) by (auto simp: peer_view_def root)
    next
      case False
      then obtain w i where q: "q \<noteq> p" "f (peer_list_key q) = Some (w, i)" by auto
      then show ?thesis
        using lists [OF q(2)] others(1) [OF q(1)] others(2) [OF q] map_read_grows [OF grows]
        by (fastforce simp: peer_view_def root)
    qed
  qed
qed

lemma ensure_peer_list_objects:
  assumes L: "tx_laws A h" and C: "chat_objects (am_root A) (h t)"
  obtains t' l f v where
    "ensure_peer_list A p t = (Ok (MessageListId l), t')"
    "h t' (am_root A) = Some (MapNode f)" "f (peer_list_key p) = Some (v, l)"
    "chat_objects (am_root A) (h t')"
    "peer_view (am_root A) (h t') =
       (peer_view (am_root A) (h t))(p \<mapsto> case_option [] id (peer_view (am_root A) (h t) p))"
proof -
  let ?r = "am_root A"
  obtain f where root: "h t ?r = Some (MapNode f)"
    using C by (rule chat_objects_root)
  note get = tx_laws_get [OF L root]
  show thesis
  proof (cases "f (peer_list_key p)")
    case (Some vi)
    obtain v l where vi: "vi = (v, l)" by force
    have "ensure_peer_list A p t = (Ok (MessageListId l), t)"
      using Some vi by (simp add: ensure_peer_list_def Let_def io_bind_def get)
    moreover have "peer_view ?r (h t) =
        (peer_view ?r (h t))(p \<mapsto> case_option [] id (peer_view ?r (h t) p))"
      using Some vi by (simp add: peer_view_def root fun_eq_iff)
    ultimately show thesis
      using that root Some C unfolding vi by blast
  next
    case None
    let ?f = "\<lambda>n. f(peer_list_key p \<mapsto> (Object ObjList, n))"
    obtain n t' where put: "tx_put_object A ?r (peer_list_key p) ObjList t = (Ok n, t')"
      "h t n = None" "h t' = (h t)(?r \<mapsto> MapNode (?f n), n \<mapsto> ListNode [])"
      using tx_laws_put_object [OF L root, of "peer_list_key p" ObjList] by auto
    have n: "n \<noteq> ?r" using put(2) root by auto
    then have root': "h t' ?r = Some (MapNode (?f n))" by (simp add: put(3))
    have grows: "grows (h t) (h t')" and l': "h t' n = Some (ListNode [])"
      using n None put(2) by (auto simp: grows_def put(3) root map_le_def)
    have other: "i \<noteq> n \<and> h t' i = h t i" if "f (peer_list_key q) = Some (v, i)" for q v i
      using chat_objects_list [OF C root that] root put(2) n by (auto simp: put(3))
    have "chat_objects ?r (h t') \<and> peer_view ?r (h t') = (peer_view ?r (h t))(p \<mapsto> [])"
      using one_list_changed [where H' = "h t'" and p = p, OF C root root' grows _ l'] other by simp
    moreover have "ensure_peer_list A p t = (Ok (MessageListId n), t')" "peer_view ?r (h t) p = None"
      using None put(1) by (simp_all add: ensure_peer_list_def Let_def io_bind_def io_map_err_def get peer_view_def root)
    ultimately show thesis
      using that [OF _ root'] by simp
  qed
qed

lemma append_message_view:
  assumes L: "tx_laws A h" and C: "chat_objects r (h t)"
    and root: "h t r = Some (MapNode f)" and l: "f (peer_list_key p) = Some (v, l)"
  obtains t' where
    "append_message A (MessageListId l) m t = (Ok (), t')"
    "chat_objects r (h t')"
    "peer_view r (h t') = (peer_view r (h t))(p \<mapsto> the (peer_view r (h t) p) @ [m])"
proof -
  note lists = chat_objects_list [OF C root] and sep = chat_objects_sep [OF C root]
  obtain xs where xs: "h t l = Some (ListNode xs)" "\<forall>x\<in>set xs. read_message_object (h t) (snd x) \<noteq> None"
    using lists [OF l] by blast
  obtain t' mid cid f2 g where run: "append_message A (MessageListId l) m t = (Ok (), t')"
    and heap: "h t' = (h t)(l \<mapsto> ListNode (xs @ [(Object ObjMap, mid)]), mid \<mapsto> MapNode f2,
       cid \<mapsto> MapNode g)"
    and fresh: "h t mid = None" "h t cid = None" "mid \<noteq> cid"
    and new: "read_message_object (h t') mid = Some m"
    by (rule append_message_objects [OF L xs(1)])
  let ?ys = "xs @ [(Object ObjMap, mid)]"
  have "l \<noteq> r" "mid \<noteq> r" "cid \<noteq> r" "mid \<noteq> l" "cid \<noteq> l"
    using xs(1) root fresh by auto
  then have root': "h t' r = Some (MapNode f)" and l': "h t' l = Some (ListNode ?ys)"
    using root by (simp_all add: heap)
  have grows: "grows (h t) (h t')"
    using fresh xs(1) by (auto simp: grows_def heap)
  have other: "i \<noteq> l \<and> h t' i = h t i" if "q \<noteq> p" "f (peer_list_key q) = Some (w, i)" for q w i
  proof -
    have "i \<noteq> l" using sep [OF that(2)] l that(1) by blast
    moreover have "i \<noteq> mid" "i \<noteq> cid" using lists [OF that(2)] fresh by auto
    ultimately show ?thesis by (simp add: heap)
  qed
  have "\<forall>x\<in>set ?ys. read_message_object (h t') (snd x) \<noteq> None"
    using new xs(2) read_message_grows [OF grows] by fastforce
  then have "chat_objects r (h t') \<and>
      peer_view r (h t') = (peer_view r (h t))(p \<mapsto> map (the \<circ> read_message_object (h t') \<circ> snd) ?ys)"
    using one_list_changed [where H' = "h t'", OF C root root' grows l l'] other by blast
  moreover have "peer_view r (h t) p = Some (map (the \<circ> read_message_object (h t) \<circ> snd) xs)"
    using l xs(1) by (simp add: peer_view_def root)
  ultimately show thesis
    using that run new map_read_grows [OF grows xs(2)] by simp
qed

text \<open>
  The write of a new message: on a chat document it always succeeds, keeps a chat document, and
  appends the message to the messages of its sender and to nothing else.
\<close>

lemma store_message_view:
  assumes L: "tx_laws A h" "doc_laws A h g" and C: "chat_objects (am_root A) (g d)"
  obtains d' where
    "transact A (io_bind (ensure_peer_list A p) (\<lambda>l. append_message A l m)) d = (Ok (), d')"
    "chat_objects (am_root A) (g d')"
    "peer_view (am_root A) (g d') = (peer_view (am_root A) (g d))
       (p \<mapsto> case_option [] id (peer_view (am_root A) (g d) p) @ [m])"
proof -
  let ?r = "am_root A" and ?t = "tx_begin A d"
  have beg: "h ?t = g d" and com: "\<And>t. g (tx_commit A t) = h t"
    using L(2) by (auto simp: doc_laws_def)
  obtain t1 l f v where 1: "ensure_peer_list A p ?t = (Ok (MessageListId l), t1)"
    "h t1 ?r = Some (MapNode f)" "f (peer_list_key p) = Some (v, l)" "chat_objects ?r (h t1)"
    "peer_view ?r (h t1) = (peer_view ?r (h ?t))(p \<mapsto> case_option [] id (peer_view ?r (h ?t) p))"
    by (rule ensure_peer_list_objects [OF L(1), of ?t p]) (use C beg in simp)
  obtain t2 where 2: "append_message A (MessageListId l) m t1 = (Ok (), t2)"
    "chat_objects ?r (h t2)"
    "peer_view ?r (h t2) = (peer_view ?r (h t1))(p \<mapsto> the (peer_view ?r (h t1) p) @ [m])"
    by (rule append_message_view [OF L(1) 1(4,2,3)])
  show thesis
    by (rule that [of "tx_commit A t2"])
      (use 1 2 beg com in \<open>simp_all add: transact_def io_bind_def\<close>)
qed

lemma list_key_cases: "starts_with k LIST_PREFIX \<longleftrightarrow> (\<exists>p. k = peer_list_key p)"
  by (simp add: starts_with_iff peer_list_key_def)

lemma collect_peer_lists_chat:
  assumes "\<And>k. am_get A d (am_root A) k = Ok (f k)" "set ks \<subseteq> dom f"
  shows "collect_peer_lists A d ks acc =
    Ok (acc @ map (\<lambda>k. MessageListId (snd (the (f k)))) (filter (\<lambda>k. starts_with k LIST_PREFIX) ks))"
  using assms(2)
proof (induction ks arbitrary: acc)
  case (Cons k ks)
  then obtain v i where "f k = Some (v, i)" by auto
  with Cons show ?case by (simp add: assms(1))
qed simp

text \<open>The peers that have a list, in the order of the document's keys.\<close>

definition doc_peers :: "('d, 't, 'o, 'h, 's, 'm, 'l) automerge \<Rightarrow> 'd \<Rightarrow> string list" where
  "doc_peers A d =
     map (drop (length LIST_PREFIX))
       (filter (\<lambda>k. starts_with k LIST_PREFIX) (am_keys A d (am_root A)))"

lemma map_doc_peers:
  "map (F \<circ> peer_list_key) (doc_peers A d) =
     map F (filter (\<lambda>k. starts_with k LIST_PREFIX) (am_keys A d (am_root A)))"
  by (auto simp: doc_peers_def list_key_cases peer_list_key_def)

lemma get_all_peer_lists_view:
  assumes L: "doc_laws A h g" and C: "chat_objects (am_root A) (g d)"
  obtains lists where "get_all_peer_lists A d = Ok lists"
    "map (\<lambda>l. map (\<lambda>i. am_hydrate_prop A d (list_inner l) i) [0..<list_len A d l]) lists =
       map (\<lambda>p. map Ok (the (peer_view (am_root A) (g d) p))) (doc_peers A d)"
    "distinct (doc_peers A d)" "set (doc_peers A d) = dom (peer_view (am_root A) (g d))"
proof -
  let ?r = "am_root A"
  obtain f where root: "g d ?r = Some (MapNode f)" using C by (rule chat_objects_root)
  have keys: "distinct (am_keys A d ?r)" "set (am_keys A d ?r) = dom f"
    and get: "\<And>k. am_get A d ?r k = Ok (f k)"
    using L root by (auto simp: doc_laws_def)
  let ?lists = "map (\<lambda>p. MessageListId (snd (the (f (peer_list_key p))))) (doc_peers A d)"
  have "get_all_peer_lists A d = Ok ?lists"
    using collect_peer_lists_chat [of A d f _ "[]", OF get] keys(2)
      map_doc_peers [of "\<lambda>k. MessageListId (snd (the (f k)))" A d]
    by (simp add: get_all_peer_lists_def comp_def)
  moreover have peers: "set (doc_peers A d) = dom (peer_view ?r (g d))"
    using keys(2) by (auto simp: doc_peers_def peer_view_def root list_key_cases image_iff
        peer_list_key_def) (metis append_eq_conv_conj domI)
  moreover have "distinct (doc_peers A d)"
    using keys(1) by (auto simp: doc_peers_def distinct_map inj_on_def list_key_cases peer_list_key_def)
  moreover have "map (\<lambda>i. am_hydrate_prop A d (snd (the (f (peer_list_key p)))) i)
      [0..<am_length A d (snd (the (f (peer_list_key p))))] = map Ok (the (peer_view ?r (g d) p))"
    if mem: "p \<in> set (doc_peers A d)" for p
  proof -
    obtain v i where p: "f (peer_list_key p) = Some (v, i)"
      using mem peers by (fastforce simp: domIff peer_view_def root)
    obtain xs where xs: "g d i = Some (ListNode xs)"
      "\<forall>x\<in>set xs. read_message_object (g d) (snd x) \<noteq> None"
      using chat_objects_list [OF C root p] by blast
    have "am_length A d i = length xs" using L xs(1) by (simp add: doc_laws_def)
    moreover have "am_hydrate_prop A d i j = Ok (the (read_message_object (g d) (snd (xs ! j))))"
      if "j < length xs" for j
      using L xs that unfolding doc_laws_def by (metis nth_mem option.exhaust_sel)
    ultimately show ?thesis
      using p xs(1) by (auto intro!: nth_equalityI simp: peer_view_def root)
  qed
  ultimately show thesis
    by (intro that [of ?lists]) (auto simp: list_len_def)
qed

section \<open>A document library that satisfies the laws\<close>

text \<open>
  A document as the list of its objects, newest version first. It shows that the laws above can
  hold, and the examples below run on it. It stores nothing and does not synchronise.
\<close>

datatype ref_node = RefMap "(string \<times> am_value \<times> nat) list" | RefList "(am_value \<times> nat) list"

type_synonym ref_doc = "(nat \<times> ref_node) list"

fun ref_node_of :: "ref_node \<Rightarrow> nat node" where
  "ref_node_of (RefMap al) = MapNode (map_of al)"
| "ref_node_of (RefList xs) = ListNode xs"

fun ref_new_node :: "obj_type \<Rightarrow> ref_node" where
  "ref_new_node ObjMap = RefMap []"
| "ref_new_node ObjList = RefList []"

definition ref_objects :: "ref_doc \<Rightarrow> nat objects" where
  "ref_objects d i = map_option ref_node_of (map_of d i)"

definition ref_fresh :: "ref_doc \<Rightarrow> nat" where
  "ref_fresh d = Suc (foldr max (map fst d) 0)"

definition ref_put_object :: "nat \<Rightarrow> string \<Rightarrow> obj_type \<Rightarrow> (ref_doc, nat, string) io" where
  "ref_put_object i k ty d =
     (case map_of d i of
        Some (RefMap al) \<Rightarrow>
          (Ok (ref_fresh d), (ref_fresh d, ref_new_node ty)
             # (i, RefMap ((k, Object ty, ref_fresh d) # al)) # d)
      | _ \<Rightarrow> (Err ''not a map'', d))"

definition ref_insert_object :: "nat \<Rightarrow> nat \<Rightarrow> obj_type \<Rightarrow> (ref_doc, nat, string) io" where
  "ref_insert_object i j ty d =
     (case map_of d i of
        Some (RefList xs) \<Rightarrow>
          (Ok (ref_fresh d), (ref_fresh d, ref_new_node ty)
             # (i, RefList (take j xs @ (Object ty, ref_fresh d) # drop j xs)) # d)
      | _ \<Rightarrow> (Err ''not a list'', d))"

definition ref_put :: "nat \<Rightarrow> string \<Rightarrow> scalar \<Rightarrow> (ref_doc, unit, string) io" where
  "ref_put i k v d =
     (case map_of d i of
        Some (RefMap al) \<Rightarrow> (Ok (), (i, RefMap ((k, Scalar v, 0) # al)) # d)
      | _ \<Rightarrow> (Err ''not a map'', d))"

fun ref_keys :: "ref_doc \<Rightarrow> nat \<Rightarrow> string list" where
  "ref_keys d i = (case map_of d i of Some (RefMap al) \<Rightarrow> remdups (map fst al) | _ \<Rightarrow> [])"

fun ref_length :: "ref_doc \<Rightarrow> nat \<Rightarrow> nat" where
  "ref_length d i = length (list_entries (ref_objects d i))"

fun ref_hydrate :: "ref_doc \<Rightarrow> nat \<Rightarrow> nat \<Rightarrow> (chat_message, string) result" where
  "ref_hydrate d i j =
     (case list_entries (ref_objects d i) of xs \<Rightarrow>
        if j < length xs
        then (case read_message_object (ref_objects d) (snd (xs ! j)) of
                Some m \<Rightarrow> Ok m | None \<Rightarrow> Err ''not a message'')
        else Err ''out of range'')"

definition ref_am :: "(ref_doc, ref_doc, nat, unit, unit, unit, unit) automerge" where
  "ref_am =
     \<lparr>am_root = 0, am_new = [(0, RefMap [])],
      am_load = (\<lambda>_. Err ''unsupported''), am_save = (\<lambda>_. []), am_save_after = (\<lambda>_ _. []),
      am_load_incremental = (\<lambda>_ _. Err ''unsupported''), am_get_heads = (\<lambda>_. []),
      am_keys = ref_keys, am_get = (\<lambda>d i k. Ok (map_entries (ref_objects d i) k)),
      am_length = ref_length, am_hydrate_prop = ref_hydrate,
      tx_begin = (\<lambda>d. d), tx_commit = (\<lambda>t. t),
      tx_get = (\<lambda>d i k. Ok (map_entries (ref_objects d i) k)), tx_length = ref_length,
      tx_put_object = ref_put_object, tx_insert_object = ref_insert_object, tx_put = ref_put,
      tx_reconcile_init = (\<lambda>c. ref_put 0 ''chat_id'' (ScalarStr c)),
      am_sync_new = (), am_receive_sync = (\<lambda>d s m. (Ok (), d, s, ())),
      am_make_patches = (\<lambda>_ _. []), am_generate_sync = (\<lambda>d s. (None, s))\<rparr>"

lemma foldr_max_ge: "x \<in> set xs \<Longrightarrow> x \<le> foldr max xs (0::nat)"
  by (induction xs) auto

lemma ref_fresh_None [simp]: "map_of d (ref_fresh d) = None"
proof -
  have "ref_fresh d \<notin> fst ` set d"
    using foldr_max_ge [of "ref_fresh d" "map fst d"] by (auto simp: ref_fresh_def)
  then show ?thesis by (simp add: map_of_eq_None_iff)
qed

lemma ref_node_of_iff [simp]:
  "ref_node_of x = MapNode f \<longleftrightarrow> (\<exists>al. x = RefMap al \<and> f = map_of al)"
  "ref_node_of x = ListNode xs \<longleftrightarrow> x = RefList xs"
  by (cases x; auto)+

lemma ref_new_node_of [simp]: "ref_node_of (ref_new_node ty) = new_node ty"
  by (cases ty) auto

lemma ref_objects_Cons [simp]: "ref_objects ((i, x) # d) = (ref_objects d)(i \<mapsto> ref_node_of x)"
  by (auto simp: ref_objects_def)

lemma ref_objects_iff [simp]:
  "ref_objects d i = Some (MapNode f) \<longleftrightarrow> (\<exists>al. map_of d i = Some (RefMap al) \<and> f = map_of al)"
  "ref_objects d i = Some (ListNode xs) \<longleftrightarrow> map_of d i = Some (RefList xs)"
  by (auto simp: ref_objects_def)

lemma ref_objects_fresh [simp]: "ref_objects d (ref_fresh d) = None"
  by (simp add: ref_objects_def)

lemma ref_am_tx_laws: "tx_laws ref_am ref_objects"
  unfolding tx_laws_def ref_am_def
  by (auto simp: ref_put_object_def ref_insert_object_def ref_put_def ref_objects_def
      simp flip: fun_upd_def intro!: ext)

lemma set_ref_keys: "fst ` set al = dom (map_of al)"
  by (simp add: dom_map_of_conv_image_fst)

lemma ref_am_doc_laws: "doc_laws ref_am ref_objects ref_objects"
  unfolding doc_laws_def ref_am_def
  by (auto simp: ref_objects_def set_ref_keys simp del: set_map) (auto simp: set_ref_keys)

text \<open>
  C20: A message that is stored is the last of its sender's messages, the messages of every other
  peer stay as they were, and reading the lists of the document gives exactly these messages.
\<close>

theorem stored_message_is_read:
  assumes "tx_laws A h" "doc_laws A h g" "chat_objects (am_root A) (g d)"
  shows "\<exists>d' lists.
    transact A (io_bind (ensure_peer_list A me) (\<lambda>l. append_message A l m)) d = (Ok (), d') \<and>
    chat_objects (am_root A) (g d') \<and>
    peer_view (am_root A) (g d') = (peer_view (am_root A) (g d))
      (me \<mapsto> case_option [] id (peer_view (am_root A) (g d) me) @ [m]) \<and>
    get_all_peer_lists A d' = Ok lists \<and>
    map (\<lambda>l. map (am_hydrate_prop A d' (list_inner l)) [0..<list_len A d' l]) lists =
      map (\<lambda>p. map Ok (the (peer_view (am_root A) (g d') p))) (doc_peers A d') \<and>
    set (doc_peers A d') = insert me (set (doc_peers A d))"
proof -
  obtain d' where d': "transact A (io_bind (ensure_peer_list A me) (\<lambda>l. append_message A l m)) d
      = (Ok (), d')" "chat_objects (am_root A) (g d')"
    "peer_view (am_root A) (g d') = (peer_view (am_root A) (g d))
      (me \<mapsto> case_option [] id (peer_view (am_root A) (g d) me) @ [m])"
    by (rule store_message_view [OF assms])
  show ?thesis
    by (rule get_all_peer_lists_view [OF assms(2) d'(2)], rule get_all_peer_lists_view [OF assms(2,3)])
      (use d' in \<open>auto simp: dom_def\<close>)
qed

theorem stored_message_is_read_witness:
  "\<exists>d' lists. transact ref_am (io_bind (ensure_peer_list ref_am ''a'') (\<lambda>l. append_message ref_am l
      \<lparr>msg_id = ''x'', sender_node_id = ''a'', content = Text ''hi'', created_at = 7, updated_at = 7\<rparr>))
      (am_new ref_am) = (Ok (), d') \<and>
    get_all_peer_lists ref_am d' = Ok lists \<and>
    peer_view 0 (ref_objects d') ''a'' =
      Some [\<lparr>msg_id = ''x'', sender_node_id = ''a'', content = Text ''hi'', created_at = 7,
             updated_at = 7\<rparr>]"
proof -
  have root: "am_root ref_am = 0" and new: "am_new ref_am = [(0, RefMap [])]"
    by (simp_all add: ref_am_def)
  have c: "chat_objects (am_root ref_am) (ref_objects (am_new ref_am))"
    by (rule chat_objectsI [where f = Map.empty]) (simp_all add: root new)
  have "peer_view 0 (ref_objects [(0, RefMap [])]) ''a'' = None"
    by (simp add: peer_view_def)
  then show ?thesis
    using stored_message_is_read [OF ref_am_tx_laws ref_am_doc_laws c, of "''a''"
      "\<lparr>msg_id = ''x'', sender_node_id = ''a'', content = Text ''hi'', created_at = 7, updated_at = 7\<rparr>"]
    by (auto simp: root new simp del: ref_objects_Cons)
qed

end
