(* ===== verification/Persistence.thy ===== *)
theory Persistence
  imports Schema "HOL-Library.List_Lexorder" "HOL-Library.Char_ord" "HOL-Library.Product_Lexorder"
    "HOL-Library.Multiset"
begin

text \<open>
  The chat repository (\<^verbatim>\<open>src/persistence.rs\<close>): the document of one chat, what of it is
  stored in the database, and its synchronisation with the peer. The tables are those of
  \<^verbatim>\<open>migrations/20250414093115_setup.sql\<close>. Endpoint ids are a type with a linear order; how they
  print and parse, the document library, the clock and the generator of identifiers are
  parameters.
\<close>

section \<open>Identifiers\<close>

record 'id chat_id =
  my_id :: 'id
  chat_remote_id :: 'id

text \<open>\<^verbatim>\<open>Display\<close>: both ids in order, joined by an underscore.\<close>

definition chat_id_display :: "('id::linorder \<Rightarrow> string) \<Rightarrow> 'id chat_id \<Rightarrow> string" where
  "chat_id_display show_id c =
     (let nodes = sort [my_id c, chat_remote_id c]
      in show_id (nodes ! 0) @ ''_'' @ show_id (nodes ! 1))"

section \<open>The database\<close>

record log_row =
  row_id :: nat
  row_chat_id :: string
  row_data :: bytes

record db =
  chats :: "(string \<times> bytes) list"
  chat_log :: "log_row list"
  log_sequence :: nat

text \<open>
  The statements of the repository. \<^verbatim>\<open>chat_id\<close> is the primary key of \<^verbatim>\<open>chats\<close> and a foreign
  key of \<^verbatim>\<open>chat_log\<close>; the ids of \<^verbatim>\<open>chat_log\<close> are handed out in increasing order and never
  again.
\<close>

definition select_document :: "string \<Rightarrow> db \<Rightarrow> (bytes option, lib_error) result \<times> db" where
  "select_document cid d = (Ok (map_of (chats d) cid), d)"

definition select_log :: "string \<Rightarrow> db \<Rightarrow> (log_row list, lib_error) result \<times> db" where
  "select_log cid d = (Ok (sort_key row_id (filter (\<lambda>r. row_chat_id r = cid) (chat_log d))), d)"

definition insert_log :: "string \<Rightarrow> bytes \<Rightarrow> db \<Rightarrow> (unit, lib_error) result \<times> db" where
  "insert_log cid bs d =
     (if cid \<in> fst ` set (chats d)
      then (Ok (), d\<lparr>chat_log := chat_log d @
                       [\<lparr>row_id = Suc (log_sequence d), row_chat_id = cid, row_data = bs\<rparr>],
                     log_sequence := Suc (log_sequence d)\<rparr>)
      else (Err (Sqlx ''FOREIGN KEY constraint failed''), d))"

definition insert_or_ignore_chat :: "string \<Rightarrow> bytes \<Rightarrow> db \<Rightarrow> (nat, lib_error) result \<times> db" where
  "insert_or_ignore_chat cid bs d =
     (if cid \<in> fst ` set (chats d) then (Ok 0, d)
      else (Ok 1, d\<lparr>chats := chats d @ [(cid, bs)]\<rparr>))"

definition update_document :: "string \<Rightarrow> bytes \<Rightarrow> db \<Rightarrow> (unit, lib_error) result \<times> db" where
  "update_document cid bs d =
     (Ok (), d\<lparr>chats := map (\<lambda>(c, b). if c = cid then (c, bs) else (c, b)) (chats d)\<rparr>)"

definition delete_log_upto :: "string \<Rightarrow> nat \<Rightarrow> db \<Rightarrow> (unit, lib_error) result \<times> db" where
  "delete_log_upto cid n d =
     (Ok (), d\<lparr>chat_log := filter (\<lambda>r. \<not> (row_chat_id r = cid \<and> row_id r \<le> n)) (chat_log d)\<rparr>)"

definition select_chat_ids :: "db \<Rightarrow> (string list, lib_error) result \<times> db" where
  "select_chat_ids d = (Ok (map fst (chats d)), d)"

text \<open>
  The pool: what the rest of the process writes before the \<open>n\<close>-th statement (the statements above
  are all that the program ever executes on these tables), and whether the statement fails. A
  failed statement changes nothing.
\<close>

datatype db_write =
    WriteLog string bytes
  | WriteChat string bytes
  | WriteDocument string bytes
  | WriteDelete string nat

fun apply_write :: "db_write \<Rightarrow> db \<Rightarrow> db" where
  "apply_write (WriteLog cid bs) d = snd (insert_log cid bs d)"
| "apply_write (WriteChat cid bs) d = snd (insert_or_ignore_chat cid bs d)"
| "apply_write (WriteDocument cid bs) d = snd (update_document cid bs d)"
| "apply_write (WriteDelete cid n) d = snd (delete_log_upto cid n d)"

record sql_env =
  fault :: "nat \<Rightarrow> string option"
  others :: "nat \<Rightarrow> db_write list"

record pool =
  pool_db :: db
  pool_tick :: nat

definition exec ::
  "sql_env \<Rightarrow> (db \<Rightarrow> ('a, lib_error) result \<times> db) \<Rightarrow> (pool, 'a, lib_error) io" where
  "exec env stmt p =
     (let d = fold apply_write (others env (pool_tick p)) (pool_db p) in
      case fault env (pool_tick p) of
        Some e \<Rightarrow> (Err (Sqlx e), \<lparr>pool_db = d, pool_tick = Suc (pool_tick p)\<rparr>)
      | None \<Rightarrow> (case stmt d of (r, d') \<Rightarrow> (r, \<lparr>pool_db = d', pool_tick = Suc (pool_tick p)\<rparr>)))"

text \<open>
  A transaction of two writes: the first write takes the lock, so nothing interferes between the
  two, and unless begin, both writes and commit succeed the database is left as it was.
\<close>

definition exec_both ::
  "sql_env \<Rightarrow> (db \<Rightarrow> (unit, lib_error) result \<times> db) \<Rightarrow> (db \<Rightarrow> (unit, lib_error) result \<times> db)
     \<Rightarrow> (pool, unit, lib_error) io" where
  "exec_both env stmt1 stmt2 p =
     (let n = pool_tick p; d = fold apply_write (others env n) (pool_db p) in
      case (fault env n, fault env (n + 1), fault env (n + 2), fault env (n + 3)) of
        (Some e, _) \<Rightarrow> (Err (Sqlx e), \<lparr>pool_db = d, pool_tick = n + 1\<rparr>)
      | (None, Some e, _) \<Rightarrow> (Err (Sqlx e), \<lparr>pool_db = d, pool_tick = n + 2\<rparr>)
      | (None, None, Some e, _) \<Rightarrow> (Err (Sqlx e), \<lparr>pool_db = d, pool_tick = n + 3\<rparr>)
      | (None, None, None, Some e) \<Rightarrow> (Err (Sqlx e), \<lparr>pool_db = d, pool_tick = n + 4\<rparr>)
      | (None, None, None, None) \<Rightarrow>
          (Ok (), \<lparr>pool_db = snd (stmt2 (snd (stmt1 d))), pool_tick = n + 4\<rparr>))"

section \<open>Loading a chat\<close>

definition CHAT_LOGS_LIMIT :: nat where
  "CHAT_LOGS_LIMIT = 512"

definition compact ::
  "('d, 't, 'o, 'h, 's, 'm, 'l) automerge \<Rightarrow> sql_env \<Rightarrow> string \<Rightarrow> 'd \<Rightarrow> log_row list
     \<Rightarrow> (pool, unit, lib_error) io" where
  "compact A env cid d rows =
     (if length rows > CHAT_LOGS_LIMIT
      then let new_snapshot = am_save A d;
               max_log_id = (if rows = [] then 0 else row_id (last rows))
           in exec_both env (update_document cid new_snapshot) (delete_log_upto cid max_log_id)
      else io_return ())"

definition load_snapshot ::
  "('d, 't, 'o, 'h, 's, 'm, 'l) automerge \<Rightarrow> sql_env \<Rightarrow> string \<Rightarrow> bytes
     \<Rightarrow> (pool, 'd \<times> 'h list, lib_error) io" where
  "load_snapshot A env cid document =
     io_bind (io_lift (map_err Automerge (am_load A document))) (\<lambda>d.
     io_bind (exec env (select_log cid)) (\<lambda>rows.
     io_bind
       (if rows \<noteq> []
        then io_bind (io_lift (map_err Automerge
                 (am_load_incremental A d (concat (map row_data rows))))) (\<lambda>d'.
             io_bind (compact A env cid d' rows) (\<lambda>_. io_return d'))
        else io_return d)
       (\<lambda>d. io_return (d, am_get_heads A d))))"

text \<open>
  A chat without a row: the initial document is inserted, unless somebody else was faster; then
  the result is \<open>None\<close> and the loop goes round again.
\<close>

definition create_snapshot ::
  "('d, 't, 'o, 'h, 's, 'm, 'l) automerge \<Rightarrow> sql_env \<Rightarrow> string
     \<Rightarrow> (pool, ('d \<times> 'h list) option, lib_error) io" where
  "create_snapshot A env cid =
     (case transact A (io_map_err Automerge (tx_reconcile_init A cid)) (am_new A) of
        (Err e, _) \<Rightarrow> io_lift (Err (Unexpected (lib_error_display e)))
      | (Ok _, d) \<Rightarrow>
          io_bind (exec env (insert_or_ignore_chat cid (am_save A d))) (\<lambda>rows_affected.
            if rows_affected > 0 then io_return (Some (d, am_get_heads A d))
            else io_return None))"

text \<open>
  The loop, with a bound on the number of turns; \<open>None\<close> is a loop that has not ended within the
  bound.
\<close>

fun load_loop ::
  "('d, 't, 'o, 'h, 's, 'm, 'l) automerge \<Rightarrow> sql_env \<Rightarrow> string \<Rightarrow> nat
     \<Rightarrow> (pool, ('d \<times> 'h list) option, lib_error) io" where
  "load_loop A env cid 0 = io_return None"
| "load_loop A env cid (Suc n) =
     io_bind (exec env (select_document cid)) (\<lambda>snapshot_row.
       case snapshot_row of
         Some document \<Rightarrow> io_bind (load_snapshot A env cid document) (\<lambda>r. io_return (Some r))
       | None \<Rightarrow> io_bind (create_snapshot A env cid) (\<lambda>made.
           case made of
             Some r \<Rightarrow> io_return (Some r)
           | None \<Rightarrow> load_loop A env cid n))"

text \<open>
  No statement of the program removes a row of \<^verbatim>\<open>chats\<close>, so a second turn always finds the
  row that made the first one lose the race: two turns are enough (\<open>load_loop_ends\<close> below), and the
  branch for a third one is never taken.
\<close>

definition get_persisted_doc_state ::
  "('d, 't, 'o, 'h, 's, 'm, 'l) automerge \<Rightarrow> sql_env \<Rightarrow> ('id::linorder \<Rightarrow> string) \<Rightarrow> 'id chat_id
     \<Rightarrow> (pool, 'd \<times> 'h list, lib_error) io" where
  "get_persisted_doc_state A env show_id c =
     io_bind (load_loop A env (chat_id_display show_id c) 2) (\<lambda>r.
       case r of
         Some x \<Rightarrow> io_return x
       | None \<Rightarrow> io_lift (Err (Unexpected ''third turn'')))"

section \<open>The repository\<close>

record ('id, 'd, 'h, 's) chat_repository =
  repo_chat_id :: "'id chat_id"
  doc :: 'd
  sync_state :: 's
  last_saved_heads :: "'h list"
  sync_status_tx :: "bool watch"

definition new_repository ::
  "('d, 't, 'o, 'h, 's, 'm, 'l) automerge \<Rightarrow> sql_env \<Rightarrow> ('id::linorder \<Rightarrow> string) \<Rightarrow> 'id chat_id
     \<Rightarrow> (pool, ('id, 'd, 'h, 's) chat_repository, lib_error) io" where
  "new_repository A env show_id c =
     io_bind (get_persisted_doc_state A env show_id c) (\<lambda>(d, heads). io_return
       \<lparr>repo_chat_id = c, doc = d, sync_state = am_sync_new A, last_saved_heads = heads,
        sync_status_tx = watch_channel False\<rparr>)"

definition subscribe_to_sync_status :: "('id, 'd, 'h, 's) chat_repository \<Rightarrow> bool watch" where
  "subscribe_to_sync_status r = sync_status_tx r"

text \<open>Operations of a repository change it and the pool: the state is the pair of both.\<close>

definition persist_chat ::
  "('d, 't, 'o, 'h, 's, 'm, 'l) automerge \<Rightarrow> sql_env \<Rightarrow> ('id::linorder \<Rightarrow> string)
     \<Rightarrow> (('id, 'd, 'h, 's) chat_repository \<times> pool, unit, lib_error) io" where
  "persist_chat A env show_id = (\<lambda>(r, p).
     let cid = chat_id_display show_id (repo_chat_id r);
         new_changes = am_save_after A (doc r) (last_saved_heads r)
     in if new_changes \<noteq> []
        then (case exec env (insert_log cid new_changes) p of
                (Ok _, p') \<Rightarrow> (Ok (), (r\<lparr>last_saved_heads := am_get_heads A (doc r)\<rparr>, p'))
              | (Err e, p') \<Rightarrow> (Err e, (r, p')))
        else (Ok (), (r, p)))"

definition generate_sync_message ::
  "('d, 't, 'o, 'h, 's, 'm, 'l) automerge \<Rightarrow> ('id, 'd, 'h, 's) chat_repository
     \<Rightarrow> 'm option \<times> ('id, 'd, 'h, 's) chat_repository" where
  "generate_sync_message A r =
     (case am_generate_sync A (doc r) (sync_state r) of
        (message, s) \<Rightarrow>
          (message, r\<lparr>sync_state := s,
                      sync_status_tx := send_if_modified (message = None) (sync_status_tx r)\<rparr>))"

definition hydrate_message_at_index ::
  "('d, 't, 'o, 'h, 's, 'm, 'l) automerge \<Rightarrow> ('id, 'd, 'h, 's) chat_repository \<Rightarrow> 'o \<Rightarrow> nat
     \<Rightarrow> (chat_message, lib_error) result" where
  "hydrate_message_at_index A r l i = map_err Automerge (am_hydrate_prop A (doc r) l i)"

text \<open>
  \<^verbatim>\<open>add_message\<close> at the time \<open>now\<close> with the fresh identifier \<open>new_id\<close>.
\<close>

definition add_message ::
  "('d, 't, 'o, 'h, 's, 'm, 'l) automerge \<Rightarrow> sql_env \<Rightarrow> ('id::linorder \<Rightarrow> string) \<Rightarrow> i64 \<Rightarrow> string
     \<Rightarrow> chat_message_content
     \<Rightarrow> (('id, 'd, 'h, 's) chat_repository \<times> pool, chat_message \<times> 'm option, lib_error) io" where
  "add_message A env show_id now new_id msg = (\<lambda>(r, p).
     let my_peer_id = show_id (my_id (repo_chat_id r));
         new_msg = \<lparr>msg_id = new_id, sender_node_id = my_peer_id, content = msg,
                    created_at = now, updated_at = now\<rparr>
     in case transact A
               (io_bind (ensure_peer_list A my_peer_id) (\<lambda>l. append_message A l new_msg)) (doc r) of
          (Err e, d) \<Rightarrow> (Err e, (r\<lparr>doc := d\<rparr>, p))
        | (Ok _, d) \<Rightarrow>
            (case persist_chat A env show_id (r\<lparr>doc := d\<rparr>, p) of
               (Err e, s) \<Rightarrow> (Err e, s)
             | (Ok _, (r', p')) \<Rightarrow>
                 (case generate_sync_message A r' of
                    (sync_msg, r'') \<Rightarrow> (Ok (new_msg, sync_msg), (r'', p')))))"

definition fetch_list ::
  "('d, 't, 'o, 'h, 's, 'm, 'l) automerge \<Rightarrow> ('id, 'd, 'h, 's) chat_repository \<Rightarrow> nat
     \<Rightarrow> 'o message_list_id \<Rightarrow> (chat_message list, lib_error) result" where
  "fetch_list A r fetch_depth l =
     (let len = list_len A (doc r) l in
      if len = 0 then Ok []
      else let start = len - fetch_depth in
        collect_results (map (hydrate_message_at_index A r (list_inner l)) [start..<len]))"

definition message_key :: "chat_message \<Rightarrow> int \<times> string" where
  "message_key m = (sint (created_at m), msg_id m)"

definition page :: "nat \<Rightarrow> nat \<Rightarrow> 'a list \<Rightarrow> 'a list" where
  "page offset limit candidates =
     (let total = length candidates; end = total - offset; start = end - limit
      in if start \<ge> end then [] else take (end - start) (drop start candidates))"

definition get_messages ::
  "build \<Rightarrow> ('d, 't, 'o, 'h, 's, 'm, 'l) automerge \<Rightarrow> ('id, 'd, 'h, 's) chat_repository \<Rightarrow> nat \<Rightarrow> nat
     \<Rightarrow> (chat_message list, lib_error) result may_panic" where
  "get_messages b A r offset limit =
     (case get_all_peer_lists A (doc r) of
        Err e \<Rightarrow> Return (Err e)
      | Ok msg_lists \<Rightarrow>
          (case usize_add b offset limit of
             Panicked \<Rightarrow> Panicked
           | Return fetch_depth \<Rightarrow>
               Return (and_then (collect_results (map (fetch_list A r fetch_depth) msg_lists))
                 (\<lambda>chunks. Ok (page offset limit (sort_key message_key (concat chunks)))))))"

definition get_all_messages ::
  "build \<Rightarrow> ('d, 't, 'o, 'h, 's, 'm, 'l) automerge \<Rightarrow> ('id, 'd, 'h, 's) chat_repository
     \<Rightarrow> (chat_message list, lib_error) result may_panic" where
  "get_all_messages b A r = get_messages b A r 0 (usize_max - 1)"

fun patch_message ::
  "('d, 't, 'o, 'h, 's, 'm, 'l) automerge \<Rightarrow> ('id, 'd, 'h, 's) chat_repository \<Rightarrow> ('o \<times> am_prop) list
     \<Rightarrow> (chat_message list, lib_error) result" where
  "patch_message A r ((_, PropMap key) # (_, PropSeq index) # _) =
     (if starts_with key LIST_PREFIX
      then (case strip_prefix LIST_PREFIX key of
              None \<Rightarrow> Err (Unexpected ''Internal logic error: expected prefix missing'')
            | Some peer_id_suffix \<Rightarrow>
                and_then (get_peer_list A (doc r) peer_id_suffix) (\<lambda>found.
                  case found of
                    Some l \<Rightarrow>
                      map_ok (\<lambda>m. [m]) (hydrate_message_at_index A r (list_inner l) index)
                  | None \<Rightarrow> Ok []))
      else Ok [])"
| "patch_message A r _ = Ok []"

definition extract_new_messages_from_patches ::
  "('d, 't, 'o, 'h, 's, 'm, 'l) automerge \<Rightarrow> ('id, 'd, 'h, 's) chat_repository \<Rightarrow> 'o patch list
     \<Rightarrow> (chat_message list, lib_error) result" where
  "extract_new_messages_from_patches A r patches =
     map_ok (\<lambda>ms. sort_key (\<lambda>m. sint (created_at m)) (concat ms))
       (collect_results (map (\<lambda>pt. patch_message A r (patch_path pt)) patches))"

definition receive_changes ::
  "('d, 't, 'o, 'h, 's, 'm, 'l) automerge \<Rightarrow> sql_env \<Rightarrow> ('id::linorder \<Rightarrow> string) \<Rightarrow> 'm option
     \<Rightarrow> (('id, 'd, 'h, 's) chat_repository \<times> pool, chat_message list, lib_error) io" where
  "receive_changes A env show_id in_sync_msg =
     (case in_sync_msg of
        None \<Rightarrow> io_return []
      | Some m \<Rightarrow>
          (\<lambda>(r, p). case am_receive_sync A (doc r) (sync_state r) m of
             (Err e, d, s, log) \<Rightarrow> (Err (Automerge e), (r\<lparr>doc := d, sync_state := s\<rparr>, p))
           | (Ok _, d, s, log) \<Rightarrow>
               io_bind (persist_chat A env show_id) (\<lambda>_ (r, p).
                 (extract_new_messages_from_patches A r (am_make_patches A (doc r) log), (r, p)))
                 (r\<lparr>doc := d, sync_state := s\<rparr>, p)))"

definition receive_sync_message ::
  "('d, 't, 'o, 'h, 's, 'm, 'l) automerge \<Rightarrow> sql_env \<Rightarrow> ('id::linorder \<Rightarrow> string) \<Rightarrow> 'm option
     \<Rightarrow> (('id, 'd, 'h, 's) chat_repository \<times> pool, chat_message list \<times> 'm option option, lib_error) io"
where
  "receive_sync_message A env show_id in_sync_msg =
     io_bind (receive_changes A env show_id in_sync_msg) (\<lambda>new_messages (r, p).
       case generate_sync_message A r of
         (out_sync_msg, r') \<Rightarrow>
           (Ok (new_messages,
                if in_sync_msg = None \<and> out_sync_msg = None then None else Some out_sync_msg),
            (r', p)))"

definition reset_sync_state ::
  "('d, 't, 'o, 'h, 's, 'm, 'l) automerge \<Rightarrow> ('id, 'd, 'h, 's) chat_repository
     \<Rightarrow> ('id, 'd, 'h, 's) chat_repository" where
  "reset_sync_state A r = r\<lparr>sync_state := am_sync_new A\<rparr>"

definition reset_doc_state_to_persisted ::
  "('d, 't, 'o, 'h, 's, 'm, 'l) automerge \<Rightarrow> sql_env \<Rightarrow> ('id::linorder \<Rightarrow> string)
     \<Rightarrow> (('id, 'd, 'h, 's) chat_repository \<times> pool, unit, lib_error) io" where
  "reset_doc_state_to_persisted A env show_id = (\<lambda>(r, p).
     case get_persisted_doc_state A env show_id (repo_chat_id r) p of
       (Err e, p') \<Rightarrow> (Err e, (r, p'))
     | (Ok (d, heads), p') \<Rightarrow>
         (Ok (), (reset_sync_state A (r\<lparr>doc := d, last_saved_heads := heads\<rparr>), p')))"

section \<open>The peers of all chats\<close>

text \<open>
  The other end of a stored chat id, seen from \<open>my_id\<close>: \<open>None\<close> when the id is skipped with a
  warning. \<open>parse_id\<close> is \<^verbatim>\<open>EndpointId::from_str\<close>.
\<close>

definition remote_of :: "string \<Rightarrow> string \<Rightarrow> string option" where
  "remote_of my_id_str cid =
     (case split_once CHR ''_'' cid of
        Some (first, second) \<Rightarrow>
          (case (first = my_id_str, second = my_id_str) of
             (True, False) \<Rightarrow> Some second
           | (False, True) \<Rightarrow> Some first
           | (True, True) \<Rightarrow> None
           | (False, False) \<Rightarrow> None)
      | None \<Rightarrow> None)"

fun collect_peers ::
  "(string \<Rightarrow> 'id option) \<Rightarrow> string \<Rightarrow> string list \<Rightarrow> 'id list \<Rightarrow> ('id list, lib_error) result" where
  "collect_peers parse_id me [] peer_ids = Ok peer_ids"
| "collect_peers parse_id me (cid # cids) peer_ids =
     (case remote_of me cid of
        None \<Rightarrow> collect_peers parse_id me cids peer_ids
      | Some s \<Rightarrow>
          (case parse_id s of
             None \<Rightarrow> Err (Unexpected (''Expected to parse EndpointId from string. Value: '' @ s))
           | Some i \<Rightarrow> collect_peers parse_id me cids (peer_ids @ [i])))"

definition list_chats_remote_peers_ids ::
  "sql_env \<Rightarrow> ('id::linorder \<Rightarrow> string) \<Rightarrow> (string \<Rightarrow> 'id option) \<Rightarrow> 'id
     \<Rightarrow> (pool, 'id list, lib_error) io" where
  "list_chats_remote_peers_ids env show_id parse_id me =
     io_bind (exec env select_chat_ids) (\<lambda>chat_ids.
     io_bind (io_lift (collect_peers parse_id (show_id me) chat_ids [])) (\<lambda>peer_ids.
       io_return (remdups_adj (sort peer_ids))))"

section \<open>Chat ids\<close>

text \<open>What the repository relies on of the text of an endpoint id (it is lower-case hexadecimal).\<close>

definition id_laws :: "('id \<Rightarrow> string) \<Rightarrow> (string \<Rightarrow> 'id option) \<Rightarrow> bool" where
  "id_laws show_id parse_id \<longleftrightarrow>
     (\<forall>i. parse_id (show_id i) = Some i) \<and> (\<forall>i. CHR ''_'' \<notin> set (show_id i))"

lemma id_laws_inject: "id_laws show_id parse_id \<Longrightarrow> show_id i = show_id j \<longleftrightarrow> i = j"
  by (metis id_laws_def option.inject)

lemma chat_id_display_sorted:
  "chat_id_display show_id c =
     show_id (min (my_id c) (chat_remote_id c)) @ CHR ''_'' # show_id (max (my_id c) (chat_remote_id c))"
  by (auto simp: chat_id_display_def min_def max_def)

lemma split_chat_id:
  "id_laws show_id parse_id \<Longrightarrow> split_once CHR ''_'' (chat_id_display show_id c) =
     Some (show_id (min (my_id c) (chat_remote_id c)), show_id (max (my_id c) (chat_remote_id c)))"
  by (simp add: chat_id_display_sorted split_once_append id_laws_def)

text \<open>An endpoint id as a run of letters, for the examples.\<close>

definition sample_show :: "nat \<Rightarrow> string" where
  "sample_show n = replicate n CHR ''a''"

definition sample_parse :: "string \<Rightarrow> nat option" where
  "sample_parse s = (if set s \<subseteq> {CHR ''a''} then Some (length s) else None)"

lemma sample_id_laws: "id_laws sample_show sample_parse"
  by (auto simp: id_laws_def sample_show_def sample_parse_def)

text \<open>
  Both ends of a chat derive the same chat id, and two chats have the same id only when they
  are between the same two endpoints.
\<close>

lemma chat_id_identifies:
  assumes "id_laws show_id parse_id"
  shows "chat_id_display show_id c = chat_id_display show_id c' \<longleftrightarrow>
    {my_id c, chat_remote_id c} = {my_id c', chat_remote_id c'}"
proof -
  have "chat_id_display show_id c = chat_id_display show_id c' \<longleftrightarrow>
    min (my_id c) (chat_remote_id c) = min (my_id c') (chat_remote_id c') \<and>
    max (my_id c) (chat_remote_id c) = max (my_id c') (chat_remote_id c')"
    using split_chat_id [OF assms, of c] split_chat_id [OF assms, of c'] id_laws_inject [OF assms]
    by (metis chat_id_display_sorted option.inject prod.inject)
  then show ?thesis
    by (auto simp: min_def max_def doubleton_eq_iff split: if_splits)
qed

section \<open>The peers of all chats\<close>

text \<open>The other end of a chat between two endpoints one of which is \<open>me\<close>.\<close>

definition other_end :: "'id \<Rightarrow> 'id chat_id \<Rightarrow> 'id option" where
  "other_end me c =
     (if my_id c = me \<and> chat_remote_id c \<noteq> me then Some (chat_remote_id c)
      else if my_id c \<noteq> me \<and> chat_remote_id c = me then Some (my_id c) else None)"

lemma remote_of_display:
  assumes "id_laws show_id parse_id"
  shows "remote_of (show_id me) (chat_id_display show_id c) = map_option show_id (other_end me c)"
  using assms
  by (auto simp: remote_of_def split_chat_id id_laws_inject other_end_def min_def max_def)

lemma collect_peers_displays:
  assumes "id_laws show_id parse_id"
  shows "collect_peers parse_id (show_id me) (map (chat_id_display show_id) cs) acc =
    Ok (acc @ List.map_filter (other_end me) cs)"
  using assms
proof (induction cs arbitrary: acc)
  case (Cons c cs)
  then show ?case
    by (cases "other_end me c")
      (auto simp: remote_of_display map_filter_simps id_laws_def)
qed (simp add: map_filter_simps)

lemma set_map_filter_other_end:
  "set (List.map_filter (other_end me) cs) = {i. \<exists>c\<in>set cs. other_end me c = Some i}"
  by (auto simp: List.map_filter_def image_iff) force

lemma dedup_sorted: "sorted xs \<Longrightarrow> sorted_wrt (<) (remdups_adj (xs :: 'a::linorder list))"
  by (induction xs rule: remdups_adj.induct) (auto simp: less_le)

text \<open>
  C30: With the database answering, the peers listed for \<open>me\<close> are the other ends of the stored
  chats that \<open>me\<close> is one end of, each once and in increasing order; a chat with oneself and a chat
  between others are left out.
\<close>

theorem remote_peers_listed:
  assumes "id_laws show_id parse_id"
    and "map fst (chats (pool_db p)) = map (chat_id_display show_id) cs"
    and "fault env (pool_tick p) = None" "others env (pool_tick p) = []"
  shows "\<exists>ids p'. list_chats_remote_peers_ids env show_id parse_id me p = (Ok ids, p') \<and>
    sorted_wrt (<) ids \<and> set ids = {i. \<exists>c\<in>set cs. other_end me c = Some i} \<and>
    pool_db p' = pool_db p"
proof -
  have "exec env select_chat_ids p = (Ok (map (chat_id_display show_id) cs), p\<lparr>pool_tick := Suc (pool_tick p)\<rparr>)"
    using assms(2-4) by (cases p) (simp add: exec_def select_chat_ids_def)
  then show ?thesis
    using collect_peers_displays [OF assms(1), of me cs "[]"]
    by (auto simp: list_chats_remote_peers_ids_def io_bind_def set_map_filter_other_end dedup_sorted)
qed

theorem remote_peers_listed_witness:
  "\<exists>ids p'. list_chats_remote_peers_ids \<lparr>fault = \<lambda>_. None, others = \<lambda>_. []\<rparr> sample_show sample_parse 3
      \<lparr>pool_db = \<lparr>chats = [(chat_id_display sample_show \<lparr>my_id = 3, chat_remote_id = 5\<rparr>, [])],
        chat_log = [], log_sequence = 0\<rparr>, pool_tick = 0\<rparr> = (Ok ids, p') \<and>
    set ids = {5}"
proof -
  have "{i. \<exists>c\<in>set [\<lparr>my_id = 3, chat_remote_id = 5\<rparr>]. other_end 3 c = Some i} = {5::nat}"
    by (auto simp: other_end_def)
  then show ?thesis
    using remote_peers_listed [OF sample_id_laws, of
      "\<lparr>pool_db = \<lparr>chats = [(chat_id_display sample_show \<lparr>my_id = 3, chat_remote_id = 5\<rparr>, [])],
        chat_log = [], log_sequence = 0\<rparr>, pool_tick = 0\<rparr>" "[\<lparr>my_id = 3, chat_remote_id = 5\<rparr>]"
      "\<lparr>fault = \<lambda>_. None, others = \<lambda>_. []\<rparr>" 3]
    by auto
qed

section \<open>Pages of the history\<close>

lemma sort_key_split:
  fixes f :: "'a \<Rightarrow> 'b::linorder"
  shows "sort_key f xs =
    sort_key f (filter (\<lambda>x. f x < k) xs) @ filter (\<lambda>x. f x = k) xs @ sort_key f (filter (\<lambda>x. k < f x) xs)"
    (is "_ = ?rhs")
proof (rule properties_for_sort_key)
  show "mset ?rhs = mset xs"
    by (induction xs) auto
  show "sorted (map f ?rhs)"
    by (auto simp: sorted_append intro: sorted_map_same)
  fix a
  have stable: "filter (\<lambda>x. f a = f x) (sort_key f zs) = filter (\<lambda>x. f a = f x) zs" for zs
    using sort_key_stable [of f "f a" zs] by (simp add: eq_commute)
  have "filter (\<lambda>x. f a = f x) (filter (\<lambda>x. Q (f x)) xs) =
      (if Q (f a) then filter (\<lambda>x. f a = f x) xs else [])" for Q
    by (induction xs) auto
  note part = this [of "\<lambda>y. y < k"] this [of "\<lambda>y. y = k"] this [of "\<lambda>y. k < y"]
  show "filter (\<lambda>x. f a = f x) ?rhs = filter (\<lambda>x. f a = f x) xs"
    unfolding filter_append stable part by (cases "f a" k rule: linorder_cases) auto
qed

lemma page_lastn: "page off lim xs = lastn lim (take (length xs - off) xs)"
  by (cases "xs = []"; cases "off = 0") (auto simp: page_def lastn_def Let_def drop_take min_def)

text \<open>A page does not look further back than \<open>off + lim\<close> elements.\<close>

lemma page_drop_early:
  "off + lim \<le> length ys \<Longrightarrow> page off lim (xs @ x # ys) = page off lim (xs @ ys)"
  by (simp add: page_lastn lastn_append Suc_diff_le lastn_Cons)

text \<open>
  Leaving out the first of a sorted list that has enough other elements does not change the page.
\<close>

lemma page_remove_head:
  fixes f :: "'a \<Rightarrow> 'b::linorder"
  assumes "\<forall>y\<in>set ys. f x \<le> f y" "off + lim \<le> length ys"
  shows "page off lim (sort_key f (as @ x # ys @ bs)) = page off lim (sort_key f (as @ ys @ bs))"
proof -
  let ?k = "f x"
  let ?P = "sort_key f (filter (\<lambda>z. f z < ?k) (as @ ys @ bs)) @ filter (\<lambda>z. f z = ?k) as"
  let ?Q = "filter (\<lambda>z. f z = ?k) (ys @ bs) @ sort_key f (filter (\<lambda>z. ?k < f z) (as @ ys @ bs))"
  have "sort_key f (as @ ys @ bs) = ?P @ ?Q"
    by (subst sort_key_split [of f _ ?k]) simp
  moreover have "sort_key f (as @ x # ys @ bs) = ?P @ x # ?Q"
    by (subst sort_key_split [of f _ ?k]) simp
  moreover have "off + lim \<le> length ?Q"
  proof -
    have "length ys = length (filter (\<lambda>z. f z = ?k) ys) + length (filter (\<lambda>z. \<not> f z = ?k) ys)"
      by (simp add: sum_length_filter_compl)
    also have "filter (\<lambda>z. \<not> f z = ?k) ys = filter (\<lambda>z. ?k < f z) ys"
      using assms(1) by (auto intro!: filter_cong simp: less_le)
    finally show ?thesis using assms(2) by simp
  qed
  ultimately show ?thesis
    using page_drop_early [of off lim ?Q ?P x] by (simp only:)
qed

lemma page_lastn_one:
  fixes f :: "'a \<Rightarrow> 'b::linorder"
  assumes "sorted (map f ys)" "off + lim \<le> n"
  shows "page off lim (sort_key f (as @ lastn n ys @ bs)) = page off lim (sort_key f (as @ ys @ bs))"
  using assms(1)
proof (induction ys)
  case (Cons y ys)
  show ?case
  proof (cases "length (y # ys) \<le> n")
    case False
    then have "n \<le> length ys" by simp
    with Cons assms(2) page_remove_head [of ys f y off lim as bs] show ?thesis
      by (simp add: lastn_Cons)
  qed simp
qed simp

lemma page_lastn_all:
  fixes f :: "'a \<Rightarrow> 'b::linorder"
  assumes "\<forall>ys\<in>set yss. sorted (map f ys)" "off + lim \<le> n"
  shows "page off lim (sort_key f (as @ concat (map (lastn n) yss))) = page off lim (sort_key f (as @ concat yss))"
  using assms(1)
proof (induction yss arbitrary: as)
  case (Cons ys yss)
  have "page off lim (sort_key f (as @ lastn n ys @ concat (map (lastn n) yss)))
      = page off lim (sort_key f ((as @ lastn n ys) @ concat yss))"
    using Cons.IH [of "as @ lastn n ys"] Cons.prems by simp
  also have "\<dots> = page off lim (sort_key f (as @ ys @ concat yss))"
    using page_lastn_one [of f ys off lim n as "concat yss"] Cons.prems assms(2) by simp
  finally show ?case by simp
qed simp


text \<open>
  The document of a repository holds the messages \<open>yss\<close>, one list per peer, in the order in which
  the peers' lists are read.
\<close>

definition repo_holds ::
  "('d, 't, 'o, 'h, 's, 'm, 'l) automerge \<Rightarrow> ('id, 'd, 'h, 's) chat_repository
     \<Rightarrow> chat_message list list \<Rightarrow> bool" where
  "repo_holds A r yss \<longleftrightarrow>
     (\<exists>ls. get_all_peer_lists A (doc r) = Ok ls \<and>
        map (\<lambda>l. map (am_hydrate_prop A (doc r) (list_inner l)) [0..<list_len A (doc r) l]) ls =
          map (map Ok) yss)"

lemma fetch_list_holds:
  assumes "map (am_hydrate_prop A (doc r) (list_inner l)) [0..<list_len A (doc r) l] = map Ok ys"
  shows "fetch_list A r n l = Ok (lastn n ys)"
proof -
  let ?len = "list_len A (doc r) l"
  have len: "?len = length ys"
    using arg_cong [OF assms, of length] by simp
  have "map (hydrate_message_at_index A r (list_inner l)) [?len - n..<?len] =
      map (map_err Automerge) (drop (?len - n) (map (am_hydrate_prop A (doc r) (list_inner l)) [0..<?len]))"
    by (simp add: hydrate_message_at_index_def drop_map)
  also have "\<dots> = map Ok (lastn n ys)"
    unfolding assms by (simp add: len lastn_def drop_map)
  finally show ?thesis
    using len by (auto simp: fetch_list_def Let_def collect_results_Ok_iff)
qed

lemma fetch_all_holds:
  "map (\<lambda>l. map (am_hydrate_prop A (doc r) (list_inner l)) [0..<list_len A (doc r) l]) ls =
     map (map Ok) yss \<Longrightarrow> map (fetch_list A r n) ls = map Ok (map (lastn n) yss)"
proof (induction ls arbitrary: yss)
  case (Cons l ls)
  then show ?case by (cases yss) (auto simp: fetch_list_holds)
qed simp

lemma get_messages_holds:
  assumes "repo_holds A r yss" "off + lim \<le> usize_max"
  shows "get_messages b A r off lim =
    Return (Ok (page off lim (sort_key message_key (concat (map (lastn (off + lim)) yss)))))"
proof -
  obtain ls where ls: "get_all_peer_lists A (doc r) = Ok ls"
    "map (fetch_list A r (off + lim)) ls = map Ok (map (lastn (off + lim)) yss)"
    using assms(1) fetch_all_holds [of A r _ yss "off + lim"] unfolding repo_holds_def by blast
  then have "collect_results (map (fetch_list A r (off + lim)) ls) = Ok (map (lastn (off + lim)) yss)"
    by (simp only: collect_results_Ok_iff)
  with ls(1) assms(2) show ?thesis
    by (simp add: get_messages_def usize_add_def)
qed

text \<open>
  C8: When the messages of every peer are in the order of their time and id, a page is the same as
  the page of the whole history in that order, although only the last \<open>off + lim\<close> messages of
  every peer are read.
\<close>

theorem pages_of_history:
  assumes "repo_holds A r yss" "\<forall>ys\<in>set yss. sorted (map message_key ys)" "off + lim \<le> usize_max"
  shows "get_messages b A r off lim =
    Return (Ok (let history = sort_key message_key (concat yss)
                in lastn lim (take (length history - off) history)))"
  using get_messages_holds [OF assms(1,3)] page_lastn_all [OF assms(2), of off lim "off + lim" "[]"]
  by (simp add: page_lastn Let_def)

lemma all_messages_sorted:
  assumes "repo_holds A r yss" "length (concat yss) < usize_max"
  shows "get_all_messages b A r = Return (Ok (sort_key message_key (concat yss)))"
proof -
  let ?n = "usize_max - 1" and ?ms = "sort_key message_key (concat yss)"
  have "length ys \<le> ?n" if "ys \<in> set yss" for ys
    using assms(2) member_le_sum_list [of "length ys" "map length yss"] that
    by (fastforce simp: length_concat)
  then have "map (lastn ?n) yss = yss"
    by (simp add: map_idI)
  then have "get_all_messages b A r = Return (Ok (page 0 ?n ?ms))"
    unfolding get_all_messages_def using get_messages_holds [OF assms(1), of 0 ?n b] by simp
  moreover have "page 0 ?n ?ms = ?ms"
    using assms(2) by (simp add: page_lastn)
  ultimately show ?thesis by simp
qed

text \<open>A document with the messages of two peers, for the examples.\<close>

definition sample_message :: "string \<Rightarrow> string \<Rightarrow> i64 \<Rightarrow> chat_message" where
  "sample_message i s t =
     \<lparr>msg_id = i, sender_node_id = s, content = Text ''hi'', created_at = t, updated_at = t\<rparr>"

definition sample_entry :: "nat \<Rightarrow> chat_message \<Rightarrow> ref_doc" where
  "sample_entry n m =
     [(n, RefMap [(''id'', Scalar (ScalarStr (msg_id m)), 0),
                  (''sender_node_id'', Scalar (ScalarStr (sender_node_id m)), 0),
                  (''content'', Object ObjMap, n + 50),
                  (''created_at'', Scalar (ScalarInt (created_at m)), 0),
                  (''updated_at'', Scalar (ScalarInt (updated_at m)), 0)]),
      (n + 50, RefMap [(''Text'', Scalar (ScalarStr ''hi''), 0)])]"

definition sample_doc :: ref_doc where
  "sample_doc =
     (0, RefMap [(''msgs_a'', Object ObjList, 2), (''msgs_b'', Object ObjList, 3)]) #
     (2, RefList [(Object ObjMap, 12), (Object ObjMap, 13)]) #
     (3, RefList [(Object ObjMap, 14)]) #
     sample_entry 12 (sample_message ''x'' ''a'' 5) @
     sample_entry 13 (sample_message ''y'' ''a'' 9) @
     sample_entry 14 (sample_message ''z'' ''b'' 7)"

definition sample_repo :: "(nat, ref_doc, unit, unit) chat_repository" where
  "sample_repo = \<lparr>repo_chat_id = \<lparr>my_id = 3, chat_remote_id = 5\<rparr>, doc = sample_doc,
     sync_state = (), last_saved_heads = [], sync_status_tx = watch_channel False\<rparr>"

definition sample_history :: "chat_message list list" where
  "sample_history = [[sample_message ''x'' ''a'' 5, sample_message ''y'' ''a'' 9],
     [sample_message ''z'' ''b'' 7]]"

lemma sample_repo_holds: "repo_holds ref_am sample_repo sample_history"
proof -
  have "get_all_peer_lists ref_am (doc sample_repo) = Ok [MessageListId 2, MessageListId 3]"
    by code_simp
  moreover have "map (\<lambda>l. map (am_hydrate_prop ref_am (doc sample_repo) (list_inner l))
      [0..<list_len ref_am (doc sample_repo) l]) [MessageListId 2, MessageListId 3] =
      map (map Ok) sample_history"
    by code_simp
  ultimately show ?thesis
    unfolding repo_holds_def by blast
qed

lemma sample_history_sorted: "\<forall>ys\<in>set sample_history. sorted (map message_key ys)"
  by code_simp

theorem pages_of_history_witness:
  "get_messages Debug ref_am sample_repo 1 2 =
     Return (Ok [sample_message ''x'' ''a'' 5, sample_message ''z'' ''b'' 7])"
proof -
  have "(1::nat) + 2 \<le> usize_max" by (simp add: usize_max_def)
  moreover have "(let history = sort_key message_key (concat sample_history)
      in lastn 2 (take (length history - 1) history)) =
      [sample_message ''x'' ''a'' 5, sample_message ''z'' ''b'' 7]"
    by code_simp
  ultimately show ?thesis
    using pages_of_history [OF sample_repo_holds sample_history_sorted, of 1 2 Debug] by simp
qed

section \<open>Loading ends\<close>

lemma apply_write_keeps_chats: "fst ` set (chats d) \<subseteq> fst ` set (chats (apply_write w d))"
  by (cases w) (force simp: insert_log_def insert_or_ignore_chat_def update_document_def
      delete_log_upto_def)+

lemma fold_writes_keep_chats: "fst ` set (chats d) \<subseteq> fst ` set (chats (fold apply_write ws d))"
proof (induction ws arbitrary: d)
  case (Cons w ws)
  show ?case using apply_write_keeps_chats [of d w] Cons [of "apply_write w d"] by simp
qed simp

lemma exec_Ok_iff:
  "exec env stmt p = (Ok x, p') \<longleftrightarrow>
     fault env (pool_tick p) = None \<and>
     (\<exists>d'. stmt (fold apply_write (others env (pool_tick p)) (pool_db p)) = (Ok x, d') \<and>
        p' = \<lparr>pool_db = d', pool_tick = Suc (pool_tick p)\<rparr>)"
  by (auto simp: exec_def Let_def split: option.splits prod.splits)

text \<open>A race is lost only to somebody who inserted the row.\<close>

lemma create_lost_race:
  assumes "create_snapshot A env cid p = (Ok None, p')"
  shows "cid \<in> fst ` set (chats (pool_db p'))"
  using assms
  by (auto simp: create_snapshot_def result_simps exec_Ok_iff insert_or_ignore_chat_def
      split: result.splits prod.splits if_splits)

lemma load_snapshot_step:
  assumes "cid \<in> fst ` set (chats (pool_db p))"
  shows "load_loop A env cid (Suc n) p = load_loop A env cid (Suc 0) p"
    "fst (load_loop A env cid (Suc n) p) \<noteq> Ok None"
proof -
  have found: "\<exists>b. x = Some b" if "exec env (select_document cid) p = (Ok x, q)" for x q
  proof -
    let ?d = "fold apply_write (others env (pool_tick p)) (pool_db p)"
    have "x = map_of (chats ?d) cid"
      using that by (simp add: exec_Ok_iff select_document_def)
    moreover have "cid \<in> fst ` set (chats ?d)"
      using assms fold_writes_keep_chats by blast
    ultimately show ?thesis
      by (metis map_of_eq_None_iff not_None_eq)
  qed
  consider e q where "exec env (select_document cid) p = (Err e, q)"
    | b q where "exec env (select_document cid) p = (Ok (Some b), q)"
    using found by (metis prod.exhaust result.exhaust)
  then show "load_loop A env cid (Suc n) p = load_loop A env cid (Suc 0) p"
    "fst (load_loop A env cid (Suc n) p) \<noteq> Ok None"
    by (cases; simp add: io_bind_def split: prod.split result.split)+
qed

lemma load_loop_ends:
  "load_loop A env cid (n + 2) p = load_loop A env cid 2 p \<and> fst (load_loop A env cid 2 p) \<noteq> Ok None"
proof (cases "\<exists>q q'. exec env (select_document cid) p = (Ok None, q) \<and>
    create_snapshot A env cid q = (Ok None, q')")
  case True
  then obtain q q' where q: "exec env (select_document cid) p = (Ok None, q)"
    "create_snapshot A env cid q = (Ok None, q')" by blast
  have "load_loop A env cid (Suc k) p = load_loop A env cid k q'" for k
    using q by (simp add: io_bind_def)
  then show ?thesis
    using load_snapshot_step [OF create_lost_race [OF q(2)]]
    by (metis add_2_eq_Suc' numeral_2_eq_2)
next
  case False
  then have "load_loop A env cid (Suc k) p = load_loop A env cid (Suc 0) p \<and>
      fst (load_loop A env cid (Suc k) p) \<noteq> Ok None" for k
    by (auto simp: io_bind_def split: prod.splits result.splits option.splits)
  then show ?thesis
    by (metis add_2_eq_Suc' numeral_2_eq_2)
qed

lemma get_persisted_doc_state_loop:
  "load_loop A env (chat_id_display show_id c) 2 p =
     (case get_persisted_doc_state A env show_id c p of (r, p') \<Rightarrow> (map_ok Some r, p'))"
  using load_loop_ends [of A env "chat_id_display show_id c" 0 p]
  by (auto simp: get_persisted_doc_state_def io_bind_def split: prod.splits result.splits option.splits)

text \<open>
  C29: Loading a chat returns: whatever the rest of the program writes meanwhile and whichever
  statements fail, the loop has ended with a document or an error after at most two turns, and
  more turns are never taken.
\<close>

theorem loading_takes_two_turns:
  "load_loop A env (chat_id_display show_id c) (n + 2) p =
     (case get_persisted_doc_state A env show_id c p of (r, p') \<Rightarrow> (map_ok Some r, p'))"
  using load_loop_ends [of A env "chat_id_display show_id c" n p]
  by (simp only: get_persisted_doc_state_loop)

section \<open>What is stored\<close>

text \<open>
  What the repository relies on of the document library when it saves and loads: \<open>chg d\<close> is the set
  of changes a document consists of, \<open>blob b\<close> the set of changes in a chunk of bytes, and \<open>base t\<close>
  the document a transaction was opened on. A saved document loads with the same changes; the
  chunk saved after the heads of an older version has exactly the changes since, and is empty when
  there are none; the concatenation of such chunks can be loaded when this completes a history; a
  commit and a received sync message only add changes; and documents with the same changes read
  the same.
\<close>

definition is_chunk ::
  "('d, 't, 'o, 'h, 's, 'm, 'l) automerge \<Rightarrow> ('d \<Rightarrow> 'c set) \<Rightarrow> bytes \<Rightarrow> bool" where
  "is_chunk A chg b \<longleftrightarrow> (\<exists>d e. chg e \<subseteq> chg d \<and> b = am_save_after A d (am_get_heads A e))"

definition storage_laws ::
  "('d, 't, 'o, 'h, 's, 'm, 'l) automerge \<Rightarrow> ('d \<Rightarrow> 'c set) \<Rightarrow> (bytes \<Rightarrow> 'c set) \<Rightarrow> ('t \<Rightarrow> 'd) \<Rightarrow> bool"
where
  "storage_laws A chg blob base \<longleftrightarrow>
     (\<forall>d. \<exists>d'. am_load A (am_save A d) = Ok d' \<and> chg d' = chg d) \<and>
     (\<forall>d e. chg e \<subseteq> chg d \<longrightarrow>
        blob (am_save_after A d (am_get_heads A e)) = chg d - chg e \<and>
        (am_save_after A d (am_get_heads A e) = [] \<longleftrightarrow> chg d = chg e)) \<and>
     (\<forall>d e bss. (\<forall>b\<in>set bss. is_chunk A chg b) \<longrightarrow>
        chg d \<union> \<Union> (blob ` set bss) = chg e \<longrightarrow>
        (\<exists>d'. am_load_incremental A d (concat bss) = Ok d' \<and> chg d' = chg e)) \<and>
     (\<forall>d. base (tx_begin A d) = d) \<and>
     (\<forall>t. chg (base t) \<subseteq> chg (tx_commit A t)) \<and>
     (\<forall>t i k ty. base (snd (tx_put_object A i k ty t)) = base t) \<and>
     (\<forall>t i j ty. base (snd (tx_insert_object A i j ty t)) = base t) \<and>
     (\<forall>t i k v. base (snd (tx_put A i k v t)) = base t) \<and>
     (\<forall>d s m. chg d \<subseteq> chg (fst (snd (am_receive_sync A d s m)))) \<and>
     (\<forall>d d'. chg d = chg d' \<longrightarrow> am_keys A d = am_keys A d' \<and> am_get A d = am_get A d' \<and>
        am_length A d = am_length A d' \<and> am_hydrate_prop A d = am_hydrate_prop A d')"

lemma storage_load: "storage_laws A chg blob base \<Longrightarrow> \<exists>d'. am_load A (am_save A d) = Ok d' \<and> chg d' = chg d"
  by (simp add: storage_laws_def)

lemma storage_save_after:
  "storage_laws A chg blob base \<Longrightarrow> chg e \<subseteq> chg d \<Longrightarrow>
     blob (am_save_after A d (am_get_heads A e)) = chg d - chg e \<and>
     (am_save_after A d (am_get_heads A e) = [] \<longleftrightarrow> chg d = chg e)"
  by (simp add: storage_laws_def)

lemma storage_load_incremental:
  "storage_laws A chg blob base \<Longrightarrow>
     \<forall>b\<in>set bss. is_chunk A chg b \<Longrightarrow>
     chg d \<union> \<Union> (blob ` set bss) = chg e \<Longrightarrow>
     \<exists>d'. am_load_incremental A d (concat bss) = Ok d' \<and> chg d' = chg e"
  by (simp add: storage_laws_def)

lemma storage_receive:
  "storage_laws A chg blob base \<Longrightarrow> am_receive_sync A d s m = (x, d', s', l) \<Longrightarrow> chg d \<subseteq> chg d'"
  unfolding storage_laws_def by (metis fst_conv snd_conv)

text \<open>
  The database holds the changes \<open>C\<close> of the chat \<open>cid\<close>: its snapshot is a saved document, its log
  rows are chunks, and together they have the changes \<open>C\<close>.
\<close>

definition chat_rows :: "string \<Rightarrow> db \<Rightarrow> log_row list" where
  "chat_rows cid d = filter (\<lambda>r. row_chat_id r = cid) (chat_log d)"

definition db_holds ::
  "('d, 't, 'o, 'h, 's, 'm, 'l) automerge \<Rightarrow> ('d \<Rightarrow> 'c set) \<Rightarrow> (bytes \<Rightarrow> 'c set) \<Rightarrow> string \<Rightarrow> db \<Rightarrow> 'c set
     \<Rightarrow> bool" where
  "db_holds A chg blob cid d C \<longleftrightarrow>
     (\<exists>s. map_of (chats d) cid = Some (am_save A s) \<and>
        (\<forall>b\<in>row_data ` set (chat_rows cid d). is_chunk A chg b) \<and>
        C = chg s \<union> \<Union> (blob ` row_data ` set (chat_rows cid d)))"

text \<open>
  The repository is in step with the database: what it takes for saved is a version \<open>e\<close> of the
  document, the database holds that version, and the document has grown from it.
\<close>

definition repo_inv ::
  "('d, 't, 'o, 'h, 's, 'm, 'l) automerge \<Rightarrow> ('d \<Rightarrow> 'c set) \<Rightarrow> (bytes \<Rightarrow> 'c set)
     \<Rightarrow> ('id::linorder \<Rightarrow> string) \<Rightarrow> ('id, 'd, 'h, 's) chat_repository \<times> pool \<Rightarrow> bool" where
  "repo_inv A chg blob show_id = (\<lambda>(r, p).
     \<exists>e. last_saved_heads r = am_get_heads A e \<and> chg e \<subseteq> chg (doc r) \<and>
       db_holds A chg blob (chat_id_display show_id (repo_chat_id r)) (pool_db p) (chg e))"

text \<open>Writes to other chats, which is all that the rest of the program does.\<close>

fun write_chat :: "db_write \<Rightarrow> string" where
  "write_chat (WriteLog cid bs) = cid"
| "write_chat (WriteChat cid bs) = cid"
| "write_chat (WriteDocument cid bs) = cid"
| "write_chat (WriteDelete cid n) = cid"

definition foreign :: "string \<Rightarrow> sql_env \<Rightarrow> bool" where
  "foreign cid env \<longleftrightarrow> (\<forall>n. \<forall>w\<in>set (others env n). write_chat w \<noteq> cid)"

lemma map_of_update_other:
  "cid' \<noteq> cid \<Longrightarrow> map_of (map (\<lambda>(c, b). if c = cid' then (c, bs) else (c, b)) xs) cid = map_of xs cid"
  by (induction xs) auto

lemma map_of_update_same:
  "map_of (map (\<lambda>(c, b). if c = cid then (c, bs) else (c, b)) xs) cid = map_option (\<lambda>_. bs) (map_of xs cid)"
  by (induction xs) auto

lemma apply_foreign_write:
  assumes "write_chat w \<noteq> cid"
  shows "map_of (chats (apply_write w d)) cid = map_of (chats d) cid"
    "chat_rows cid (apply_write w d) = chat_rows cid d"
  using assms
  by (cases w; auto simp: insert_log_def insert_or_ignore_chat_def update_document_def
      delete_log_upto_def chat_rows_def map_of_update_other map_add_def intro!: filter_cong
      split: option.splits)+

lemma apply_foreign_writes:
  assumes "\<forall>w\<in>set ws. write_chat w \<noteq> cid"
  shows "map_of (chats (fold apply_write ws d)) cid = map_of (chats d) cid"
    "chat_rows cid (fold apply_write ws d) = chat_rows cid d"
  using assms by (induction ws arbitrary: d) (simp_all add: apply_foreign_write)

lemma db_holds_foreign:
  "foreign cid env \<Longrightarrow> db_holds A chg blob cid (fold apply_write (others env n) d) C \<longleftrightarrow>
     db_holds A chg blob cid d C"
  by (simp add: db_holds_def foreign_def apply_foreign_writes)

lemma db_holds_insert_log:
  assumes "db_holds A chg blob cid d (chg e)" "storage_laws A chg blob base" "chg e \<subseteq> chg x"
  shows "\<exists>d'. insert_log cid (am_save_after A x (am_get_heads A e)) d = (Ok (), d') \<and>
    db_holds A chg blob cid d' (chg x)"
proof -
  obtain s where s: "map_of (chats d) cid = Some (am_save A s)"
    "\<forall>b\<in>row_data ` set (chat_rows cid d). is_chunk A chg b"
    "chg e = chg s \<union> \<Union> (blob ` row_data ` set (chat_rows cid d))"
    using assms(1) unfolding db_holds_def by blast
  have "cid \<in> fst ` set (chats d)"
    using s(1) by (metis domI dom_map_of_conv_image_fst)
  moreover have "chg x = chg e \<union> blob (am_save_after A x (am_get_heads A e))"
    using storage_save_after [OF assms(2,3)] assms(3) by auto
  moreover have "is_chunk A chg (am_save_after A x (am_get_heads A e))"
    using assms(3) unfolding is_chunk_def by blast
  moreover obtain d' row where "insert_log cid (am_save_after A x (am_get_heads A e)) d = (Ok (), d')"
    "chats d' = chats d" "chat_rows cid d' = chat_rows cid d @ [row]"
    "row_data row = am_save_after A x (am_get_heads A e)"
    using calculation(1) by (simp add: insert_log_def chat_rows_def)
  ultimately show ?thesis
    using s unfolding db_holds_def by (intro exI [of _ d'] conjI exI [of _ s]) auto
qed

text \<open>Persisting: on success the database holds the document, on failure nothing has changed.\<close>

lemma persist_chat_stores:
  assumes L: "storage_laws A chg blob base"
    and inv: "repo_inv A chg blob show_id (r, p)"
    and F: "foreign (chat_id_display show_id (repo_chat_id r)) env"
    and run: "persist_chat A env show_id (r, p) = (x, (r', p'))"
  shows "repo_inv A chg blob show_id (r', p')"
    and "doc r' = doc r \<and> repo_chat_id r' = repo_chat_id r"
    and "x = Ok () \<Longrightarrow> db_holds A chg blob (chat_id_display show_id (repo_chat_id r)) (pool_db p') (chg (doc r))"
proof -
  let ?cid = "chat_id_display show_id (repo_chat_id r)"
  obtain e where e: "last_saved_heads r = am_get_heads A e" "chg e \<subseteq> chg (doc r)"
    "db_holds A chg blob ?cid (pool_db p) (chg e)"
    using inv unfolding repo_inv_def by auto
  let ?new = "am_save_after A (doc r) (am_get_heads A e)"
  let ?d = "fold apply_write (others env (pool_tick p)) (pool_db p)"
  note sa = storage_save_after [OF L e(2)]
  have hold: "db_holds A chg blob ?cid ?d (chg e)" using e(3) db_holds_foreign [OF F] by blast
  obtain d' where d': "insert_log ?cid ?new ?d = (Ok (), d')" "db_holds A chg blob ?cid d' (chg (doc r))"
    using db_holds_insert_log [OF hold L e(2)] by blast
  consider "?new = []" | f where "?new \<noteq> []" "fault env (pool_tick p) = Some f"
    | "?new \<noteq> []" "fault env (pool_tick p) = None" by fastforce
  then have "repo_inv A chg blob show_id (r', p') \<and> doc r' = doc r \<and> repo_chat_id r' = repo_chat_id r \<and>
    (x = Ok () \<longrightarrow> db_holds A chg blob ?cid (pool_db p') (chg (doc r)))"
  proof cases
    case 1
    with run have "x = Ok ()" "r' = r" "p' = p" by (simp_all add: persist_chat_def e(1))
    then show ?thesis using inv e(3) sa 1 by simp
  next
    case 2
    with run have "x = Err (Sqlx f)" "r' = r" "pool_db p' = ?d"
      by (auto simp: persist_chat_def exec_def Let_def e(1))
    then show ?thesis using e hold unfolding repo_inv_def by auto
  next
    case 3
    with run d'(1) have "x = Ok ()" "r' = r\<lparr>last_saved_heads := am_get_heads A (doc r)\<rparr>" "pool_db p' = d'"
      by (auto simp: persist_chat_def exec_def Let_def e(1))
    then show ?thesis using d'(2) unfolding repo_inv_def by auto
  qed
  then show "repo_inv A chg blob show_id (r', p')" "doc r' = doc r \<and> repo_chat_id r' = repo_chat_id r"
    "x = Ok () \<Longrightarrow> db_holds A chg blob ?cid (pool_db p') (chg (doc r))" by simp_all
qed

text \<open>
  Compaction replaces the snapshot by one that has everything and deletes only what it has.
\<close>

lemma last_sorted_key:
  assumes "x \<in> set xs" "sorted (map f xs)" shows "f x \<le> (f (last xs) :: nat)"
proof -
  obtain i where i: "i < length xs" "x = xs ! i" using assms(1) by (metis in_set_conv_nth)
  have "map f xs ! i \<le> map f xs ! (length xs - 1)"
    by (rule sorted_nth_mono [OF assms(2)]) (use i in auto)
  moreover have "last xs = xs ! (length xs - 1)" by (rule last_conv_nth) (use assms(1) in auto)
  ultimately show ?thesis using i by (auto simp: nth_map)
qed

lemma db_holds_compacted:
  assumes "db_holds A chg blob cid d C" "chg x = C"
    and "\<forall>r\<in>set (chat_rows cid d). row_id r \<le> n"
  shows "db_holds A chg blob cid (snd (delete_log_upto cid n (snd (update_document cid (am_save A x) d)))) C"
proof -
  have "chat_rows cid (snd (delete_log_upto cid n (snd (update_document cid (am_save A x) d)))) = []"
    using assms(3) by (auto simp: chat_rows_def delete_log_upto_def update_document_def filter_empty_conv)
  moreover have "map_of (chats (snd (delete_log_upto cid n (snd (update_document cid (am_save A x) d))))) cid
      = Some (am_save A x)"
    using assms(1) by (auto simp: db_holds_def delete_log_upto_def update_document_def map_of_update_same)
  ultimately show ?thesis
    using assms(2) unfolding db_holds_def by (intro exI [of _ x]) simp
qed

lemma compact_holds:
  assumes hold: "db_holds A chg blob cid (pool_db p) C" and x: "chg x = C"
    and F: "foreign cid env" and rows: "rows = sort_key row_id (chat_rows cid (pool_db p))" "rows \<noteq> []"
    and run: "compact A env cid x rows p = (res, p')"
  shows "db_holds A chg blob cid (pool_db p') C"
proof -
  let ?d = "fold apply_write (others env (pool_tick p)) (pool_db p)"
  let ?n = "row_id (last rows)"
  let ?d' = "snd (delete_log_upto cid ?n (snd (update_document cid (am_save A x) ?d)))"
  have hold': "db_holds A chg blob cid ?d C" using hold db_holds_foreign [OF F] by blast
  have same: "chat_rows cid ?d = chat_rows cid (pool_db p)"
    using F by (simp add: apply_foreign_writes foreign_def)
  have "row_id r \<le> ?n" if "r \<in> set (chat_rows cid ?d)" for r
    using that last_sorted_key [of r rows row_id] by (simp add: same rows)
  then have "db_holds A chg blob cid ?d' C"
    using db_holds_compacted [OF hold' x, of ?n] by blast
  moreover have "pool_db p' = pool_db p \<or> pool_db p' = ?d \<or> pool_db p' = ?d'"
    using run rows(2) by (auto simp: compact_def exec_both_def Let_def split: if_splits option.splits)
  ultimately show ?thesis using hold hold' by metis
qed

lemma load_snapshot_holds:
  assumes L: "storage_laws A chg blob base" and F: "foreign cid env"
    and hold: "db_holds A chg blob cid (pool_db p) (chg e)"
    and doc: "map_of (chats (pool_db p)) cid = Some b"
    and run: "load_snapshot A env cid b p = (res, p')"
  shows "db_holds A chg blob cid (pool_db p') (chg e)"
    and "res = Ok (x, hs) \<Longrightarrow> chg x = chg e \<and> hs = am_get_heads A x"
    and "(\<And>n. fault env n = None) \<Longrightarrow> \<exists>y. res = Ok y"
proof -
  let ?rows = "sort_key row_id (chat_rows cid (pool_db p))"
  let ?d = "fold apply_write (others env (pool_tick p)) (pool_db p)"
  let ?q = "\<lparr>pool_db = ?d, pool_tick = Suc (pool_tick p)\<rparr>"
  obtain s where s: "b = am_save A s" "\<forall>b\<in>row_data ` set (chat_rows cid (pool_db p)). is_chunk A chg b"
    "chg e = chg s \<union> \<Union> (blob ` row_data ` set (chat_rows cid (pool_db p)))"
    using hold doc unfolding db_holds_def by auto
  obtain d1 where d1: "am_load A b = Ok d1" "chg d1 = chg s"
    using storage_load [OF L] unfolding s(1) by blast
  have bss: "\<forall>b\<in>set (map row_data ?rows). is_chunk A chg b" using s(2) by simp
  have un: "chg d1 \<union> \<Union> (blob ` set (map row_data ?rows)) = chg e" using s(3) d1(2) by simp
  obtain d2 where d2: "am_load_incremental A d1 (concat (map row_data ?rows)) = Ok d2" "chg d2 = chg e"
    using storage_load_incremental [OF L bss un] by blast
  have rows: "chat_rows cid ?d = chat_rows cid (pool_db p)"
    using F by (simp add: apply_foreign_writes foreign_def)
  have sel: "exec env (select_log cid) p = (case fault env (pool_tick p) of
      None \<Rightarrow> (Ok ?rows, ?q) | Some f \<Rightarrow> (Err (Sqlx f), ?q))"
    using rows by (auto simp: exec_def select_log_def chat_rows_def Let_def split: option.splits)
  have hold': "db_holds A chg blob cid ?d (chg e)" using hold db_holds_foreign [OF F] by blast
  have comp: "db_holds A chg blob cid (pool_db q') (chg e)"
    if "compact A env cid d2 ?rows ?q = (y, q')" "?rows \<noteq> []" for y q'
    by (rule compact_holds [where p = ?q and rows = ?rows and x = d2 and env = env and res = y])
      (use that F d2(2) hold' rows in simp_all)
  have body: "load_snapshot A env cid b p = (case fault env (pool_tick p) of
      Some f \<Rightarrow> (Err (Sqlx f), ?q)
    | None \<Rightarrow> if ?rows = [] then (Ok (d1, am_get_heads A d1), ?q)
        else (case compact A env cid d2 ?rows ?q of
                (Ok _, q') \<Rightarrow> (Ok (d2, am_get_heads A d2), q') | (Err f, q') \<Rightarrow> (Err f, q')))"
    by (auto simp: load_snapshot_def io_bind_def d1(1) d2(1) sel split: option.splits prod.splits result.splits)
  have nil: "?rows = [] \<Longrightarrow> chg d1 = chg e" using s(3) d1(2) by (metis un UN_empty Un_empty_right list.set(1) map_is_Nil_conv)
  show "db_holds A chg blob cid (pool_db p') (chg e)"
    using run hold' comp unfolding body
    by (auto split: option.splits if_splits prod.splits result.splits)
  show "res = Ok (x, hs) \<Longrightarrow> chg x = chg e \<and> hs = am_get_heads A x"
    using run nil d2(2) unfolding body by (auto split: option.splits if_splits prod.splits result.splits)
  show "(\<And>n. fault env n = None) \<Longrightarrow> \<exists>y. res = Ok y"
    using run unfolding body
    by (auto simp: compact_def exec_both_def Let_def split: if_splits prod.splits result.splits)
qed


text \<open>
  Loading a stored chat gives what is stored, and leaves it stored, compacted or not.
\<close>

lemma get_persisted_doc_state_holds:
  assumes L: "storage_laws A chg blob base" and F: "foreign (chat_id_display show_id c) env"
    and hold: "db_holds A chg blob (chat_id_display show_id c) (pool_db p) (chg e)"
    and run: "get_persisted_doc_state A env show_id c p = (res, p')"
  shows "db_holds A chg blob (chat_id_display show_id c) (pool_db p') (chg e)"
    and "res = Ok (x, hs) \<Longrightarrow> chg x = chg e \<and> hs = am_get_heads A x"
    and "(\<And>n. fault env n = None) \<Longrightarrow> \<exists>y. res = Ok y"
proof -
  let ?cid = "chat_id_display show_id c"
  let ?d = "fold apply_write (others env (pool_tick p)) (pool_db p)"
  let ?q = "\<lparr>pool_db = ?d, pool_tick = Suc (pool_tick p)\<rparr>"
  have hold': "db_holds A chg blob ?cid (pool_db ?q) (chg e)"
    by (simp add: hold db_holds_foreign [OF F])
  then obtain b where b: "map_of (chats (pool_db ?q)) ?cid = Some b"
    unfolding db_holds_def by blast
  have body: "get_persisted_doc_state A env show_id c p = (case fault env (pool_tick p) of
      Some f \<Rightarrow> (Err (Sqlx f), ?q)
    | None \<Rightarrow> load_snapshot A env ?cid b ?q)"
    using b by (auto simp: get_persisted_doc_state_def numeral_2_eq_2 io_bind_def exec_def
        select_document_def Let_def split: option.splits prod.splits result.splits)
  obtain res1 p1 where ls: "load_snapshot A env ?cid b ?q = (res1, p1)" by fastforce
  note H = load_snapshot_holds [OF L F hold' b ls]
  have cases: "(\<exists>f. fault env (pool_tick p) = Some f \<and> res = Err (Sqlx f) \<and> p' = ?q) \<or>
      fault env (pool_tick p) = None \<and> res = res1 \<and> p' = p1"
    using run ls unfolding body by (auto split: option.splits)
  show "db_holds A chg blob ?cid (pool_db p') (chg e)"
    using cases hold' H(1) by auto
  show "res = Ok (x, hs) \<Longrightarrow> chg x = chg e \<and> hs = am_get_heads A x"
    using cases H(2) by auto
  show "(\<And>n. fault env n = None) \<Longrightarrow> \<exists>y. res = Ok y"
    using cases H(3) by auto
qed

lemma same_changes_read:
  assumes "storage_laws A chg blob base" "chg d = chg d'"
  shows "get_all_peer_lists A d = get_all_peer_lists A d'" "am_length A d = am_length A d'"
    "am_hydrate_prop A d = am_hydrate_prop A d'"
proof -
  have eq: "am_keys A d = am_keys A d'" "am_get A d = am_get A d'"
    using assms unfolding storage_laws_def by blast+
  show "am_length A d = am_length A d'" "am_hydrate_prop A d = am_hydrate_prop A d'"
    using assms unfolding storage_laws_def by blast+
  have "collect_peer_lists A d ks acc = collect_peer_lists A d' ks acc" for ks acc
    by (induction ks arbitrary: acc) (auto simp: eq split: option.splits intro!: arg_cong2 [where f = and_then])
  then show "get_all_peer_lists A d = get_all_peer_lists A d'"
    by (simp add: get_all_peer_lists_def eq)
qed

lemma same_changes_same_messages:
  assumes "storage_laws A chg blob base" "chg (doc r) = chg (doc r')"
  shows "get_messages b A r off lim = get_messages b A r' off lim"
proof -
  note eq = same_changes_read [OF assms]
  have "hydrate_message_at_index A r = hydrate_message_at_index A r'"
    by (simp add: fun_eq_iff hydrate_message_at_index_def eq)
  then have "fetch_list A r = fetch_list A r'"
    by (intro ext) (simp add: fetch_list_def list_len_def Let_def eq)
  then show ?thesis by (simp only: get_messages_def eq)
qed

text \<open>What runs inside a transaction stays on the document it was opened on.\<close>

definition keeps :: "('t \<Rightarrow> 'd) \<Rightarrow> ('t, 'a, 'e) io \<Rightarrow> bool" where
  "keeps base m \<longleftrightarrow> (\<forall>t. base (snd (m t)) = base t)"

lemma keeps_bind [intro]: "keeps base m \<Longrightarrow> (\<And>x. keeps base (f x)) \<Longrightarrow> keeps base (io_bind m f)"
  by (auto simp: keeps_def io_bind_def split: prod.splits result.splits) (metis snd_conv)+

lemma keeps_simps [simp]: "keeps base (io_return x)" "keeps base (io_read g)" "keeps base (io_lift y)"
  "keeps base (\<lambda>t. (z t, t))"
  by (simp_all add: keeps_def)

lemma keeps_map_err [simp]: "keeps base (io_map_err g m) \<longleftrightarrow> keeps base m"
  by (simp add: keeps_def io_map_err_def split: prod.splits) (metis prod.exhaust snd_conv)

lemma keeps_ops:
  assumes "storage_laws A chg blob base"
  shows "keeps base (tx_put_object A i k ty)" "keeps base (tx_insert_object A i j ty)"
    "keeps base (tx_put A i k v)"
  using assms by (auto simp: storage_laws_def keeps_def)

lemma transact_grows:
  assumes "storage_laws A chg blob base" "keeps base f" "transact A f d = (x, d')"
  shows "chg d \<subseteq> chg d'"
proof -
  have b: "base (tx_begin A d) = d" "\<And>t. chg (base t) \<subseteq> chg (tx_commit A t)"
    using assms(1) by (auto simp: storage_laws_def)
  obtain y t where t: "f (tx_begin A d) = (y, t)" by fastforce
  then have "base t = d" using assms(2) b(1) unfolding keeps_def by (metis snd_conv)
  then show ?thesis using assms(3) t b(2) [of t] by (auto simp: transact_def split: result.splits)
qed

lemma keeps_store_message:
  assumes "storage_laws A chg blob base"
  shows "keeps base (io_bind (ensure_peer_list A me) (\<lambda>l. append_message A l m))"
proof -
  have "keeps base (ensure_peer_list A me)"
    unfolding ensure_peer_list_def Let_def
    by (intro keeps_bind) (auto simp: keeps_ops [OF assms] split: option.splits)
  moreover have "keeps base (append_message A l m)" for l
    unfolding append_message_def
    by (intro keeps_bind) (auto simp: keeps_ops [OF assms] split: chat_message_content.splits)
  ultimately show ?thesis by blast
qed

lemma repo_inv_grow:
  "repo_inv A chg blob show_id (r, p) \<Longrightarrow> chg (doc r) \<subseteq> chg d \<Longrightarrow>
     repo_inv A chg blob show_id (r\<lparr>doc := d, sync_state := s\<rparr>, p)"
  by (auto simp: repo_inv_def)

lemma repo_inv_grow_doc:
  "repo_inv A chg blob show_id (r, p) \<Longrightarrow> chg (doc r) \<subseteq> chg d \<Longrightarrow>
     repo_inv A chg blob show_id (r\<lparr>doc := d\<rparr>, p)"
  by (auto simp: repo_inv_def)

lemma generate_sync_message_keeps:
  "generate_sync_message A r = (m, r') \<Longrightarrow> doc r' = doc r \<and> repo_chat_id r' = repo_chat_id r \<and>
     last_saved_heads r' = last_saved_heads r"
  by (auto simp: generate_sync_message_def split: prod.splits)

lemma repo_inv_generate:
  "generate_sync_message A r = (m, r') \<Longrightarrow>
     repo_inv A chg blob show_id (r', p) \<longleftrightarrow> repo_inv A chg blob show_id (r, p)"
  using generate_sync_message_keeps [of A r m r'] by (simp add: repo_inv_def)

text \<open>
  The two operations that change the document keep the repository in step with the database; and
  when they report success, the database holds the document as it is now.
\<close>

definition stored_if_ok ::
  "('d, 't, 'o, 'h, 's, 'm, 'l) automerge \<Rightarrow> ('d \<Rightarrow> 'c set) \<Rightarrow> (bytes \<Rightarrow> 'c set)
     \<Rightarrow> ('id::linorder \<Rightarrow> string) \<Rightarrow> ('id, 'd, 'h, 's) chat_repository
     \<Rightarrow> ('a, lib_error) result \<times> ('id, 'd, 'h, 's) chat_repository \<times> pool \<Rightarrow> bool" where
  "stored_if_ok A chg blob show_id r = (\<lambda>(x, r', p').
     repo_inv A chg blob show_id (r', p') \<and> repo_chat_id r' = repo_chat_id r \<and>
     (is_ok x \<longrightarrow> db_holds A chg blob (chat_id_display show_id (repo_chat_id r)) (pool_db p') (chg (doc r'))))"

lemma add_message_stores:
  assumes L: "storage_laws A chg blob base" and inv: "repo_inv A chg blob show_id (r, p)"
    and F: "foreign (chat_id_display show_id (repo_chat_id r)) env"
  shows "stored_if_ok A chg blob show_id r (add_message A env show_id now i c (r, p))"
proof -
  define m where "m = \<lparr>msg_id = i, sender_node_id = show_id (my_id (repo_chat_id r)), content = c,
    created_at = now, updated_at = now\<rparr>"
  let ?f = "io_bind (ensure_peer_list A (show_id (my_id (repo_chat_id r)))) (\<lambda>l. append_message A l m)"
  obtain x d where t: "transact A ?f (doc r) = (x, d)" by fastforce
  have d: "chg (doc r) \<subseteq> chg d" using transact_grows [OF L keeps_store_message [OF L] t] .
  let ?r = "r\<lparr>doc := d\<rparr>"
  have inv1: "repo_inv A chg blob show_id (?r, p)" using repo_inv_grow_doc [OF inv d] .
  show ?thesis
  proof (cases x)
    case (Err e)
    then show ?thesis using t inv1
      by (simp add: add_message_def Let_def m_def [symmetric] stored_if_ok_def)
  next
    case (Ok u)
    obtain y r' p' where pc: "persist_chat A env show_id (?r, p) = (y, (r', p'))" by (metis prod.exhaust)
    note P = persist_chat_stores [OF L inv1 _ pc]
    obtain sm r'' where g: "generate_sync_message A r' = (sm, r'')" by fastforce
    note G = generate_sync_message_keeps [OF g] repo_inv_generate [OF g, of chg blob show_id p']
    show ?thesis using Ok t pc g P F G
      by (cases y) (auto simp: add_message_def Let_def m_def [symmetric] stored_if_ok_def)
  qed
qed

lemma receive_sync_message_stores:
  assumes L: "storage_laws A chg blob base" and inv: "repo_inv A chg blob show_id (r, p)"
    and F: "foreign (chat_id_display show_id (repo_chat_id r)) env"
  shows "stored_if_ok A chg blob show_id r (receive_sync_message A env show_id (Some m) (r, p))"
proof -
  obtain x d s l where t: "am_receive_sync A (doc r) (sync_state r) m = (x, d, s, l)"
    by (metis prod.exhaust)
  have d: "chg (doc r) \<subseteq> chg d" using storage_receive [OF L t] .
  let ?r = "r\<lparr>doc := d, sync_state := s\<rparr>"
  have inv1: "repo_inv A chg blob show_id (?r, p)" using repo_inv_grow [OF inv d] .
  show ?thesis
  proof (cases x)
    case (Err e)
    then show ?thesis using t inv1
      by (simp add: receive_sync_message_def receive_changes_def io_bind_def stored_if_ok_def)
  next
    case (Ok u)
    obtain y r' p' where pc: "persist_chat A env show_id (?r, p) = (y, (r', p'))" by (metis prod.exhaust)
    note P = persist_chat_stores [OF L inv1 _ pc]
    obtain sm r'' where g: "generate_sync_message A r' = (sm, r'')" by fastforce
    note G = generate_sync_message_keeps [OF g] repo_inv_generate [OF g, of chg blob show_id p']
    show ?thesis using Ok t pc g P F G
      by (cases y; cases "extract_new_messages_from_patches A r' (am_make_patches A (doc r') l)")
        (auto simp: receive_sync_message_def receive_changes_def io_bind_def stored_if_ok_def)
  qed
qed

lemma reset_doc_state_stores:
  assumes L: "storage_laws A chg blob base" and inv: "repo_inv A chg blob show_id (r, p)"
    and F: "foreign (chat_id_display show_id (repo_chat_id r)) env"
  shows "stored_if_ok A chg blob show_id r (reset_doc_state_to_persisted A env show_id (r, p))"
proof -
  obtain e where e: "last_saved_heads r = am_get_heads A e" "chg e \<subseteq> chg (doc r)"
    "db_holds A chg blob (chat_id_display show_id (repo_chat_id r)) (pool_db p) (chg e)"
    using inv unfolding repo_inv_def by auto
  obtain x p' where g: "get_persisted_doc_state A env show_id (repo_chat_id r) p = (x, p')" by fastforce
  note H = get_persisted_doc_state_holds [OF L F e(3) g]
  show ?thesis
  proof (cases x)
    case (Ok y)
    obtain d hs where "y = (d, hs)" by fastforce
    then show ?thesis using Ok g H(1) H(2) [of d hs]
      by (auto simp: reset_doc_state_to_persisted_def stored_if_ok_def reset_sync_state_def repo_inv_def)
  next
    case (Err f)
    then show ?thesis using g H(1) e
      by (auto simp: reset_doc_state_to_persisted_def stored_if_ok_def repo_inv_def)
  qed
qed

lemma reload_holds:
  assumes L: "storage_laws A chg blob base" and F: "foreign (chat_id_display show_id c) env"
    and hold: "db_holds A chg blob (chat_id_display show_id c) (pool_db p) (chg e)"
    and run: "new_repository A env show_id c p = (res, p')"
  shows "res = Ok r \<Longrightarrow> repo_inv A chg blob show_id (r, p') \<and> chg (doc r) = chg e \<and> repo_chat_id r = c"
    and "(\<And>n. fault env n = None) \<Longrightarrow> \<exists>r. res = Ok r"
proof -
  obtain x p1 where g: "get_persisted_doc_state A env show_id c p = (x, p1)" by fastforce
  note H = get_persisted_doc_state_holds [OF L F hold g]
  show "repo_inv A chg blob show_id (r, p') \<and> chg (doc r) = chg e \<and> repo_chat_id r = c" if "res = Ok r"
  proof -
    from run that g obtain d hs where "x = Ok (d, hs)" "p' = p1"
      "r = \<lparr>repo_chat_id = c, doc = d, sync_state = am_sync_new A, last_saved_heads = hs,
        sync_status_tx = watch_channel False\<rparr>"
      by (auto simp: new_repository_def io_bind_def split: result.splits)
    then show ?thesis using H(1) H(2) [of d hs] by (auto simp: repo_inv_def)
  qed
  show "\<exists>r. res = Ok r" if "\<And>n. fault env n = None"
    using H(3) [OF that] run g by (auto simp: new_repository_def io_bind_def)
qed

text \<open>A chat that has never been stored.\<close>

definition fresh_chat :: "string \<Rightarrow> db \<Rightarrow> bool" where
  "fresh_chat cid d \<longleftrightarrow> map_of (chats d) cid = None \<and> chat_rows cid d = []"

lemma create_snapshot_holds:
  assumes F: "foreign cid env" and fresh: "fresh_chat cid (pool_db p)"
    and run: "create_snapshot A env cid p = (Ok y, p')"
  shows "\<exists>d. y = Some (d, am_get_heads A d) \<and> db_holds A chg blob cid (pool_db p') (chg d)"
proof -
  let ?d = "fold apply_write (others env (pool_tick p)) (pool_db p)"
  have new: "cid \<notin> fst ` set (chats ?d)" "chat_rows cid ?d = []"
    using fresh F by (simp_all add: fresh_chat_def foreign_def apply_foreign_writes flip: map_of_eq_None_iff)
  then have ins: "insert_or_ignore_chat cid bs ?d = (Ok 1, ?d\<lparr>chats := chats ?d @ [(cid, bs)]\<rparr>)" for bs
    by (simp add: insert_or_ignore_chat_def)
  obtain d where "y = Some (d, am_get_heads A d)"
      "pool_db p' = ?d\<lparr>chats := chats ?d @ [(cid, am_save A d)]\<rparr>"
    using run ins
    by (auto simp: create_snapshot_def result_simps exec_Ok_iff split: result.splits prod.splits)
  moreover have "map_of (chats ?d) cid = None"
    using new(1) by (simp add: map_of_eq_None_iff)
  ultimately show ?thesis
    using new(2) by (auto simp: db_holds_def chat_rows_def map_add_def)
qed

lemma new_repository_fresh:
  assumes F: "foreign (chat_id_display show_id c) env"
    and fresh: "fresh_chat (chat_id_display show_id c) (pool_db p)"
    and run: "new_repository A env show_id c p = (Ok r, p')"
  shows "repo_inv A chg blob show_id (r, p') \<and> repo_chat_id r = c"
proof -
  let ?cid = "chat_id_display show_id c"
  let ?d = "fold apply_write (others env (pool_tick p)) (pool_db p)"
  let ?q = "\<lparr>pool_db = ?d, pool_tick = Suc (pool_tick p)\<rparr>"
  have fq: "fresh_chat ?cid (pool_db ?q)"
    using fresh F by (simp add: fresh_chat_def foreign_def apply_foreign_writes)
  obtain d hs where g: "get_persisted_doc_state A env show_id c p = (Ok (d, hs), p')"
    and r: "r = \<lparr>repo_chat_id = c, doc = d, sync_state = am_sync_new A, last_saved_heads = hs,
        sync_status_tx = watch_channel False\<rparr>"
    using run by (auto simp: new_repository_def result_simps)
  have "load_loop A env ?cid 2 p = (Ok (Some (d, hs)), p')"
    using g by (simp add: get_persisted_doc_state_loop)
  moreover have sel: "x = None \<and> q = ?q" if "exec env (select_document ?cid) p = (Ok x, q)" for x q
    using that fq by (simp add: exec_Ok_iff select_document_def fresh_chat_def)
  ultimately obtain y p1 where y: "create_snapshot A env ?cid ?q = (Ok y, p1)"
    and rest: "(case y of Some z \<Rightarrow> (Ok (Some z), p1) | None \<Rightarrow> load_loop A env ?cid 1 p1) = (Ok (Some (d, hs)), p')"
    by (auto simp: numeral_2_eq_2 result_simps split: option.splits)
  obtain d' where "y = Some (d', am_get_heads A d')" "db_holds A chg blob ?cid (pool_db p1) (chg d')"
    using create_snapshot_holds [OF F fq y] by blast
  then show ?thesis using rest r by (auto simp: repo_inv_def)
qed

section \<open>Everything a repository does\<close>

text \<open>
  A chat is created, and then messages are added and received, the document is reset to what is
  stored, and the application restarts, in any order, with any statement failing and with the rest
  of the program writing to other chats.
\<close>

inductive repo_init ::
  "('d, 't, 'o, 'h, 's, 'm, 'l) automerge \<Rightarrow> ('id::linorder \<Rightarrow> string)
     \<Rightarrow> ('id, 'd, 'h, 's) chat_repository \<times> pool \<Rightarrow> bool"
  for A show_id where
  "foreign (chat_id_display show_id c) env \<Longrightarrow> fresh_chat (chat_id_display show_id c) (pool_db p) \<Longrightarrow>
     new_repository A env show_id c p = (Ok r, p') \<Longrightarrow> repo_init A show_id (r, p')"

inductive repo_move ::
  "('d, 't, 'o, 'h, 's, 'm, 'l) automerge \<Rightarrow> ('id::linorder \<Rightarrow> string)
     \<Rightarrow> ('id, 'd, 'h, 's) chat_repository \<times> pool \<Rightarrow> ('id, 'd, 'h, 's) chat_repository \<times> pool \<Rightarrow> bool"
  for A show_id where
  move_add: "foreign (chat_id_display show_id (repo_chat_id r)) env \<Longrightarrow>
     repo_move A show_id (r, p) (snd (add_message A env show_id now i c (r, p)))"
| move_receive: "foreign (chat_id_display show_id (repo_chat_id r)) env \<Longrightarrow>
     repo_move A show_id (r, p) (snd (receive_sync_message A env show_id m (r, p)))"
| move_reset: "foreign (chat_id_display show_id (repo_chat_id r)) env \<Longrightarrow>
     repo_move A show_id (r, p) (snd (reset_doc_state_to_persisted A env show_id (r, p)))"
| move_reset_sync: "repo_move A show_id (r, p) (reset_sync_state A r, p)"
| move_generate: "repo_move A show_id (r, p) (snd (generate_sync_message A r), p)"
| move_restart: "foreign (chat_id_display show_id (repo_chat_id r)) env \<Longrightarrow>
     new_repository A env show_id (repo_chat_id r) p = (Ok r', p') \<Longrightarrow>
     repo_move A show_id (r, p) (r', p')"

lemma stored_if_ok_inv:
  "stored_if_ok A chg blob show_id r x \<Longrightarrow> repo_inv A chg blob show_id (snd x)"
  by (auto simp: stored_if_ok_def)

lemma generate_keeps_inv:
  "repo_inv A chg blob show_id (r, p) \<Longrightarrow> repo_inv A chg blob show_id (snd (generate_sync_message A r), p)"
  by (cases "generate_sync_message A r") (simp add: repo_inv_generate)

lemma receive_keeps_inv:
  assumes "storage_laws A chg blob base" "repo_inv A chg blob show_id (r, p)"
    and "foreign (chat_id_display show_id (repo_chat_id r)) env"
  shows "repo_inv A chg blob show_id (snd (receive_sync_message A env show_id m (r, p)))"
proof (cases m)
  case None
  then show ?thesis
    using generate_keeps_inv [OF assms(2)]
    by (auto simp: receive_sync_message_def receive_changes_def io_bind_def split: prod.splits)
next
  case (Some x)
  then show ?thesis
    using stored_if_ok_inv [OF receive_sync_message_stores [OF assms]] by simp
qed

lemma repo_move_inv:
  assumes L: "storage_laws A chg blob base" and "repo_move A show_id s s'"
    and "repo_inv A chg blob show_id s"
  shows "repo_inv A chg blob show_id s'"
  using assms(2,3)
proof (induction rule: repo_move.induct)
  case (move_add r env p now i c)
  then show ?case using stored_if_ok_inv [OF add_message_stores [OF L]] by blast
next
  case (move_receive r env p m)
  then show ?case using receive_keeps_inv [OF L] by blast
next
  case (move_reset r env p)
  then show ?case using stored_if_ok_inv [OF reset_doc_state_stores [OF L]] by blast
next
  case (move_reset_sync r p)
  then show ?case by (simp add: reset_sync_state_def repo_inv_def)
next
  case (move_generate r p)
  then show ?case by (rule generate_keeps_inv)
next
  case (move_restart r env p r' p')
  then obtain e where "db_holds A chg blob (chat_id_display show_id (repo_chat_id r)) (pool_db p) (chg e)"
    by (auto simp: repo_inv_def)
  then show ?case using reload_holds(1) [OF L move_restart(1) _ move_restart(2)] by blast
qed

interpretation repo: invariant_system "repo_init A show_id" "repo_move A show_id"
  "\<lambda>s. storage_laws A chg blob base \<longrightarrow> repo_inv A chg blob show_id s"
  for A :: "('d, 't, 'o, 'h, 's, 'm, 'l) automerge" and show_id :: "'id::linorder \<Rightarrow> string"
    and chg :: "'d \<Rightarrow> 'c set" and blob base
proof unfold_locales
  fix s assume "repo_init A show_id s"
  then show "storage_laws A chg blob base \<longrightarrow> repo_inv A chg blob show_id s"
    by cases (use new_repository_fresh in blast)
next
  fix s t
  assume "storage_laws A chg blob base \<longrightarrow> repo_inv A chg blob show_id s" "repo_move A show_id s t"
  then show "storage_laws A chg blob base \<longrightarrow> repo_inv A chg blob show_id t"
    using repo_move_inv by blast
qed

lemma restart_from_inv:
  assumes "storage_laws A chg blob base" "repo_inv A chg blob show_id (r, p)"
    and "foreign (chat_id_display show_id (repo_chat_id r)) env" "\<forall>n. fault env n = None"
  shows "\<exists>e r' p'. last_saved_heads r = am_get_heads A e \<and> chg e \<subseteq> chg (doc r) \<and>
    new_repository A env show_id (repo_chat_id r) p = (Ok r', p') \<and> chg (doc r') = chg e"
proof -
  obtain e where e: "last_saved_heads r = am_get_heads A e" "chg e \<subseteq> chg (doc r)"
    "db_holds A chg blob (chat_id_display show_id (repo_chat_id r)) (pool_db p) (chg e)"
    using assms(2) by (auto simp: repo_inv_def)
  obtain x p' where run: "new_repository A env show_id (repo_chat_id r) p = (x, p')" by fastforce
  show ?thesis
    using reload_holds [OF assms(1,3) e(3) run] assms(4) e(1,2) run by blast
qed

text \<open>
  C1: Whatever happened to a repository since its chat was created, failed statements and failed
  operations included, a restart with a working database succeeds and gives the version of the
  document that was last reported as saved, compacted or not; nothing of that version is missing
  and nothing is added to it.
\<close>

theorem restart_recovers_saved:
  assumes "storage_laws A chg blob base"
    and "reach (repo_init A show_id) (repo_move A show_id) (r, p)"
    and "foreign (chat_id_display show_id (repo_chat_id r)) env" "\<forall>n. fault env n = None"
  shows "\<exists>e r' p'. last_saved_heads r = am_get_heads A e \<and> chg e \<subseteq> chg (doc r) \<and>
    new_repository A env show_id (repo_chat_id r) p = (Ok r', p') \<and> chg (doc r') = chg e"
proof -
  have "repo_inv A chg blob show_id (r, p)"
    using repo.reach_inv [OF assms(2)] assms(1) by blast
  then show ?thesis
    using restart_from_inv [OF assms(1) _ assms(3,4)] by blast
qed

text \<open>
  C7: After a message was added with success, a restarted repository shows the same messages as the
  running one, on every page.
\<close>

theorem added_message_survives_restart:
  assumes "storage_laws A chg blob base"
    and "reach (repo_init A show_id) (repo_move A show_id) (r, p)"
    and "foreign (chat_id_display show_id (repo_chat_id r)) env"
    and "add_message A env show_id now i c (r, p) = (Ok y, (r', p'))"
    and "foreign (chat_id_display show_id (repo_chat_id r)) env'" "\<forall>n. fault env' n = None"
  shows "\<exists>r2 p2. new_repository A env' show_id (repo_chat_id r) p' = (Ok r2, p2) \<and>
    (\<forall>b off lim. get_messages b A r2 off lim = get_messages b A r' off lim)"
proof -
  have "repo_inv A chg blob show_id (r, p)"
    using repo.reach_inv [OF assms(2)] assms(1) by blast
  then have "stored_if_ok A chg blob show_id r (Ok y, (r', p'))"
    using add_message_stores [OF assms(1) _ assms(3), of p now i c] assms(4) by simp
  then have "db_holds A chg blob (chat_id_display show_id (repo_chat_id r)) (pool_db p') (chg (doc r'))"
    by (simp add: stored_if_ok_def)
  moreover obtain x p2 where run: "new_repository A env' show_id (repo_chat_id r) p' = (x, p2)"
    by fastforce
  ultimately obtain r2 where "x = Ok r2" "chg (doc r2) = chg (doc r')"
    using reload_holds [OF assms(1,5) _ run] assms(6) by blast
  then show ?thesis
    using run same_changes_same_messages [OF assms(1), of r2 r'] by blast
qed

section \<open>A storage that satisfies the laws\<close>

text \<open>
  A document as the list of its changes, every change one byte; a chunk is a list of changes and a
  head is a document. It has one list, whose messages are the changes in order.
\<close>

definition byte_message :: "byte \<Rightarrow> chat_message" where
  "byte_message b = \<lparr>msg_id = ''m'', sender_node_id = ''a'', content = Text ''t'', created_at = ucast b,
     updated_at = ucast b\<rparr>"

fun byte_put :: "unit \<Rightarrow> string \<Rightarrow> scalar \<Rightarrow> (bytes \<times> bytes, unit, string) io" where
  "byte_put i k (ScalarInt v) (d, new) = (Ok (), (d, new @ [ucast v]))"
| "byte_put i k (ScalarStr v) (d, new) = (Ok (), (d, new))"

definition bytes_am :: "(bytes, bytes \<times> bytes, unit, bytes, unit, byte, unit) automerge" where
  "bytes_am =
     \<lparr>am_root = (), am_new = [],
      am_load = Ok, am_save = (\<lambda>d. d),
      am_save_after = (\<lambda>d hs. filter (\<lambda>b. b \<notin> set (concat hs)) d),
      am_load_incremental = (\<lambda>d bs. Ok (d @ bs)), am_get_heads = (\<lambda>d. [d]),
      am_keys = (\<lambda>d i. [''msgs_a'']), am_get = (\<lambda>d i k. Ok (Some (Object ObjList, ()))),
      am_length = (\<lambda>d i. length (remdups d)),
      am_hydrate_prop = (\<lambda>d i j. Ok (byte_message (sort (remdups d) ! j))),
      tx_begin = (\<lambda>d. (d, [])), tx_commit = (\<lambda>(d, new). d @ new),
      tx_get = (\<lambda>t i k. Ok (Some (Object ObjList, ()))), tx_length = (\<lambda>t i. 0),
      tx_put_object = (\<lambda>i k ty t. (Ok (), t)), tx_insert_object = (\<lambda>i j ty t. (Ok (), t)),
      tx_put = byte_put, tx_reconcile_init = (\<lambda>c t. (Ok (), t)),
      am_sync_new = (), am_receive_sync = (\<lambda>d s m. (Ok (), d @ [m], s, ())),
      am_make_patches = (\<lambda>_ _. []), am_generate_sync = (\<lambda>d s. (None, s))\<rparr>"

lemma byte_put_base: "fst (snd (byte_put i k v t)) = fst t"
  by (cases t; cases v) auto

lemma sort_remdups_cong:
  "set d = set d' \<Longrightarrow> sort (remdups d) = sort (remdups (d' :: byte list))"
  by (metis sorted_list_of_set_sort_remdups)

lemma length_remdups_cong: "set d = set d' \<Longrightarrow> length (remdups d) = length (remdups d')"
  by (simp add: length_remdups_card_conv)

lemma bytes_am_laws: "storage_laws bytes_am set set fst"
proof -
  have "set d = set d' \<longrightarrow> (\<lambda>i j. Ok (byte_message (sort (remdups d) ! j))) =
      (\<lambda>i j. Ok (byte_message (sort (remdups d') ! j)))" for d d' :: bytes
    using sort_remdups_cong by metis
  moreover have "set d = set d' \<longrightarrow> (\<lambda>i. length (remdups d)) = (\<lambda>i. length (remdups d'))" for d d' :: bytes
    using length_remdups_cong by metis
  ultimately show ?thesis
    unfolding storage_laws_def bytes_am_def
    by (auto simp: byte_put_base filter_empty_conv)
qed

definition calm :: sql_env where
  "calm = \<lparr>fault = \<lambda>_. None, others = \<lambda>_. []\<rparr>"

definition empty_pool :: pool where
  "empty_pool = \<lparr>pool_db = \<lparr>chats = [], chat_log = [], log_sequence = 0\<rparr>, pool_tick = 0\<rparr>"

lemma calm_foreign: "foreign cid calm" "fault calm n = None"
  by (simp_all add: foreign_def calm_def)

lemma empty_pool_fresh: "fresh_chat cid (pool_db empty_pool)"
  by (simp add: fresh_chat_def chat_rows_def empty_pool_def)

definition first_repo :: "(nat, bytes, bytes, unit) chat_repository" where
  "first_repo = \<lparr>repo_chat_id = \<lparr>my_id = 3, chat_remote_id = 5\<rparr>, doc = [], sync_state = (),
     last_saved_heads = [[]], sync_status_tx = watch_channel False\<rparr>"

definition first_pool :: pool where
  "first_pool = \<lparr>pool_db = \<lparr>chats = [(''aaa_aaaaa'', [])], chat_log = [], log_sequence = 0\<rparr>, pool_tick = 2\<rparr>"

lemma first_repo_reach:
  "reach (repo_init bytes_am sample_show) (repo_move bytes_am sample_show) (first_repo, first_pool)"
proof -
  have "new_repository bytes_am calm sample_show \<lparr>my_id = 3, chat_remote_id = 5\<rparr> empty_pool =
      (Ok first_repo, first_pool)"
    by code_simp
  then have "repo_init bytes_am sample_show (first_repo, first_pool)"
    by (rule repo_init.intros [OF calm_foreign(1) empty_pool_fresh])
  then show ?thesis by (rule reach_init)
qed

theorem restart_recovers_saved_witness:
  "\<exists>r' p'. new_repository bytes_am calm sample_show (repo_chat_id first_repo) first_pool = (Ok r', p')"
  using restart_recovers_saved [OF bytes_am_laws first_repo_reach calm_foreign(1)] calm_foreign(2)
  by blast

theorem added_message_survives_restart_witness:
  "\<exists>r' p' r2 p2. snd (add_message bytes_am calm sample_show 7 ''i'' (Text ''hi'') (first_repo, first_pool)) =
       (r', p') \<and>
     new_repository bytes_am calm sample_show (repo_chat_id first_repo) p' = (Ok r2, p2) \<and>
     get_messages Debug bytes_am r2 0 5 = Return (Ok [byte_message 7])"
proof -
  let ?a = "add_message bytes_am calm sample_show 7 ''i'' (Text ''hi'') (first_repo, first_pool)"
  have ok: "is_ok (fst ?a)" by code_simp
  then obtain y r' p' where a: "?a = (Ok y, (r', p'))"
    by (cases ?a) (auto simp: result_simps)
  have "get_all_peer_lists bytes_am (doc (fst (snd ?a))) = Ok [MessageListId ()]"
    "collect_results (map (fetch_list bytes_am (fst (snd ?a)) 5) [MessageListId ()]) = Ok [[byte_message 7]]"
    "page 0 5 (sort_key message_key (concat [[byte_message 7]])) = [byte_message 7]"
    by code_simp+
  then have all: "get_messages Debug bytes_am (fst (snd ?a)) 0 5 = Return (Ok [byte_message 7])"
    by (simp add: get_messages_def usize_add_def usize_max_def)
  show ?thesis
    using added_message_survives_restart [OF bytes_am_laws first_repo_reach calm_foreign(1) a
        calm_foreign(1)] calm_foreign(2) a all by fastforce
qed

section \<open>Synchronisation\<close>

text \<open>
  The answer to a sync message: the message that the library generates next goes out, as
  \<open>Some (Some m)\<close>; when it generates none, the peer is told so with \<open>Some None\<close>, unless it had
  itself nothing to say, in which case nothing is sent. An exchange in which both sides have
  nothing to say is therefore over. The published status is whether there was nothing to send.
\<close>

lemma sync_answers:
  assumes "receive_sync_message A env show_id m (r, p) = (Ok (new_messages, answer), (r', p'))"
  shows "\<exists>r1. receive_changes A env show_id m (r, p) = (Ok new_messages, (r1, p')) \<and>
      am_generate_sync A (doc r1) (sync_state r1) =
        (case answer of None \<Rightarrow> None | Some x \<Rightarrow> x, sync_state r') \<and> doc r' = doc r1 \<and>
      (answer = None \<longrightarrow> m = None) \<and> (answer = Some None \<longrightarrow> m \<noteq> None) \<and>
      (watch_value (sync_status_tx r') \<longleftrightarrow> answer = None \<or> answer = Some None)"
proof -
  obtain r1 p1 where r1: "receive_changes A env show_id m (r, p) = (Ok new_messages, (r1, p1))"
    and g: "(case generate_sync_message A r1 of (out, r2) \<Rightarrow>
      (Ok (new_messages, if m = None \<and> out = None then None else Some out), (r2, p1))) =
      (Ok (new_messages, answer), (r', p'))"
    using assms unfolding receive_sync_message_def io_bind_Ok_iff by (fastforce split: prod.splits)
  obtain out s where "am_generate_sync A (doc r1) (sync_state r1) = (out, s)" by fastforce
  with g r1 show ?thesis
    by (intro exI [of _ r1])
      (cases out; auto simp: generate_sync_message_def split: if_splits)
qed

section \<open>The log stays short\<close>

text \<open>What loading leaves of a log: all of it, or nothing when it was too long.\<close>

definition rows_left :: "nat \<Rightarrow> nat" where
  "rows_left n = (if n > CHAT_LOGS_LIMIT then 0 else n)"

lemma compact_rows:
  assumes F: "foreign cid env" and rows: "rows = sort_key row_id (chat_rows cid (pool_db p))"
    and run: "compact A env cid x rows p = (Ok (), p')"
  shows "length (chat_rows cid (pool_db p')) = rows_left (length rows)"
proof (cases "length rows > CHAT_LOGS_LIMIT")
  case False
  then show ?thesis using run rows by (simp add: compact_def rows_left_def)
next
  case True
  let ?d = "fold apply_write (others env (pool_tick p)) (pool_db p)"
  have same: "chat_rows cid ?d = chat_rows cid (pool_db p)"
    using F by (simp add: apply_foreign_writes foreign_def)
  have "row_id r \<le> row_id (last rows)" if "r \<in> set (chat_rows cid ?d)" for r
    using that last_sorted_key [of r rows row_id] by (simp add: same rows)
  then have "chat_rows cid (snd (delete_log_upto cid (row_id (last rows))
      (snd (update_document cid (am_save A x) ?d)))) = []"
    by (auto simp: chat_rows_def delete_log_upto_def update_document_def filter_empty_conv)
  moreover have "rows \<noteq> []" using True by auto
  ultimately show ?thesis
    using run True by (auto simp: compact_def exec_both_def Let_def rows_left_def split: option.splits)
qed

lemma load_snapshot_rows:
  assumes F: "foreign cid env" and run: "load_snapshot A env cid b p = (Ok y, p')"
  shows "length (chat_rows cid (pool_db p')) = rows_left (length (chat_rows cid (pool_db p)))"
proof -
  obtain rows q where sel: "exec env (select_log cid) p = (Ok rows, q)"
    and rest: "rows = [] \<and> p' = q \<or> (\<exists>x. compact A env cid x rows q = (Ok (), p'))"
    using run unfolding load_snapshot_def by (auto simp: result_simps split: if_splits)
  have rows: "rows = sort_key row_id (chat_rows cid (pool_db q))" "chat_rows cid (pool_db q) = chat_rows cid (pool_db p)"
    using sel F by (auto simp: exec_Ok_iff select_log_def chat_rows_def [symmetric] apply_foreign_writes foreign_def)
  from rest show ?thesis
  proof
    assume none: "rows = [] \<and> p' = q"
    then have "chat_rows cid (pool_db p) = []" using rows by (metis length_sort length_0_conv)
    then show ?thesis using none rows(2) by (simp add: rows_left_def)
  next
    assume "\<exists>x. compact A env cid x rows q = (Ok (), p')"
    then show ?thesis using compact_rows [OF F rows(1)] rows by auto
  qed
qed

lemma get_persisted_rows:
  assumes F: "foreign (chat_id_display show_id c) env"
    and hold: "db_holds A chg blob (chat_id_display show_id c) (pool_db p) C"
    and run: "get_persisted_doc_state A env show_id c p = (Ok y, p')"
  shows "length (chat_rows (chat_id_display show_id c) (pool_db p')) =
    rows_left (length (chat_rows (chat_id_display show_id c) (pool_db p)))"
proof -
  let ?cid = "chat_id_display show_id c"
  let ?d = "fold apply_write (others env (pool_tick p)) (pool_db p)"
  have "\<exists>b. map_of (chats ?d) ?cid = Some b"
    using hold db_holds_foreign [OF F] unfolding db_holds_def by metis
  moreover have "load_loop A env ?cid 2 p = (Ok (Some y), p')"
    using run by (simp add: get_persisted_doc_state_loop)
  ultimately obtain b q where q: "load_snapshot A env ?cid b q = (Ok y, p')" "pool_db q = ?d"
    by (auto simp: numeral_2_eq_2 result_simps exec_Ok_iff select_document_def)
  then show ?thesis
    using load_snapshot_rows [OF F q(1)] F by (simp add: apply_foreign_writes foreign_def)
qed

text \<open>
  C28: A stored chat that was loaded with success has at most \<open>CHAT_LOGS_LIMIT\<close> rows in its log: a
  longer log is folded into the snapshot and emptied, a shorter one stays as it was, and the
  database holds the same changes as before.
\<close>

theorem load_bounds_log:
  assumes "storage_laws A chg blob base" "foreign (chat_id_display show_id c) env"
    and "db_holds A chg blob (chat_id_display show_id c) (pool_db p) (chg e)"
    and "get_persisted_doc_state A env show_id c p = (Ok (d, hs), p')"
  shows "length (chat_rows (chat_id_display show_id c) (pool_db p')) =
      (let n = length (chat_rows (chat_id_display show_id c) (pool_db p)) in if n > CHAT_LOGS_LIMIT then 0 else n) \<and>
    chg d = chg e \<and> db_holds A chg blob (chat_id_display show_id c) (pool_db p') (chg e)"
  using get_persisted_rows [OF assms(2-4)] get_persisted_doc_state_holds [OF assms]
  by (simp add: rows_left_def Let_def)

theorem load_bounds_log_witness:
  "\<exists>y p'. get_persisted_doc_state bytes_am calm sample_show (repo_chat_id first_repo) first_pool = (Ok y, p') \<and>
    length (chat_rows (chat_id_display sample_show (repo_chat_id first_repo)) (pool_db p')) = 0"
proof -
  let ?g = "get_persisted_doc_state bytes_am calm sample_show (repo_chat_id first_repo) first_pool"
  have "fst ?g = Ok ([], [[]])" by code_simp
  then obtain p' where g: "?g = (Ok ([], [[]]), p')" by (metis prod.exhaust_sel)
  have rows: "map_of (chats (pool_db first_pool)) (chat_id_display sample_show (repo_chat_id first_repo)) = Some []"
    "chat_rows (chat_id_display sample_show (repo_chat_id first_repo)) (pool_db first_pool) = []"
    by code_simp+
  then have "db_holds bytes_am set set (chat_id_display sample_show (repo_chat_id first_repo))
      (pool_db first_pool) (set ([] :: bytes))"
    unfolding db_holds_def by (simp add: bytes_am_def)
  then show ?thesis
    using load_bounds_log [OF bytes_am_laws calm_foreign(1) _ g, of "[]"] g rows(2) by simp
qed

section \<open>Adding a message\<close>

lemma mset_concat_distinct: "distinct xs \<Longrightarrow> mset (concat (map f xs)) = (\<Sum>x\<in>set xs. mset (f x))"
  by (induction xs) auto

definition view_messages :: "(string \<rightharpoonup> chat_message list) \<Rightarrow> chat_message multiset" where
  "view_messages v = (\<Sum>p\<in>dom v. mset (the (v p)))"

lemma view_messages_update:
  assumes "finite (dom v)"
  shows "view_messages (v(p \<mapsto> case_option [] id (v p) @ [m])) = add_mset m (view_messages v)"
proof -
  let ?v = "v(p \<mapsto> case_option [] id (v p) @ [m])"
  have "view_messages ?v = mset (case_option [] id (v p) @ [m]) + (\<Sum>q\<in>dom v - {p}. mset (the (?v q)))"
    using assms by (simp add: view_messages_def sum.insert_remove)
  moreover have "(\<Sum>q\<in>dom v - {p}. mset (the (?v q))) = (\<Sum>q\<in>dom v - {p}. mset (the (v q)))"
    by (rule sum.cong) auto
  moreover have "mset (case_option [] id (v p)) + (\<Sum>q\<in>dom v - {p}. mset (the (v q))) = view_messages v"
    using assms sum.remove [of "dom v" p "\<lambda>q. mset (the (v q))"]
    by (cases "v p") (auto simp: view_messages_def domIff)
  ultimately show ?thesis by (simp del: fun_upd_apply)
qed

lemma repo_holds_view:
  assumes "doc_laws A h g" "chat_objects (am_root A) (g (doc r))"
  obtains yss where "repo_holds A r yss" "mset (concat yss) = view_messages (peer_view (am_root A) (g (doc r)))"
    "finite (dom (peer_view (am_root A) (g (doc r))))"
proof -
  let ?v = "peer_view (am_root A) (g (doc r))"
  obtain ls where ls: "get_all_peer_lists A (doc r) = Ok ls"
    "map (\<lambda>l. map (\<lambda>i. am_hydrate_prop A (doc r) (list_inner l) i) [0..<list_len A (doc r) l]) ls =
       map (\<lambda>p. map Ok (the (?v p))) (doc_peers A (doc r))"
    "distinct (doc_peers A (doc r))" "set (doc_peers A (doc r)) = dom ?v"
    by (rule get_all_peer_lists_view [OF assms])
  let ?yss = "map (\<lambda>p. the (?v p)) (doc_peers A (doc r))"
  have "repo_holds A r ?yss"
    unfolding repo_holds_def using ls(1,2) by (auto simp: comp_def)
  moreover have "mset (concat ?yss) = view_messages ?v"
    using mset_concat_distinct [OF ls(3)] by (simp add: view_messages_def ls(4))
  moreover have "finite (dom ?v)" using ls(4) by (metis List.finite_set)
  ultimately show thesis by (rule that)
qed

lemma add_message_doc:
  assumes "add_message A env show_id now i c (r, p) = (x, (r', p'))"
    and "transact A (io_bind (ensure_peer_list A (show_id (my_id (repo_chat_id r)))) (\<lambda>l. append_message A l
      \<lparr>msg_id = i, sender_node_id = show_id (my_id (repo_chat_id r)), content = c, created_at = now,
       updated_at = now\<rparr>)) (doc r) = (Ok (), d)"
  shows "doc r' = d \<and> (\<forall>m sm. x = Ok (m, sm) \<longrightarrow>
      m = \<lparr>msg_id = i, sender_node_id = show_id (my_id (repo_chat_id r)), content = c,
           created_at = now, updated_at = now\<rparr>)"
proof -
  obtain y r1 p1 where pc: "persist_chat A env show_id (r\<lparr>doc := d\<rparr>, p) = (y, (r1, p1))"
    by (metis prod.exhaust)
  then have "doc r1 = d"
    by (auto simp: persist_chat_def Let_def split: if_splits prod.splits result.splits)
  moreover obtain sm r2 where g: "generate_sync_message A r1 = (sm, r2)" by fastforce
  ultimately show ?thesis
    using generate_sync_message_keeps [OF g] assms(1)
    by (cases y) (auto simp: add_message_def Let_def assms(2) pc g)
qed

text \<open>
  C21: A message that was added is shown among all messages, in its place, and no other message is
  lost, doubled or changed. This holds for every outcome: when the database refuses the change,
  the call reports the error, but the message is in the document all the same and will be stored
  and sent with the next change.
\<close>

theorem added_message_is_shown:
  assumes "tx_laws A h" "doc_laws A h g" "chat_objects (am_root A) (g (doc r))"
    and "size (view_messages (peer_view (am_root A) (g (doc r)))) + 1 < usize_max"
    and "add_message A env show_id now i c (r, p) = (x, (r', p'))"
  shows "\<exists>ms ms'. get_all_messages b A r = Return (Ok ms) \<and> get_all_messages b A r' = Return (Ok ms') \<and>
    mset ms' = add_mset \<lparr>msg_id = i, sender_node_id = show_id (my_id (repo_chat_id r)), content = c,
      created_at = now, updated_at = now\<rparr> (mset ms) \<and>
    sorted (map message_key ms') \<and> chat_objects (am_root A) (g (doc r'))"
proof -
  let ?v = "\<lambda>r. peer_view (am_root A) (g (doc r))" and ?me = "show_id (my_id (repo_chat_id r))"
  let ?m = "\<lparr>msg_id = i, sender_node_id = ?me, content = c, created_at = now, updated_at = now\<rparr>"
  obtain d' where d': "transact A (io_bind (ensure_peer_list A ?me) (\<lambda>l. append_message A l ?m)) (doc r)
      = (Ok (), d')" "chat_objects (am_root A) (g d')"
    "peer_view (am_root A) (g d') = (?v r)(?me \<mapsto> case_option [] id (?v r ?me) @ [?m])"
    by (rule store_message_view [OF assms(1-3)])
  have doc: "doc r' = d'" using add_message_doc [OF assms(5) d'(1)] by simp
  obtain yss where yss: "repo_holds A r yss" "mset (concat yss) = view_messages (?v r)"
    "finite (dom (?v r))"
    by (rule repo_holds_view [OF assms(2,3)])
  obtain yss' where yss': "repo_holds A r' yss'" "mset (concat yss') = view_messages (?v r')"
    by (rule repo_holds_view [of A h g r']) (use assms(2) d'(2) doc in simp_all)
  have new: "mset (concat yss') = add_mset ?m (mset (concat yss))"
    unfolding yss' yss doc d'(3) by (rule view_messages_update [OF yss(3)])
  have "length (concat yss) < usize_max" "length (concat yss') < usize_max"
    using assms(4) arg_cong [OF new, of size] arg_cong [OF yss(2), of size] by simp_all
  then show ?thesis
    using all_messages_sorted [OF yss(1), of b] all_messages_sorted [OF yss'(1), of b] new d'(2) doc
    by simp
qed

definition new_repo :: "(nat, ref_doc, unit, unit) chat_repository" where
  "new_repo = sample_repo\<lparr>doc := am_new ref_am\<rparr>"

theorem added_message_is_shown_witness:
  "\<exists>ms'. get_all_messages Debug ref_am (fst (snd (add_message ref_am calm sample_show 6 ''n'' (Text ''hi'')
      (new_repo, first_pool)))) = Return (Ok ms') \<and> length ms' = 1"
proof -
  let ?x = "add_message ref_am calm sample_show 6 ''n'' (Text ''hi'') (new_repo, first_pool)"
  have root: "am_root ref_am = 0" and doc: "doc new_repo = [(0, RefMap [])]"
    by (simp_all add: ref_am_def new_repo_def)
  have c: "chat_objects (am_root ref_am) (ref_objects (doc new_repo))"
    by (rule chat_objectsI [where f = Map.empty]) (simp_all add: root doc)
  have v: "view_messages (peer_view (am_root ref_am) (ref_objects (doc new_repo))) = {#}"
    unfolding view_messages_def by (rule sum.neutral) (simp add: peer_view_def root doc domIff)
  obtain x r' p' where x: "?x = (x, (r', p'))" by (metis prod.exhaust)
  have "get_all_peer_lists ref_am (doc new_repo) = Ok []" by code_simp
  then have "get_all_messages Debug ref_am new_repo = Return (Ok [])"
    by (simp add: get_all_messages_def get_messages_def usize_add_def page_def)
  moreover have "size ({#} :: chat_message multiset) + 1 < usize_max" by (simp add: usize_max_def)
  ultimately show ?thesis
    using added_message_is_shown [OF ref_am_tx_laws ref_am_doc_laws c _ x, of Debug] x v
    by (metis add.commute fst_conv size_add_mset size_empty size_mset snd_conv plus_1_eq_Suc
        list.size(3) may_panic.inject result.inject(1) mset.simps(1) One_nat_def)
qed

end
