(* ===== verification/Manager.thy ===== *)
theory Manager
  imports Protocol_Handler Persistence
begin

text \<open>
  The manager of one chat (\<^verbatim>\<open>src/manager.rs\<close>): an actor that owns the repository and the
  connection of the chat, serves the requests of the application, keeps the peer in sync, and tells
  the subscribed user interface about messages, connection states and sync progress. Calls into the
  user interface and answers to callers are recorded in the state of the actor. One turn of the
  actor's loop is a function of that state and of what the surroundings offer in that turn.
\<close>

section \<open>Parameters\<close>

text \<open>The libraries the actor calls, and the build profile.\<close>

record ('id, 'd, 't, 'o, 'h, 's, 'm, 'l) chat_lib =
  lib_am :: "('d, 't, 'o, 'h, 's, 'm, 'l) automerge"
  lib_encode :: "'m \<Rightarrow> bytes"
  lib_decode :: "bytes \<Rightarrow> ('m, string) result"
  lib_show_id :: "'id \<Rightarrow> string"
  lib_uuid_text :: "uuid \<Rightarrow> string"
  lib_build :: build

text \<open>
  What one turn meets: the database, the clock and the fresh identifiers, whether the writer
  channel of the connection and the reply channel of the caller are still open, whether the
  cancellation token was triggered, whether the sync interval has elapsed, and what the connection
  has to read (\<open>None\<close>: nothing yet; \<open>Some None\<close>: its channel is closed).
\<close>

record turn_env =
  env_sql :: sql_env
  env_now :: i64
  env_new_msg_id :: string
  env_new_handle_id :: uuid
  env_send_open :: bool
  env_reply_open :: bool
  env_cancelled :: bool
  env_tick :: bool
  env_incoming :: "proto_message option option"

section \<open>State\<close>

datatype 'id in_message =
    Single chat_message_content nat
  | All nat
  | PassAcceptedConnHandle "'id handle"

record subscribe_message =
  sub_receiver :: nat
  sub_tx :: nat

text \<open>Calls into the \<^verbatim>\<open>ChatManagerReceiver\<close> objects of the user interface, by receiver.\<close>

datatype ui_call =
    ProcessMessages nat "chat_message list"
  | ProcessConnectionState nat uniffi_chat_connection_state
  | ProcessSyncStatus nat bool

datatype reply =
    ReplySingle nat "(chat_message, lib_error) result"
  | ReplyAll nat "(chat_message list, lib_error) result"
  | ReplySubscribe nat

text \<open>
  A channel is its queue, and whether a sender is left. \<open>sync_seen\<close> and \<open>conn_seen\<close> are the
  versions that the two watch receivers have seen.
\<close>

record ('id, 'd, 'h, 's) manager_actor =
  mgr_doc :: "('id, 'd, 'h, 's) chat_repository"
  mgr_pool :: pool
  mgr_conn :: "'id chat_conn"
  in_queue :: "'id in_message list"
  in_senders :: bool
  subscribe_queue :: "subscribe_message list"
  subscribe_senders :: bool
  msg_receiver :: "nat option"
  sync_seen :: nat
  conn_seen :: nat
  reset_doc_state :: bool
  ui_calls :: "ui_call list"
  replies :: "reply list"

section \<open>Handlers\<close>

definition call_ui :: "ui_call \<Rightarrow> ('id, 'd, 'h, 's) manager_actor \<Rightarrow> ('id, 'd, 'h, 's) manager_actor"
where
  "call_ui c a = a\<lparr>ui_calls := ui_calls a @ [c]\<rparr>"

text \<open>A repository operation inside the actor.\<close>

definition with_repo ::
  "(('id, 'd, 'h, 's) chat_repository \<times> pool, 'a, lib_error) io
     \<Rightarrow> ('id, 'd, 'h, 's) manager_actor \<Rightarrow> ('a, lib_error) result \<times> ('id, 'd, 'h, 's) manager_actor"
where
  "with_repo f a =
     (case f (mgr_doc a, mgr_pool a) of (x, (r, p)) \<Rightarrow> (x, a\<lparr>mgr_doc := r, mgr_pool := p\<rparr>))"

definition mgr_generate_sync ::
  "('id, 'd, 't, 'o, 'h, 's, 'm, 'l) chat_lib \<Rightarrow> ('id, 'd, 'h, 's) manager_actor
     \<Rightarrow> 'm option \<times> ('id, 'd, 'h, 's) manager_actor" where
  "mgr_generate_sync L a =
     (case generate_sync_message (lib_am L) (mgr_doc a) of (m, r) \<Rightarrow> (m, a\<lparr>mgr_doc := r\<rparr>))"

definition handle_outgoing_sync_message ::
  "('id, 'd, 't, 'o, 'h, 's, 'm, 'l) chat_lib \<Rightarrow> turn_env \<Rightarrow> 'm option
     \<Rightarrow> ('id, 'd, 'h, 's) manager_actor \<Rightarrow> ('id, 'd, 'h, 's) manager_actor" where
  "handle_outgoing_sync_message L env sync_msg a =
     a\<lparr>mgr_conn := send_message (Sync (map_option (sync_message_from (lib_encode L)) sync_msg))
         (env_send_open env) (mgr_conn a)\<rparr>"

text \<open>Generating the next sync message and sending it, as several handlers do.\<close>

definition sync_now ::
  "('id, 'd, 't, 'o, 'h, 's, 'm, 'l) chat_lib \<Rightarrow> turn_env
     \<Rightarrow> ('id, 'd, 'h, 's) manager_actor \<Rightarrow> ('id, 'd, 'h, 's) manager_actor" where
  "sync_now L env a =
     (case mgr_generate_sync L a of
        (sync_msg, a1) \<Rightarrow> handle_outgoing_sync_message L env sync_msg a1)"

definition announce_state ::
  "('id, 'd, 't, 'o, 'h, 's, 'm, 'l) chat_lib \<Rightarrow> chat_connection_state
     \<Rightarrow> ('id, 'd, 'h, 's) manager_actor \<Rightarrow> ('id, 'd, 'h, 's) manager_actor" where
  "announce_state L new_state a =
     (case msg_receiver a of
        Some k \<Rightarrow> call_ui (ProcessConnectionState k (uniffi_state_from (lib_uuid_text L) new_state)) a
      | None \<Rightarrow> a)"

definition handle_connection_state_change ::
  "('id, 'd, 't, 'o, 'h, 's, 'm, 'l) chat_lib \<Rightarrow> turn_env \<Rightarrow> chat_connection_state
     \<Rightarrow> ('id, 'd, 'h, 's) manager_actor \<Rightarrow> ('id, 'd, 'h, 's) manager_actor" where
  "handle_connection_state_change L env new_state a =
     (let a1 = announce_state L new_state a
      in case new_state of
           Connected _ \<Rightarrow>
             sync_now L env (a1\<lparr>mgr_doc := reset_sync_state (lib_am L) (mgr_doc a1)\<rparr>)
         | _ \<Rightarrow> a1)"

definition handle_subscription ::
  "('id, 'd, 't, 'o, 'h, 's, 'm, 'l) chat_lib \<Rightarrow> turn_env \<Rightarrow> subscribe_message option
     \<Rightarrow> ('id, 'd, 'h, 's) manager_actor \<Rightarrow> (unit, string) result \<times> ('id, 'd, 'h, 's) manager_actor"
where
  "handle_subscription L env subscribe_msg a =
     (case subscribe_msg of
        None \<Rightarrow>
          (Err ''ChatManagerActor: Subscribe message channel is closed. Closing manager...'', a)
      | Some m \<Rightarrow>
          (let is_synced = watch_value (sync_status_tx (mgr_doc a));
               new_conn_state = watch_value (state_notifier (mgr_conn a));
               a1 = call_ui (ProcessSyncStatus (sub_receiver m) is_synced) a;
               a2 = call_ui (ProcessConnectionState (sub_receiver m)
                      (uniffi_state_from (lib_uuid_text L) new_conn_state)) a1;
               a3 = a2\<lparr>msg_receiver := Some (sub_receiver m)\<rparr>
           in (Ok (),
               if env_reply_open env then a3\<lparr>replies := replies a3 @ [ReplySubscribe (sub_tx m)]\<rparr>
               else a3)))"

definition deliver_messages ::
  "chat_message list \<Rightarrow> ('id, 'd, 'h, 's) manager_actor \<Rightarrow> ('id, 'd, 'h, 's) manager_actor" where
  "deliver_messages chunks a =
     (if chunks \<noteq> []
      then (case msg_receiver a of Some k \<Rightarrow> call_ui (ProcessMessages k chunks) a | None \<Rightarrow> a)
      else a)"

text \<open>
  A failed sync message: on the first failure the repository is reset to what is stored and a new
  exchange is started; further failures are only reported, until a message succeeds again.
\<close>

definition recover_sync ::
  "('id::linorder, 'd, 't, 'o, 'h, 's, 'm, 'l) chat_lib \<Rightarrow> turn_env
     \<Rightarrow> ('id, 'd, 'h, 's) manager_actor \<Rightarrow> ('id, 'd, 'h, 's) manager_actor" where
  "recover_sync L env a =
     (if reset_doc_state a then a
      else
        (case with_repo (reset_doc_state_to_persisted (lib_am L) (env_sql env) (lib_show_id L)) a of
           (Ok _, a1) \<Rightarrow> sync_now L env (a1\<lparr>reset_doc_state := True\<rparr>)
         | (Err _, a1) \<Rightarrow> a1))"

fun handle_incomming_message ::
  "('id::linorder, 'd, 't, 'o, 'h, 's, 'm, 'l) chat_lib \<Rightarrow> turn_env \<Rightarrow> proto_message
     \<Rightarrow> ('id, 'd, 'h, 's) manager_actor \<Rightarrow> ('id, 'd, 'h, 's) manager_actor" where
  "handle_incomming_message L env (Sync proto_sync_msg) a =
     (case (case proto_sync_msg of
              Some bs \<Rightarrow> map_ok Some (sync_message_try_into (lib_decode L) bs)
            | None \<Rightarrow> Ok None) of
        Err _ \<Rightarrow> a
      | Ok in_sync_msg \<Rightarrow>
          (case with_repo (receive_sync_message (lib_am L) (env_sql env) (lib_show_id L) in_sync_msg) a of
             (Ok (chunks, reply_action), a1) \<Rightarrow>
               (let a2 = deliver_messages chunks (a1\<lparr>reset_doc_state := False\<rparr>)
                in case reply_action of
                     Some out_sync_msg \<Rightarrow> handle_outgoing_sync_message L env out_sync_msg a2
                   | None \<Rightarrow> a2)
           | (Err _, a1) \<Rightarrow> recover_sync L env a1))"

datatype mgr_status = MgrRunning | MgrExited "(unit, string) result" | MgrPanicked

fun status_of :: "(unit, string) result \<Rightarrow> mgr_status" where
  "status_of (Ok _) = MgrRunning"
| "status_of (Err e) = MgrExited (Err e)"

definition handle_outgoing_message ::
  "('id::linorder, 'd, 't, 'o, 'h, 's, 'm, 'l) chat_lib \<Rightarrow> turn_env \<Rightarrow> 'id in_message option
     \<Rightarrow> ('id, 'd, 'h, 's) manager_actor \<Rightarrow> mgr_status \<times> ('id, 'd, 'h, 's) manager_actor" where
  "handle_outgoing_message L env in_msg a =
     (case in_msg of
        None \<Rightarrow>
          (MgrExited (Err ''ChatManagerActor: Outgoing message channel is closed. Closing manager...''), a)
      | Some (Single msg t) \<Rightarrow>
          (case with_repo (add_message (lib_am L) (env_sql env) (lib_show_id L) (env_now env)
                  (env_new_msg_id env) msg) a of
             (res, a1) \<Rightarrow>
               (let a2 = (case res of
                            Ok (m, sync_msg) \<Rightarrow> handle_outgoing_sync_message L env sync_msg a1
                          | Err _ \<Rightarrow> a1)
                in if env_reply_open env
                   then (MgrRunning, a2\<lparr>replies := replies a2 @ [ReplySingle t (map_ok fst res)]\<rparr>)
                   else (MgrExited (Err ''ChatManagerActor: Failed to return add message result. Channel is closed.''),
                         a2)))
      | Some (All t) \<Rightarrow>
          (case get_all_messages (lib_build L) (lib_am L) (mgr_doc a) of
             Panicked \<Rightarrow> (MgrPanicked, a)
           | Return res \<Rightarrow>
               if env_reply_open env
               then (MgrRunning, a\<lparr>replies := replies a @ [ReplyAll t res]\<rparr>)
               else (MgrExited (Err ''ChatManagerActor: Failed to return all messages. Channel closed.''), a))
      | Some (PassAcceptedConnHandle h) \<Rightarrow>
          (MgrRunning, a\<lparr>mgr_conn := update_handle (env_new_handle_id env) h (mgr_conn a)\<rparr>))"

section \<open>The loop\<close>

fun is_connected :: "chat_connection_state \<Rightarrow> bool" where
  "is_connected (Connected _) = True"
| "is_connected _ = False"

definition handle_tick ::
  "('id, 'd, 't, 'o, 'h, 's, 'm, 'l) chat_lib \<Rightarrow> turn_env
     \<Rightarrow> ('id, 'd, 'h, 's) manager_actor \<Rightarrow> ('id, 'd, 'h, 's) manager_actor" where
  "handle_tick L env a =
     (case watch_value (state_notifier (mgr_conn a)) of
        Connected _ \<Rightarrow> sync_now L env a
      | Disconnected \<Rightarrow> a\<lparr>mgr_conn := reconnect (mgr_conn a)\<rparr>
      | Reconnecting \<Rightarrow> a)"

definition handle_sync_status ::
  "('id, 'd, 'h, 's) manager_actor \<Rightarrow> ('id, 'd, 'h, 's) manager_actor" where
  "handle_sync_status a =
     (let is_synced = watch_value (sync_status_tx (mgr_doc a));
          a1 = a\<lparr>sync_seen := watch_version (sync_status_tx (mgr_doc a))\<rparr>
      in case msg_receiver a1 of
           Some k \<Rightarrow> call_ui (ProcessSyncStatus k is_synced) a1
         | None \<Rightarrow> a1)"

definition handle_conn_changed ::
  "('id, 'd, 't, 'o, 'h, 's, 'm, 'l) chat_lib \<Rightarrow> turn_env
     \<Rightarrow> ('id, 'd, 'h, 's) manager_actor \<Rightarrow> ('id, 'd, 'h, 's) manager_actor" where
  "handle_conn_changed L env a =
     handle_connection_state_change L env (watch_value (state_notifier (mgr_conn a)))
       (a\<lparr>conn_seen := watch_version (state_notifier (mgr_conn a))\<rparr>)"

definition handle_receive ::
  "('id::linorder, 'd, 't, 'o, 'h, 's, 'm, 'l) chat_lib \<Rightarrow> turn_env \<Rightarrow> proto_message option
     \<Rightarrow> ('id, 'd, 'h, 's) manager_actor \<Rightarrow> ('id, 'd, 'h, 's) manager_actor" where
  "handle_receive L env incoming a =
     (case receive incoming (mgr_conn a) of
        (Some msg, c) \<Rightarrow> handle_incomming_message L env msg (a\<lparr>mgr_conn := c\<rparr>)
      | (None, c) \<Rightarrow> a\<lparr>mgr_conn := c\<rparr>)"

text \<open>
  One turn of the biased select: the branches are looked at from top to bottom and the first one
  that is ready runs. When none is ready the actor waits, which changes nothing.
\<close>

definition manager_turn ::
  "('id::linorder, 'd, 't, 'o, 'h, 's, 'm, 'l) chat_lib \<Rightarrow> turn_env
     \<Rightarrow> ('id, 'd, 'h, 's) manager_actor \<Rightarrow> mgr_status \<times> ('id, 'd, 'h, 's) manager_actor" where
  "manager_turn L env a =
     (if env_cancelled env then (MgrExited (Ok ()), a\<lparr>mgr_conn := close (mgr_conn a)\<rparr>)
      else if env_tick env then (MgrRunning, handle_tick L env a)
      else if sync_seen a \<noteq> watch_version (sync_status_tx (mgr_doc a))
      then (MgrRunning, handle_sync_status a)
      else if conn_seen a \<noteq> watch_version (state_notifier (mgr_conn a))
      then (MgrRunning, handle_conn_changed L env a)
      else if subscribe_queue a \<noteq> [] \<or> \<not> subscribe_senders a
      then (case subscribe_queue a of
              m # ms \<Rightarrow> (case handle_subscription L env (Some m) (a\<lparr>subscribe_queue := ms\<rparr>) of
                          (r, a1) \<Rightarrow> (status_of r, a1))
            | [] \<Rightarrow> (case handle_subscription L env None a of (r, a1) \<Rightarrow> (status_of r, a1)))
      else if in_queue a \<noteq> [] \<or> \<not> in_senders a
      then (case in_queue a of
              m # ms \<Rightarrow> handle_outgoing_message L env (Some m) (a\<lparr>in_queue := ms\<rparr>)
            | [] \<Rightarrow> handle_outgoing_message L env None a)
      else (case env_incoming env of
              Some incoming \<Rightarrow>
                if is_connected (watch_value (state_notifier (mgr_conn a)))
                then (MgrRunning, handle_receive L env incoming a)
                else (MgrRunning, a)
            | None \<Rightarrow> (MgrRunning, a)))"

text \<open>
  Before its loop the actor announces the initial connection state; when the loop has ended, the
  spawned task closes the connection.
\<close>

definition manager_start ::
  "('id, 'd, 't, 'o, 'h, 's, 'm, 'l) chat_lib \<Rightarrow> turn_env
     \<Rightarrow> ('id, 'd, 'h, 's) manager_actor \<Rightarrow> ('id, 'd, 'h, 's) manager_actor" where
  "manager_start L env a = handle_conn_changed L env a"

fun manager_run ::
  "('id::linorder, 'd, 't, 'o, 'h, 's, 'm, 'l) chat_lib \<Rightarrow> turn_env list
     \<Rightarrow> ('id, 'd, 'h, 's) manager_actor \<Rightarrow> mgr_status \<times> ('id, 'd, 'h, 's) manager_actor" where
  "manager_run L [] a = (MgrRunning, a)"
| "manager_run L (env # envs) a =
     (case manager_turn L env a of
        (MgrRunning, a1) \<Rightarrow> manager_run L envs a1
      | (st, a1) \<Rightarrow> (st, a1))"

interpretation mgr_loop: actor_loop "manager_turn L" "manager_run L" MgrRunning
  for L :: "('id::linorder, 'd, 't, 'o, 'h, 's, 'm, 'l) chat_lib"
  by unfold_locales (auto split: prod.splits mgr_status.splits)

definition manager_task ::
  "('id::linorder, 'd, 't, 'o, 'h, 's, 'm, 'l) chat_lib \<Rightarrow> turn_env \<Rightarrow> turn_env list
     \<Rightarrow> ('id, 'd, 'h, 's) manager_actor \<Rightarrow> mgr_status \<times> ('id, 'd, 'h, 's) manager_actor" where
  "manager_task L env0 envs a =
     (case manager_run L envs (manager_start L env0 a) of
        (MgrExited r, a1) \<Rightarrow> (MgrExited r, a1\<lparr>mgr_conn := close (mgr_conn a1)\<rparr>)
      | (st, a1) \<Rightarrow> (st, a1))"

definition new_manager ::
  "('id, 'd, 'h, 's) chat_repository \<Rightarrow> pool \<Rightarrow> 'id chat_conn \<Rightarrow> ('id, 'd, 'h, 's) manager_actor" where
  "new_manager r p c =
     \<lparr>mgr_doc = r, mgr_pool = p, mgr_conn = c, in_queue = [], in_senders = True,
      subscribe_queue = [], subscribe_senders = True, msg_receiver = None,
      sync_seen = watch_version (subscribe_to_sync_status r),
      conn_seen = watch_version (subscribe_to_state c),
      reset_doc_state = False, ui_calls = [], replies = []\<rparr>"

section \<open>The interface of the application\<close>

text \<open>
  Every call queues a message for the actor and then waits for the answer. Queueing fails when the
  actor has gone, and waits (\<open>None\<close>) while the queue is full. The answer is \<open>None\<close> when the actor
  dropped the request without answering it.
\<close>

definition CHANNEL_BUFFER :: nat where
  "CHANNEL_BUFFER = 1024"

definition queue_in ::
  "bool \<Rightarrow> string \<Rightarrow> 'id in_message \<Rightarrow> ('id, 'd, 'h, 's) manager_actor
     \<Rightarrow> ((unit, gossip_error) result \<times> ('id, 'd, 'h, 's) manager_actor) option" where
  "queue_in alive err m a =
     (if \<not> alive then Some (Err (gossip_error_from_anyhow err), a)
      else if length (in_queue a) \<ge> CHANNEL_BUFFER then None
      else Some (Ok (), a\<lparr>in_queue := in_queue a @ [m]\<rparr>))"

fun await_answer :: "string \<Rightarrow> ('a, lib_error) result option \<Rightarrow> ('a, gossip_error) result" where
  "await_answer err None = Err (gossip_error_from_anyhow err)"
| "await_answer err (Some r) = map_err gossip_error_from r"

definition manager_subscribe ::
  "bool \<Rightarrow> nat \<Rightarrow> nat \<Rightarrow> ('id, 'd, 'h, 's) manager_actor
     \<Rightarrow> ((unit, gossip_error) result \<times> ('id, 'd, 'h, 's) manager_actor) option" where
  "manager_subscribe alive receiver t a =
     (if \<not> alive
      then Some (Err (gossip_error_from_anyhow
             ''ChatManager: Failed to send subscribe message. Channel closed. Err: channel closed''), a)
      else if length (subscribe_queue a) \<ge> CHANNEL_BUFFER then None
      else Some (Ok (), a\<lparr>subscribe_queue :=
             subscribe_queue a @ [\<lparr>sub_receiver = receiver, sub_tx = t\<rparr>]\<rparr>))"

definition manager_subscribe_result ::
  "(unit, lib_error) result option \<Rightarrow> (unit, gossip_error) result" where
  "manager_subscribe_result =
     await_answer ''ChatManager: Failed to receive subscribe result. Channel closed. Err: channel closed''"

definition manager_send_message ::
  "bool \<Rightarrow> chat_message_content \<Rightarrow> nat \<Rightarrow> ('id, 'd, 'h, 's) manager_actor
     \<Rightarrow> ((unit, gossip_error) result \<times> ('id, 'd, 'h, 's) manager_actor) option" where
  "manager_send_message alive msg t =
     queue_in alive ''ChatManager: Failed to send InMessage::Single. Channel closed. Err: channel closed''
       (Single msg t)"

definition manager_send_message_result ::
  "(chat_message, lib_error) result option \<Rightarrow> (chat_message, gossip_error) result" where
  "manager_send_message_result =
     await_answer ''ChatManager: Failed to receive send_message result. Channel closed. Err: channel closed''"

definition manager_get_all_messages ::
  "bool \<Rightarrow> nat \<Rightarrow> ('id, 'd, 'h, 's) manager_actor
     \<Rightarrow> ((unit, gossip_error) result \<times> ('id, 'd, 'h, 's) manager_actor) option" where
  "manager_get_all_messages alive t =
     queue_in alive ''ChatManager: Failed to send InMessage::All. Channel closed. Err: channel closed''
       (All t)"

definition manager_get_all_messages_result ::
  "(chat_message list, lib_error) result option \<Rightarrow> (chat_message list, gossip_error) result" where
  "manager_get_all_messages_result =
     await_answer ''ChatManager: Failed to receive all messages result. Channel closed. Err: channel closed''"

text \<open>Passing an accepted connection only warns when the actor has gone.\<close>

definition pass_accepted_conn_handle ::
  "bool \<Rightarrow> 'id handle \<Rightarrow> ('id, 'd, 'h, 's) manager_actor \<Rightarrow> ('id, 'd, 'h, 's) manager_actor option"
where
  "pass_accepted_conn_handle alive h a =
     map_option snd (queue_in alive '''' (PassAcceptedConnHandle h) a)"

section \<open>The actor moves its repository and its connection\<close>

text \<open>
  The actor awaits its sends and reads, so between turns none of them is pending.
\<close>

fun awaits :: "conn_task \<Rightarrow> bool" where
  "awaits (AwaitSend _ _ _) = True"
| "awaits (AwaitReceive _) = True"
| "awaits _ = False"

definition no_await :: "'id chat_conn \<Rightarrow> bool" where
  "no_await c \<longleftrightarrow> (\<forall>t\<in>set (tasks c). \<not> awaits t)"

lemma remove1_snoc: "t \<notin> set ts \<Longrightarrow> remove1 t (ts @ [t]) = ts"
  by (simp add: remove1_append)

lemma finish_spawned: "t \<notin> set (tasks c) \<Longrightarrow> finish_task t (spawn t c) = c"
  by (cases c) (simp add: finish_task_def spawn_def remove1_snoc)

lemma send_message_moves:
  assumes "no_await c"
  shows "conn_move\<^sup>*\<^sup>* c (send_message msg is_open c) \<and> no_await (send_message msg is_open c)"
proof (cases "send_target c")
  case None
  then show ?thesis using assms by (simp add: send_message_def)
next
  case (Some x)
  then obtain ch hid where t: "send_target c = Some (ch, hid)" by (cases x) auto
  let ?t = "AwaitSend ch hid msg"
  have fresh: "?t \<notin> set (tasks c)" using assms by (force simp: no_await_def)
  have "conn_move c (spawn ?t c)"
    unfolding conn_move_def using call_send [OF t, of msg] by blast
  moreover have "conn_move (spawn ?t c) (send_finish ch hid msg is_open (finish_task ?t (spawn ?t c)))"
    unfolding conn_move_def using end_send [of ch hid msg "spawn ?t c" is_open]
    by (auto simp: spawn_def)
  ultimately have "conn_move\<^sup>*\<^sup>* c (send_message msg is_open c)"
    using t by (simp add: finish_spawned [OF fresh] send_message_def)
  moreover have "no_await (send_message msg is_open c)"
    using assms t by (auto simp: send_message_def send_finish_def no_await_def spawn_def)
  ultimately show ?thesis ..
qed

lemma receive_moves:
  assumes "no_await c"
  shows "conn_move\<^sup>*\<^sup>* c (snd (receive incoming c)) \<and> no_await (snd (receive incoming c))"
proof (cases "receive_target c")
  case None
  then show ?thesis using assms by (simp add: receive_def)
next
  case (Some hid)
  let ?t = "AwaitReceive hid"
  have fresh: "?t \<notin> set (tasks c)" using assms by (force simp: no_await_def)
  have "conn_move c (spawn ?t c)"
    unfolding conn_move_def using call_receive [OF Some] by blast
  moreover have "conn_move (spawn ?t c) (snd (receive_finish hid incoming (finish_task ?t (spawn ?t c))))"
    unfolding conn_move_def using end_receive [of hid "spawn ?t c" incoming]
    by (auto simp: spawn_def)
  ultimately have "conn_move\<^sup>*\<^sup>* c (snd (receive incoming c))"
    using Some by (simp add: finish_spawned [OF fresh] receive_def)
  moreover have "no_await (snd (receive incoming c))"
    using assms Some by (auto simp: receive_def receive_finish_def no_await_def spawn_def split: option.splits)
  ultimately show ?thesis ..
qed

lemma other_conn_moves:
  "conn_move c (reconnect c)" "conn_move c (close c)" "conn_move c (update_handle u h c)"
  by (auto simp: conn_move_def intro: conn_step.intros)

lemma other_conn_no_await:
  "no_await c \<Longrightarrow> no_await (reconnect c)" "no_await c \<Longrightarrow> no_await (close c)"
  "no_await c \<Longrightarrow> no_await (update_handle u h c)"
  by (auto simp: no_await_def conn_defs Let_def split: internal_conn_state.splits)

text \<open>
  What a handler does to the actor it starts from: moves of the repository and of the connection.
\<close>

definition mgr_moves ::
  "('id::linorder, 'd, 't, 'o, 'h, 's, 'm, 'l) chat_lib \<Rightarrow> ('id, 'd, 'h, 's) manager_actor
     \<Rightarrow> ('id, 'd, 'h, 's) manager_actor \<Rightarrow> bool" where
  "mgr_moves L a b \<longleftrightarrow>
     (repo_move (lib_am L) (lib_show_id L))\<^sup>*\<^sup>* (mgr_doc a, mgr_pool a) (mgr_doc b, mgr_pool b) \<and>
     repo_chat_id (mgr_doc b) = repo_chat_id (mgr_doc a) \<and>
     conn_move\<^sup>*\<^sup>* (mgr_conn a) (mgr_conn b) \<and> (no_await (mgr_conn a) \<longrightarrow> no_await (mgr_conn b))"

lemma mgr_moves_refl [simp, intro]: "mgr_moves L a a"
  by (simp add: mgr_moves_def)

lemma mgr_moves_trans: "mgr_moves L a b \<Longrightarrow> mgr_moves L b c \<Longrightarrow> mgr_moves L a c"
  by (auto simp: mgr_moves_def)

lemma mgr_moves_cong:
  "mgr_doc b = mgr_doc b' \<Longrightarrow> mgr_pool b = mgr_pool b' \<Longrightarrow> mgr_conn b = mgr_conn b' \<Longrightarrow>
     mgr_moves L a b = mgr_moves L a b'"
  by (simp add: mgr_moves_def)

lemma persist_chat_id: "repo_chat_id (fst (snd (persist_chat A env show_id (r, p)))) = repo_chat_id r"
  by (auto simp: persist_chat_def Let_def split: prod.splits result.splits)

lemma generate_chat_id: "repo_chat_id (snd (generate_sync_message A r)) = repo_chat_id r"
  by (auto simp: generate_sync_message_def split: prod.splits)

lemma add_message_chat_id:
  "repo_chat_id (fst (snd (add_message A env show_id now i c (r, p)))) = repo_chat_id r"
  using persist_chat_id [of A env show_id "r\<lparr>doc := d\<rparr>" p for d]
  by (auto simp: add_message_def Let_def split: prod.splits result.splits
      dest!: generate_sync_message_keeps) (metis fst_conv snd_conv)+

lemma receive_chat_id:
  "repo_chat_id (fst (snd (receive_sync_message A env show_id m (r, p)))) = repo_chat_id r"
proof -
  have 1: "repo_chat_id (fst (snd (receive_changes A env show_id m (r, p)))) = repo_chat_id r"
    using persist_chat_id [of A env show_id "r\<lparr>doc := d, sync_state := s\<rparr>" p for d s]
    by (auto simp: receive_changes_def io_bind_def split: option.splits prod.splits result.splits)
      (metis fst_conv snd_conv)+
  show ?thesis
    using 1 by (auto simp: receive_sync_message_def io_bind_def split: prod.splits result.splits
        dest: generate_sync_message_keeps)
qed

lemma reset_chat_id:
  "repo_chat_id (fst (snd (reset_doc_state_to_persisted A env show_id (r, p)))) = repo_chat_id r"
  by (auto simp: reset_doc_state_to_persisted_def reset_sync_state_def split: prod.splits result.splits)

lemma with_repo_moves:
  assumes "repo_move (lib_am L) (lib_show_id L) (mgr_doc a, mgr_pool a) (snd (f (mgr_doc a, mgr_pool a)))"
    and "repo_chat_id (fst (snd (f (mgr_doc a, mgr_pool a)))) = repo_chat_id (mgr_doc a)"
    and "with_repo f a = (x, b)"
  shows "mgr_moves L a b"
  using assms by (auto simp: with_repo_def mgr_moves_def split: prod.splits)

lemma generate_moves:
  assumes "mgr_generate_sync L a = (m, b)"
  shows "mgr_moves L a b"
  using assms generate_chat_id [of "lib_am L" "mgr_doc a"]
    move_generate [of "lib_am L" "lib_show_id L" "mgr_doc a" "mgr_pool a"]
  by (auto simp: mgr_generate_sync_def mgr_moves_def split: prod.splits)

lemma outgoing_sync_moves:
  "no_await (mgr_conn a) \<Longrightarrow> mgr_moves L a (handle_outgoing_sync_message L env m a)"
  using send_message_moves [of "mgr_conn a"]
  by (simp add: handle_outgoing_sync_message_def mgr_moves_def)

lemma sync_now_moves:
  assumes "no_await (mgr_conn a)"
  shows "mgr_moves L a (sync_now L env a)"
proof -
  obtain m b where g: "mgr_generate_sync L a = (m, b)" by fastforce
  then have "mgr_conn b = mgr_conn a"
    by (auto simp: mgr_generate_sync_def split: prod.splits)
  then show ?thesis
    using mgr_moves_trans [OF generate_moves [OF g] outgoing_sync_moves] assms g
    by (simp add: sync_now_def)
qed

lemma call_ui_fields [simp]:
  "mgr_doc (call_ui u a) = mgr_doc a" "mgr_pool (call_ui u a) = mgr_pool a"
  "mgr_conn (call_ui u a) = mgr_conn a" "msg_receiver (call_ui u a) = msg_receiver a"
  "in_queue (call_ui u a) = in_queue a" "subscribe_queue (call_ui u a) = subscribe_queue a"
  "sync_seen (call_ui u a) = sync_seen a" "conn_seen (call_ui u a) = conn_seen a"
  "replies (call_ui u a) = replies a" "ui_calls (call_ui u a) = ui_calls a @ [u]"
  "reset_doc_state (call_ui u a) = reset_doc_state a"
  "in_senders (call_ui u a) = in_senders a" "subscribe_senders (call_ui u a) = subscribe_senders a"
  by (simp_all add: call_ui_def)

lemma announce_state_fields [simp]:
  "mgr_doc (announce_state L st a) = mgr_doc a" "mgr_pool (announce_state L st a) = mgr_pool a"
  "mgr_conn (announce_state L st a) = mgr_conn a" "msg_receiver (announce_state L st a) = msg_receiver a"
  "in_queue (announce_state L st a) = in_queue a"
  "subscribe_queue (announce_state L st a) = subscribe_queue a"
  "sync_seen (announce_state L st a) = sync_seen a" "conn_seen (announce_state L st a) = conn_seen a"
  "replies (announce_state L st a) = replies a" "reset_doc_state (announce_state L st a) = reset_doc_state a"
  by (simp_all add: announce_state_def split: option.splits)

lemma deliver_messages_fields [simp]:
  "mgr_doc (deliver_messages ms a) = mgr_doc a" "mgr_pool (deliver_messages ms a) = mgr_pool a"
  "mgr_conn (deliver_messages ms a) = mgr_conn a"
  "msg_receiver (deliver_messages ms a) = msg_receiver a"
  "in_queue (deliver_messages ms a) = in_queue a"
  "subscribe_queue (deliver_messages ms a) = subscribe_queue a"
  "sync_seen (deliver_messages ms a) = sync_seen a" "conn_seen (deliver_messages ms a) = conn_seen a"
  "replies (deliver_messages ms a) = replies a"
  "reset_doc_state (deliver_messages ms a) = reset_doc_state a"
  by (simp_all add: deliver_messages_def split: option.splits)

lemma state_change_moves:
  assumes "no_await (mgr_conn a)"
  shows "mgr_moves L a (handle_connection_state_change L env st a)"
proof -
  let ?a1 = "announce_state L st a"
  let ?a2 = "?a1\<lparr>mgr_doc := reset_sync_state (lib_am L) (mgr_doc ?a1)\<rparr>"
  have m1: "mgr_moves L a ?a1" by (simp add: mgr_moves_def)
  have m2: "mgr_moves L a ?a2"
    using move_reset_sync [of "lib_am L" "lib_show_id L" "mgr_doc a" "mgr_pool a"]
    by (auto simp: mgr_moves_def reset_sync_state_def)
  have "mgr_moves L a (sync_now L env ?a2)"
    by (rule mgr_moves_trans [OF m2 sync_now_moves]) (use assms in simp)
  then show ?thesis
    using m1 by (cases st) (simp_all add: handle_connection_state_change_def Let_def)
qed

lemma subscription_moves: "mgr_moves L a (snd (handle_subscription L env m a))"
  by (auto simp: handle_subscription_def mgr_moves_def Let_def split: option.splits)

lemma with_receive_moves:
  assumes "foreign (chat_id_display (lib_show_id L) (repo_chat_id (mgr_doc a))) (env_sql env)"
    and "with_repo (receive_sync_message (lib_am L) (env_sql env) (lib_show_id L) m) a = (x, b)"
  shows "mgr_moves L a b"
  using with_repo_moves [OF move_receive [OF assms(1)] receive_chat_id assms(2)] .

lemma with_reset_moves:
  assumes "foreign (chat_id_display (lib_show_id L) (repo_chat_id (mgr_doc a))) (env_sql env)"
    and "with_repo (reset_doc_state_to_persisted (lib_am L) (env_sql env) (lib_show_id L)) a = (x, b)"
  shows "mgr_moves L a b"
  using with_repo_moves [OF move_reset [OF assms(1)] reset_chat_id assms(2)] .

lemma with_add_moves:
  assumes "foreign (chat_id_display (lib_show_id L) (repo_chat_id (mgr_doc a))) (env_sql env)"
    and "with_repo (add_message (lib_am L) (env_sql env) (lib_show_id L) now i c) a = (x, b)"
  shows "mgr_moves L a b"
  using with_repo_moves [OF move_add [OF assms(1)] add_message_chat_id assms(2)] .

lemma recover_moves:
  assumes "no_await (mgr_conn a)"
    and F: "foreign (chat_id_display (lib_show_id L) (repo_chat_id (mgr_doc a))) (env_sql env)"
  shows "mgr_moves L a (recover_sync L env a)"
proof -
  obtain x a1 where r: "with_repo (reset_doc_state_to_persisted (lib_am L) (env_sql env) (lib_show_id L)) a = (x, a1)"
    by fastforce
  have m1: "mgr_moves L a a1" using with_reset_moves [OF F r] .
  then have "no_await (mgr_conn a1)" using assms(1) by (simp add: mgr_moves_def)
  then have "mgr_moves L (a1\<lparr>reset_doc_state := True\<rparr>) (sync_now L env (a1\<lparr>reset_doc_state := True\<rparr>))"
    by (intro sync_now_moves) simp
  moreover have "mgr_moves L a (a1\<lparr>reset_doc_state := True\<rparr>)" using m1 by (simp add: mgr_moves_def)
  ultimately have "mgr_moves L a (sync_now L env (a1\<lparr>reset_doc_state := True\<rparr>))"
    by (rule mgr_moves_trans [rotated])
  then show ?thesis
    using m1 r by (cases x) (simp_all add: recover_sync_def)
qed

lemma incomming_moves:
  assumes "no_await (mgr_conn a)"
    and F: "foreign (chat_id_display (lib_show_id L) (repo_chat_id (mgr_doc a))) (env_sql env)"
  shows "mgr_moves L a (handle_incomming_message L env m a)"
proof -
  obtain bs where m: "m = Sync bs" by (cases m) auto
  have step: "mgr_moves L a (case with_repo (receive_sync_message (lib_am L) (env_sql env) (lib_show_id L) i) a of
             (Ok (chunks, reply_action), a1) \<Rightarrow>
               (let a2 = deliver_messages chunks (a1\<lparr>reset_doc_state := False\<rparr>)
                in case reply_action of
                     Some out_sync_msg \<Rightarrow> handle_outgoing_sync_message L env out_sync_msg a2
                   | None \<Rightarrow> a2)
           | (Err _, a1) \<Rightarrow> recover_sync L env a1)" for i
  proof -
    obtain x a1 where r: "with_repo (receive_sync_message (lib_am L) (env_sql env) (lib_show_id L) i) a = (x, a1)"
      by fastforce
    have m1: "mgr_moves L a a1" using with_receive_moves [OF F r] .
    have n1: "no_await (mgr_conn a1)" using m1 assms(1) by (simp add: mgr_moves_def)
    show ?thesis
    proof (cases x)
      case (Err e)
      have F1: "foreign (chat_id_display (lib_show_id L) (repo_chat_id (mgr_doc a1))) (env_sql env)"
        using F m1 by (simp add: mgr_moves_def)
      show ?thesis
        using mgr_moves_trans [OF m1 recover_moves [OF n1 F1]] r Err by simp
    next
      case (Ok y)
      obtain chunks act where y: "y = (chunks, act)" by fastforce
      let ?a2 = "deliver_messages chunks (a1\<lparr>reset_doc_state := False\<rparr>)"
      have "mgr_moves L a1 ?a2" by (simp add: mgr_moves_def)
      moreover have "mgr_moves L ?a2 (handle_outgoing_sync_message L env om ?a2)" for om
        by (rule outgoing_sync_moves) (use n1 in simp)
      ultimately show ?thesis
        using m1 r Ok y by (cases act) (auto intro: mgr_moves_trans)
    qed
  qed
  show ?thesis
    using step unfolding m handle_incomming_message.simps
    by (cases bs) (auto split: result.splits)
qed

lemma outgoing_message_moves:
  assumes "no_await (mgr_conn a)"
    and F: "foreign (chat_id_display (lib_show_id L) (repo_chat_id (mgr_doc a))) (env_sql env)"
  shows "mgr_moves L a (snd (handle_outgoing_message L env m a))"
proof (cases m)
  case None
  then show ?thesis by (simp add: handle_outgoing_message_def)
next
  case (Some im)
  show ?thesis
  proof (cases im)
    case (Single c t)
    obtain x a1 where r: "with_repo (add_message (lib_am L) (env_sql env) (lib_show_id L) (env_now env)
        (env_new_msg_id env) c) a = (x, a1)" by fastforce
    have m1: "mgr_moves L a a1" using with_add_moves [OF F r] .
    then have "no_await (mgr_conn a1)" using assms(1) by (simp add: mgr_moves_def)
    then have m2: "mgr_moves L a (handle_outgoing_sync_message L env sm a1)" for sm
      using mgr_moves_trans [OF m1 outgoing_sync_moves] by blast
    have upd: "mgr_moves L a (b\<lparr>replies := rs\<rparr>) \<longleftrightarrow> mgr_moves L a b" for b rs
      by (rule mgr_moves_cong) simp_all
    show ?thesis
      using m1 m2 r Some Single
      by (cases x) (auto simp: handle_outgoing_message_def Let_def upd)
  next
    case (All t)
    then show ?thesis
      using Some by (auto simp: handle_outgoing_message_def mgr_moves_def split: may_panic.splits)
  next
    case (PassAcceptedConnHandle h)
    then show ?thesis
      using Some other_conn_moves(3) [of "mgr_conn a"] other_conn_no_await(3) [of "mgr_conn a"]
      by (auto simp: handle_outgoing_message_def mgr_moves_def)
  qed
qed

lemma receive_turn_moves:
  assumes "no_await (mgr_conn a)"
    and F: "foreign (chat_id_display (lib_show_id L) (repo_chat_id (mgr_doc a))) (env_sql env)"
  shows "mgr_moves L a (handle_receive L env incoming a)"
proof -
  obtain x c where r: "receive incoming (mgr_conn a) = (x, c)" by fastforce
  have m1: "mgr_moves L a (a\<lparr>mgr_conn := c\<rparr>)"
    using receive_moves [OF assms(1), of incoming] r by (simp add: mgr_moves_def)
  have "mgr_moves L a (handle_incomming_message L env m (a\<lparr>mgr_conn := c\<rparr>))" for m
    by (rule mgr_moves_trans [OF m1 incomming_moves])
      (use receive_moves [OF assms(1), of incoming] r F in simp_all)
  then show ?thesis using m1 r by (cases x) (simp_all add: handle_receive_def)
qed

lemma mgr_moves_from:
  assumes "mgr_doc a = mgr_doc a'" "mgr_pool a = mgr_pool a'" "mgr_conn a = mgr_conn a'"
  shows "mgr_moves L a b \<longleftrightarrow> mgr_moves L a' b"
  using assms by (simp add: mgr_moves_def)

lemma conn_changed_moves:
  "no_await (mgr_conn a) \<Longrightarrow> mgr_moves L a (handle_conn_changed L env a)"
  unfolding handle_conn_changed_def
  by (subst mgr_moves_from [where a' = "a\<lparr>conn_seen := watch_version (state_notifier (mgr_conn a))\<rparr>"])
    (simp_all add: state_change_moves)

text \<open>A turn of the loop only does what its repository and its connection can do.\<close>

lemma manager_turn_moves:
  assumes N: "no_await (mgr_conn a)"
    and F: "foreign (chat_id_display (lib_show_id L) (repo_chat_id (mgr_doc a))) (env_sql env)"
  shows "mgr_moves L a (snd (manager_turn L env a))"
proof -
  have close: "mgr_moves L a (a\<lparr>mgr_conn := close (mgr_conn a)\<rparr>)"
    "mgr_moves L a (a\<lparr>mgr_conn := reconnect (mgr_conn a)\<rparr>)"
    using other_conn_moves(1,2) [of "mgr_conn a"] other_conn_no_await(1,2) [of "mgr_conn a"]
    by (auto simp: mgr_moves_def)
  have tick: "mgr_moves L a (handle_tick L env a)"
    using close(2) sync_now_moves [OF N] by (auto simp: handle_tick_def split: chat_connection_state.splits)
  have status: "mgr_moves L a (handle_sync_status a)"
    by (simp add: handle_sync_status_def mgr_moves_def Let_def split: option.splits)
  have sub: "mgr_moves L a (snd (handle_subscription L env m (a\<lparr>subscribe_queue := ms\<rparr>)))" for m ms
    by (subst mgr_moves_from [where a' = "a\<lparr>subscribe_queue := ms\<rparr>"]) (simp_all add: subscription_moves)
  have out: "mgr_moves L a (snd (handle_outgoing_message L env m (a\<lparr>in_queue := ms\<rparr>)))" for m ms
    by (subst mgr_moves_from [where a' = "a\<lparr>in_queue := ms\<rparr>"])
      (use outgoing_message_moves [of "a\<lparr>in_queue := ms\<rparr>"] N F in simp_all)
  note rest = subscription_moves [of L a env None] outgoing_message_moves [OF N F, of None]
    conn_changed_moves [OF N, of L env] receive_turn_moves [OF N F]
  show ?thesis
    using close tick status sub out rest
    by (simp add: manager_turn_def case_prod_unfold split: list.splits option.splits)
qed

text \<open>
  The system: the actor takes turns, in between the spawned tasks of its connection run, and the
  application queues requests and drops its handles.
\<close>

fun background :: "'id conn_event \<Rightarrow> bool" where
  "background (RunSetDisconnected _) = True"
| "background RunReconnectStart = True"
| "background (RunReconnectSend _) = True"
| "background (RunReconnectReply _) = True"
| "background _ = False"

inductive mgr_init ::
  "('id::linorder, 'd, 't, 'o, 'h, 's, 'm, 'l) chat_lib \<Rightarrow> ('id, 'd, 'h, 's) manager_actor \<Rightarrow> bool"
  for L where
  "reach (repo_init (lib_am L) (lib_show_id L)) (repo_move (lib_am L) (lib_show_id L)) (r, p) \<Longrightarrow>
     conn_init c \<Longrightarrow> mgr_init L (manager_start L env (new_manager r p c))"

inductive mgr_move ::
  "('id::linorder, 'd, 't, 'o, 'h, 's, 'm, 'l) chat_lib \<Rightarrow> ('id, 'd, 'h, 's) manager_actor
     \<Rightarrow> ('id, 'd, 'h, 's) manager_actor \<Rightarrow> bool" for L where
  mgr_turn: "foreign (chat_id_display (lib_show_id L) (repo_chat_id (mgr_doc a))) (env_sql env) \<Longrightarrow>
     mgr_move L a (snd (manager_turn L env a))"
| mgr_background: "conn_step (mgr_conn a) e c \<Longrightarrow> background e \<Longrightarrow> mgr_move L a (a\<lparr>mgr_conn := c\<rparr>)"
| mgr_request: "mgr_move L a (a\<lparr>in_queue := in_queue a @ [m]\<rparr>)"
| mgr_subscribe: "mgr_move L a (a\<lparr>subscribe_queue := subscribe_queue a @ [s]\<rparr>)"
| mgr_dropped: "mgr_move L a (a\<lparr>in_senders := False, subscribe_senders := False\<rparr>)"

definition mgr_inv ::
  "('id::linorder, 'd, 't, 'o, 'h, 's, 'm, 'l) chat_lib \<Rightarrow> ('id, 'd, 'h, 's) manager_actor \<Rightarrow> bool" where
  "mgr_inv L a \<longleftrightarrow>
     reach (repo_init (lib_am L) (lib_show_id L)) (repo_move (lib_am L) (lib_show_id L))
       (mgr_doc a, mgr_pool a) \<and>
     reach conn_init conn_move (mgr_conn a) \<and> no_await (mgr_conn a)"

lemma reach_steps: "step\<^sup>*\<^sup>* s t \<Longrightarrow> reach init step s \<Longrightarrow> reach init step t"
  by (induction rule: rtranclp_induct) (auto intro: reach_step)

lemma mgr_inv_moves: "mgr_moves L a b \<Longrightarrow> mgr_inv L a \<Longrightarrow> mgr_inv L b"
  by (auto simp: mgr_moves_def mgr_inv_def intro: reach_steps)

lemma background_no_await: "conn_step c e c' \<Longrightarrow> background e \<Longrightarrow> no_await c \<Longrightarrow> no_await c'"
proof (induction rule: conn_step.induct)
  case (run_reconnect_reply c r)
  then show ?case
    by (cases r) (auto simp: no_await_def conn_defs dest: set_mp [OF set_remove1_subset]
        split: internal_conn_state.splits)
qed (auto simp: no_await_def conn_defs dest: set_mp [OF set_remove1_subset]
    split: internal_conn_state.splits)

lemma mgr_inv_start:
  assumes "reach (repo_init (lib_am L) (lib_show_id L)) (repo_move (lib_am L) (lib_show_id L)) (r, p)"
    and "conn_init c"
  shows "mgr_inv L (manager_start L env (new_manager r p c))"
proof -
  have "mgr_inv L (new_manager r p c)"
    using assms by (auto simp: mgr_inv_def new_manager_def no_await_def conn_init_def new_conn_def
        new_connected_def reconnect_def spawn_def intro: reach_init)
  then show ?thesis
    using conn_changed_moves [of "new_manager r p c" L env] mgr_inv_moves
    unfolding manager_start_def by (auto simp: mgr_inv_def)
qed

interpretation mgr: invariant_system "mgr_init L" "mgr_move L" "mgr_inv L"
  for L :: "('id::linorder, 'd, 't, 'o, 'h, 's, 'm, 'l) chat_lib"
proof unfold_locales
  fix a :: "('id, 'd, 'h, 's) manager_actor"
  assume "mgr_init L a"
  then show "mgr_inv L a" by cases (simp add: mgr_inv_start)
next
  fix a b :: "('id, 'd, 'h, 's) manager_actor"
  assume inv: "mgr_inv L a" and "mgr_move L a b"
  from this(2,1) show "mgr_inv L b"
  proof (induction rule: mgr_move.induct)
    case (mgr_turn a env)
    then show ?case
      using mgr_inv_moves [OF manager_turn_moves] by (auto simp: mgr_inv_def)
  next
    case (mgr_background a e c)
    then have "reach conn_init conn_move c"
      by (metis conn_move_def mgr_inv_def reach_step)
    with mgr_background show ?case
      using background_no_await by (auto simp: mgr_inv_def)
  qed (simp_all add: mgr_inv_def)
qed

text \<open>
  C13: Whatever the actor went through, requests, sync messages, failures of the database and of the
  connection in any order, its connection publishes the state it is in and is never stuck while
  reconnecting, and a restart with a working database recovers exactly what was last saved.
\<close>

theorem manager_history_safe:
  assumes "storage_laws (lib_am L) chg blob base"
    and "reach (mgr_init L) (mgr_move L) a"
    and "foreign (chat_id_display (lib_show_id L) (repo_chat_id (mgr_doc a))) env" "\<forall>n. fault env n = None"
  shows "watch_value (state_notifier (mgr_conn a)) = chat_connection_state_from (state (mgr_conn a)) \<and>
    (state (mgr_conn a) = IReconnecting \<longrightarrow> dialing (mgr_conn a)) \<and>
    (\<exists>e r' p'. last_saved_heads (mgr_doc a) = am_get_heads (lib_am L) e \<and> chg e \<subseteq> chg (doc (mgr_doc a)) \<and>
      new_repository (lib_am L) env (lib_show_id L) (repo_chat_id (mgr_doc a)) (mgr_pool a) = (Ok r', p') \<and>
      chg (doc r') = chg e)"
proof -
  have inv: "mgr_inv L a" using mgr.reach_inv [OF assms(2)] .
  then have r: "reach (repo_init (lib_am L) (lib_show_id L)) (repo_move (lib_am L) (lib_show_id L))
      (mgr_doc a, mgr_pool a)" by (simp add: mgr_inv_def)
  have "repo_inv (lib_am L) chg blob (lib_show_id L) (mgr_doc a, mgr_pool a)"
    using repo.reach_inv [OF r] assms(1) by blast
  then have "\<exists>e r' p'. last_saved_heads (mgr_doc a) = am_get_heads (lib_am L) e \<and> chg e \<subseteq> chg (doc (mgr_doc a)) \<and>
      new_repository (lib_am L) env (lib_show_id L) (repo_chat_id (mgr_doc a)) (mgr_pool a) = (Ok r', p') \<and>
      chg (doc r') = chg e"
    by (rule restart_from_inv [OF assms(1) _ assms(3,4)])
  moreover have "conn_inv (mgr_conn a)"
    using inv conn.reach_inv unfolding mgr_inv_def by blast
  ultimately show ?thesis by (simp add: conn_inv_def)
qed

definition sample_lib :: "(nat, bytes, bytes \<times> bytes, unit, bytes, unit, byte, unit) chat_lib" where
  "sample_lib = \<lparr>lib_am = bytes_am, lib_encode = (\<lambda>m. [m]),
     lib_decode = (\<lambda>bs. case bs of [m] \<Rightarrow> Ok m | _ \<Rightarrow> Err ''decode''),
     lib_show_id = sample_show, lib_uuid_text = (\<lambda>_. ''u''), lib_build = Debug\<rparr>"

definition sample_turn :: turn_env where
  "sample_turn = \<lparr>env_sql = calm, env_now = 7, env_new_msg_id = ''i'', env_new_handle_id = 9,
     env_send_open = True, env_reply_open = True, env_cancelled = False, env_tick = False,
     env_incoming = None\<rparr>"

definition sample_handle :: "nat handle" where
  "sample_handle = \<lparr>handle_id = 5, origin = Accept, connection = \<lparr>conn_key = 6, conn_remote_id = 5\<rparr>,
     tx = 3, rx = 4, cancel_token = 8\<rparr>"

definition sample_manager :: "(nat, bytes, bytes, unit) manager_actor" where
  "sample_manager = manager_start sample_lib sample_turn
     (new_manager first_repo first_pool (new_connected 3 sample_handle))"

lemma sample_manager_reach: "reach (mgr_init sample_lib) (mgr_move sample_lib) sample_manager"
proof -
  have "reach (repo_init (lib_am sample_lib) (lib_show_id sample_lib))
      (repo_move (lib_am sample_lib) (lib_show_id sample_lib)) (first_repo, first_pool)"
    using first_repo_reach by (simp add: sample_lib_def)
  then have "mgr_init sample_lib sample_manager"
    unfolding sample_manager_def by (rule mgr_init.intros) (auto simp: conn_init_def)
  then show ?thesis by (rule reach_init)
qed

theorem manager_history_safe_witness:
  "\<exists>r' p'. new_repository bytes_am calm sample_show (repo_chat_id (mgr_doc sample_manager))
     (mgr_pool sample_manager) = (Ok r', p')"
proof -
  have "storage_laws (lib_am sample_lib) set set fst"
    using bytes_am_laws by (simp add: sample_lib_def)
  from manager_history_safe [OF this sample_manager_reach calm_foreign(1)]
  show ?thesis using calm_foreign(2) by (auto simp: sample_lib_def)
qed

section \<open>Requests are answered\<close>

fun request_tag :: "'id in_message \<Rightarrow> nat list" where
  "request_tag (Single m t) = [t]"
| "request_tag (All t) = [t]"
| "request_tag (PassAcceptedConnHandle h) = []"

fun answer_tag :: "reply \<Rightarrow> nat list" where
  "answer_tag (ReplySingle t r) = [t]"
| "answer_tag (ReplyAll t r) = [t]"
| "answer_tag (ReplySubscribe t) = []"

definition answered :: "('id, 'd, 'h, 's) manager_actor \<Rightarrow> nat list" where
  "answered a = concat (map answer_tag (replies a))"

definition pending :: "('id, 'd, 'h, 's) manager_actor \<Rightarrow> nat list" where
  "pending a = concat (map request_tag (in_queue a))"

lemma outgoing_sync_fields [simp]:
  "mgr_doc (handle_outgoing_sync_message L env m a) = mgr_doc a"
  "mgr_pool (handle_outgoing_sync_message L env m a) = mgr_pool a"
  "in_queue (handle_outgoing_sync_message L env m a) = in_queue a"
  "subscribe_queue (handle_outgoing_sync_message L env m a) = subscribe_queue a"
  "replies (handle_outgoing_sync_message L env m a) = replies a"
  "msg_receiver (handle_outgoing_sync_message L env m a) = msg_receiver a"
  "ui_calls (handle_outgoing_sync_message L env m a) = ui_calls a"
  "sync_seen (handle_outgoing_sync_message L env m a) = sync_seen a"
  "conn_seen (handle_outgoing_sync_message L env m a) = conn_seen a"
  "in_senders (handle_outgoing_sync_message L env m a) = in_senders a"
  "subscribe_senders (handle_outgoing_sync_message L env m a) = subscribe_senders a"
  "reset_doc_state (handle_outgoing_sync_message L env m a) = reset_doc_state a"
  by (simp_all add: handle_outgoing_sync_message_def)

lemma sync_now_fields [simp]:
  "in_queue (sync_now L env a) = in_queue a" "subscribe_queue (sync_now L env a) = subscribe_queue a"
  "replies (sync_now L env a) = replies a" "msg_receiver (sync_now L env a) = msg_receiver a"
  "ui_calls (sync_now L env a) = ui_calls a" "sync_seen (sync_now L env a) = sync_seen a"
  "conn_seen (sync_now L env a) = conn_seen a" "in_senders (sync_now L env a) = in_senders a"
  "subscribe_senders (sync_now L env a) = subscribe_senders a"
  "reset_doc_state (sync_now L env a) = reset_doc_state a" "mgr_pool (sync_now L env a) = mgr_pool a"
  by (simp_all add: sync_now_def mgr_generate_sync_def split: prod.splits)

lemma with_repo_fields:
  assumes "with_repo f a = (x, b)"
  shows "in_queue b = in_queue a" "subscribe_queue b = subscribe_queue a" "replies b = replies a"
    "msg_receiver b = msg_receiver a" "ui_calls b = ui_calls a" "sync_seen b = sync_seen a"
    "conn_seen b = conn_seen a" "mgr_conn b = mgr_conn a" "in_senders b = in_senders a"
    "subscribe_senders b = subscribe_senders a" "reset_doc_state b = reset_doc_state a"
  using assms by (auto simp: with_repo_def split: prod.splits)

lemma state_change_fields [simp]:
  "in_queue (handle_connection_state_change L env st a) = in_queue a"
  "subscribe_queue (handle_connection_state_change L env st a) = subscribe_queue a"
  "replies (handle_connection_state_change L env st a) = replies a"
  "sync_seen (handle_connection_state_change L env st a) = sync_seen a"
  "conn_seen (handle_connection_state_change L env st a) = conn_seen a"
  "msg_receiver (handle_connection_state_change L env st a) = msg_receiver a"
  "in_senders (handle_connection_state_change L env st a) = in_senders a"
  "subscribe_senders (handle_connection_state_change L env st a) = subscribe_senders a"
  by (simp_all add: handle_connection_state_change_def Let_def announce_state_def
      split: chat_connection_state.splits option.splits)

lemma recover_fields [simp]:
  "in_queue (recover_sync L env a) = in_queue a"
  "replies (recover_sync L env a) = replies a"
  by (auto simp: recover_sync_def split: prod.splits result.splits dest: with_repo_fields)

lemma incomming_fields [simp]:
  "in_queue (handle_incomming_message L env m a) = in_queue a"
  "replies (handle_incomming_message L env m a) = replies a"
  by (cases m; auto simp: Let_def split: prod.splits result.splits option.splits dest: with_repo_fields)+

lemma receive_fields [simp]:
  "in_queue (handle_receive L env i a) = in_queue a" "replies (handle_receive L env i a) = replies a"
  by (auto simp: handle_receive_def split: prod.splits option.splits)

lemma tick_fields [simp]:
  "in_queue (handle_tick L env a) = in_queue a" "replies (handle_tick L env a) = replies a"
  by (auto simp: handle_tick_def split: chat_connection_state.splits)

lemma sync_status_fields [simp]:
  "in_queue (handle_sync_status a) = in_queue a" "replies (handle_sync_status a) = replies a"
  by (auto simp: handle_sync_status_def Let_def split: option.splits)

lemma conn_changed_fields [simp]:
  "in_queue (handle_conn_changed L env a) = in_queue a" "replies (handle_conn_changed L env a) = replies a"
  by (auto simp: handle_conn_changed_def)

lemma subscription_fields [simp]:
  "in_queue (snd (handle_subscription L env m a)) = in_queue a"
  "concat (map answer_tag (replies (snd (handle_subscription L env m a)))) =
     concat (map answer_tag (replies a))"
  by (auto simp: handle_subscription_def Let_def split: option.splits)

lemma outgoing_answers:
  assumes "handle_outgoing_message L env (Some m) a = (MgrRunning, b)" "env_reply_open env"
  shows "in_queue b = in_queue a" "answered b = answered a @ request_tag m"
  using assms
  by (cases m; auto simp: handle_outgoing_message_def answered_def Let_def
      split: prod.splits result.splits may_panic.splits dest: with_repo_fields)+

lemma manager_turn_in_order:
  assumes "manager_turn L env a = (MgrRunning, b)" "env_reply_open env"
  shows "answered b @ pending b = answered a @ pending a"
proof (cases "in_queue a")
  case Nil
  then show ?thesis
    using assms
    by (auto simp: manager_turn_def pending_def answered_def case_prod_unfold
        handle_outgoing_message_def split: if_splits list.splits option.splits)
next
  case (Cons m ms)
  have "answered b = answered a @ request_tag m \<and> in_queue b = ms"
    if "handle_outgoing_message L env (Some m) (a\<lparr>in_queue := ms\<rparr>) = (MgrRunning, b)"
    using outgoing_answers [OF that assms(2)] by (simp add: answered_def)
  then show ?thesis
    using assms Cons
    by (auto simp: manager_turn_def pending_def answered_def case_prod_unfold
        split: if_splits list.splits option.splits)
qed

section \<open>Requests are served\<close>

text \<open>
  What the actor still has to do when nothing else happens: the queued requests, and the changes of
  its two watch cells that it has not seen. A request can cause one change of the connection state
  and one of the sync status, and a change of the connection state one of the sync status.
\<close>

definition conn_unseen :: "('id, 'd, 'h, 's) manager_actor \<Rightarrow> bool" where
  "conn_unseen a \<longleftrightarrow> conn_seen a \<noteq> watch_version (state_notifier (mgr_conn a))"

definition sync_unseen :: "('id, 'd, 'h, 's) manager_actor \<Rightarrow> bool" where
  "sync_unseen a \<longleftrightarrow> sync_seen a \<noteq> watch_version (sync_status_tx (mgr_doc a))"

definition work :: "('id, 'd, 'h, 's) manager_actor \<Rightarrow> nat" where
  "work a = 4 * (length (in_queue a) + length (subscribe_queue a)) +
     (if conn_unseen a then 2 else 0) + (if sync_unseen a then 1 else 0)"

definition quiet :: "turn_env \<Rightarrow> bool" where
  "quiet env \<longleftrightarrow> \<not> env_cancelled env \<and> \<not> env_tick env \<and> env_reply_open env \<and> env_incoming env = None"

lemma send_message_notifier [simp]: "state_notifier (send_message m i c) = state_notifier c"
  by (auto simp: send_message_def send_finish_def spawn_def split: option.splits)

lemma outgoing_sync_conn [simp]:
  "state_notifier (mgr_conn (handle_outgoing_sync_message L env m a)) = state_notifier (mgr_conn a)"
  by (simp add: handle_outgoing_sync_message_def)

lemma sync_now_conn [simp]: "state_notifier (mgr_conn (sync_now L env a)) = state_notifier (mgr_conn a)"
  by (auto simp: sync_now_def mgr_generate_sync_def split: prod.splits)

lemma state_change_conn [simp]:
  "state_notifier (mgr_conn (handle_connection_state_change L env st a)) = state_notifier (mgr_conn a)"
  by (auto simp: handle_connection_state_change_def Let_def split: chat_connection_state.splits)

lemma get_all_messages_returns: "\<exists>x. get_all_messages b A r = Return x"
  by (auto simp: get_all_messages_def get_messages_def usize_add_def usize_max_def
      split: result.splits)

lemma outgoing_quiet:
  assumes "env_reply_open env"
  obtains b where "handle_outgoing_message L env (Some m) a = (MgrRunning, b)"
    "in_queue b = in_queue a" "subscribe_queue b = subscribe_queue a"
    "in_senders b = in_senders a" "subscribe_senders b = subscribe_senders a"
proof (cases m)
  case (Single c t)
  obtain x a1 where r: "with_repo (add_message (lib_am L) (env_sql env) (lib_show_id L) (env_now env)
      (env_new_msg_id env) c) a = (x, a1)" by fastforce
  note f = with_repo_fields [OF r]
  show thesis
    using that assms Single r f by (cases x) (auto simp: handle_outgoing_message_def Let_def)
next
  case (All t)
  obtain x where "get_all_messages (lib_build L) (lib_am L) (mgr_doc a) = Return x"
    using get_all_messages_returns by blast
  then show thesis using that assms All by (simp add: handle_outgoing_message_def)
next
  case (PassAcceptedConnHandle h)
  then show thesis using that by (simp add: handle_outgoing_message_def)
qed

lemma subscription_quiet:
  obtains b where "handle_subscription L env (Some m) a = (Ok (), b)"
    "in_queue b = in_queue a" "subscribe_queue b = subscribe_queue a"
    "in_senders b = in_senders a" "subscribe_senders b = subscribe_senders a"
  using that by (simp add: handle_subscription_def Let_def)

lemma sync_status_quiet:
  "\<not> sync_unseen (handle_sync_status a)" "conn_unseen (handle_sync_status a) = conn_unseen a"
  "subscribe_queue (handle_sync_status a) = subscribe_queue a"
  "in_senders (handle_sync_status a) = in_senders a"
  "subscribe_senders (handle_sync_status a) = subscribe_senders a"
  by (auto simp: handle_sync_status_def sync_unseen_def conn_unseen_def Let_def split: option.splits)

lemma conn_changed_quiet:
  "\<not> conn_unseen (handle_conn_changed L env a)"
  "subscribe_queue (handle_conn_changed L env a) = subscribe_queue a"
  "in_senders (handle_conn_changed L env a) = in_senders a"
  "subscribe_senders (handle_conn_changed L env a) = subscribe_senders a"
  by (simp_all add: handle_conn_changed_def conn_unseen_def)

lemma work_le: "work a \<le> 4 * (length (in_queue a) + length (subscribe_queue a)) + 3"
  by (simp add: work_def)

lemma quiet_turn:
  assumes "quiet env" "in_senders a" "subscribe_senders a" "work a > 0"
  obtains b where "manager_turn L env a = (MgrRunning, b)" "work b < work a"
    "in_senders b" "subscribe_senders b"
proof -
  note q = assms(1) [unfolded quiet_def]
  consider "sync_unseen a" | "\<not> sync_unseen a" "conn_unseen a"
    | m ms where "\<not> sync_unseen a" "\<not> conn_unseen a" "subscribe_queue a = m # ms"
    | m ms where "\<not> sync_unseen a" "\<not> conn_unseen a" "subscribe_queue a = []" "in_queue a = m # ms"
    using assms(4) by (cases "subscribe_queue a"; cases "in_queue a") (auto simp: work_def split: if_splits)
  then show thesis
  proof cases
    case 1
    then have "manager_turn L env a = (MgrRunning, handle_sync_status a)"
      using q by (simp add: manager_turn_def sync_unseen_def)
    then show thesis
      by (rule that) (use 1 assms in \<open>simp_all add: work_def sync_status_quiet\<close>)
  next
    case 2
    then have "manager_turn L env a = (MgrRunning, handle_conn_changed L env a)"
      using q by (simp add: manager_turn_def sync_unseen_def conn_unseen_def)
    then show thesis
      by (rule that) (use 2 assms in \<open>simp_all add: work_def conn_changed_quiet\<close>)
  next
    case 3
    obtain b where b: "handle_subscription L env (Some m) (a\<lparr>subscribe_queue := ms\<rparr>) = (Ok (), b)"
      "in_queue b = in_queue (a\<lparr>subscribe_queue := ms\<rparr>)"
      "subscribe_queue b = subscribe_queue (a\<lparr>subscribe_queue := ms\<rparr>)"
      "in_senders b = in_senders (a\<lparr>subscribe_queue := ms\<rparr>)"
      "subscribe_senders b = subscribe_senders (a\<lparr>subscribe_queue := ms\<rparr>)"
      by (rule subscription_quiet)
    then have "manager_turn L env a = (MgrRunning, b)"
      using 3 q by (simp add: manager_turn_def sync_unseen_def conn_unseen_def)
    moreover have "work b < work a"
      using work_le [of b] b 3 by (simp add: work_def [of a])
    ultimately show thesis using that b assms by simp
  next
    case 4
    have "env_reply_open env" using q by blast
    then obtain b where b: "handle_outgoing_message L env (Some m) (a\<lparr>in_queue := ms\<rparr>) = (MgrRunning, b)"
      "in_queue b = in_queue (a\<lparr>in_queue := ms\<rparr>)"
      "subscribe_queue b = subscribe_queue (a\<lparr>in_queue := ms\<rparr>)"
      "in_senders b = in_senders (a\<lparr>in_queue := ms\<rparr>)"
      "subscribe_senders b = subscribe_senders (a\<lparr>in_queue := ms\<rparr>)"
      by (rule outgoing_quiet)
    then have "manager_turn L env a = (MgrRunning, b)"
      using 4 q assms by (simp add: manager_turn_def sync_unseen_def conn_unseen_def)
    moreover have "work b < work a"
      using work_le [of b] b 4 by (simp add: work_def [of a])
    ultimately show thesis using that b assms by simp
  qed
qed

lemma quiet_run:
  fixes a :: "('id::linorder, 'd, 'h, 's) manager_actor"
  assumes "\<forall>env\<in>set envs. quiet env" "in_senders a" "subscribe_senders a" "work a \<le> length envs"
  shows "\<exists>b. manager_run L envs a = (MgrRunning, b) \<and> work b = 0"
proof (rule mgr_loop.run_works_off [where P = "\<lambda>a. in_senders a \<and> subscribe_senders a" and ok = quiet])
  fix env and s :: "('id, 'd, 'h, 's) manager_actor"
  assume s: "in_senders s \<and> subscribe_senders s" "quiet env"
  show "\<exists>s'. manager_turn L env s = (MgrRunning, s') \<and> (in_senders s' \<and> subscribe_senders s') \<and>
      (if work s = 0 then work s' = 0 else work s' < work s)"
  proof (cases "work s = 0")
    case True
    then have "manager_turn L env s = (MgrRunning, s)"
      using s by (auto simp: manager_turn_def work_def quiet_def sync_unseen_def conn_unseen_def
          split: if_splits)
    then show ?thesis using s True by simp
  next
    case False
    then show ?thesis using quiet_turn [of env s L] s by auto
  qed
qed (use assms in simp_all)

lemma manager_run_in_order:
  assumes "manager_run L envs a = (MgrRunning, b)" "\<forall>env\<in>set envs. env_reply_open env"
  shows "answered b @ pending b = answered a @ pending a"
  by (rule mgr_loop.run_keeps [OF assms, where g = "\<lambda>a. answered a @ pending a"]) (rule manager_turn_in_order)

text \<open>
  The subscriptions that were confirmed; a subscriber is greeted with the sync status and the state of
  the connection.
\<close>

fun subscribe_tag :: "reply \<Rightarrow> nat list" where
  "subscribe_tag (ReplySubscribe t) = [t]"
| "subscribe_tag _ = []"

definition confirmed :: "('id, 'd, 'h, 's) manager_actor \<Rightarrow> nat list" where
  "confirmed a = concat (map subscribe_tag (replies a))"

definition greeted :: "subscribe_message \<Rightarrow> ui_call list \<Rightarrow> bool" where
  "greeted m cs \<longleftrightarrow> (\<exists>v. ProcessSyncStatus (sub_receiver m) v \<in> set cs) \<and> (\<exists>st. ProcessConnectionState (sub_receiver m) st \<in> set cs)"

text \<open>\<open>b\<close> came out of \<open>a\<close> by serving the first subscriptions of its queue.\<close>

definition serves :: "subscribe_message list \<Rightarrow> ('id, 'd, 'h, 's) manager_actor \<Rightarrow> ('id, 'd, 'h, 's) manager_actor \<Rightarrow> bool" where
  "serves qs a b \<longleftrightarrow>
     subscribe_queue a = qs @ subscribe_queue b \<and> confirmed b = confirmed a @ map sub_tx qs \<and>
     msg_receiver b = (if qs = [] then msg_receiver a else Some (sub_receiver (last qs))) \<and>
     (\<exists>cs. ui_calls b = ui_calls a @ cs \<and> (\<forall>m\<in>set qs. greeted m cs))"

lemma serves_trans: "serves qs a b \<Longrightarrow> serves qs' b c \<Longrightarrow> serves (qs @ qs') a c"
  by (fastforce simp: serves_def greeted_def)

lemma serves_none:
  assumes "subscribe_queue b = subscribe_queue a" "confirmed b = confirmed a" "msg_receiver b = msg_receiver a" "ui_calls b = ui_calls a @ cs"
  shows "serves [] a b"
  using assms by (simp add: serves_def)

lemma conn_changed_serves: "serves [] a (handle_conn_changed L env a)"
proof (rule serves_none)
  show "ui_calls (handle_conn_changed L env a) = ui_calls a @ (case msg_receiver a of Some k \<Rightarrow> [ProcessConnectionState k
      (uniffi_state_from (lib_uuid_text L) (watch_value (state_notifier (mgr_conn a))))] | None \<Rightarrow> [])"
    by (auto simp: handle_conn_changed_def handle_connection_state_change_def announce_state_def Let_def
        split: option.splits chat_connection_state.splits)
qed (simp_all add: handle_conn_changed_def confirmed_def)

lemma sync_status_serves: "serves [] a (handle_sync_status a)"
  by (rule serves_none [where cs = "case msg_receiver a of Some k \<Rightarrow> [ProcessSyncStatus k (watch_value (sync_status_tx (mgr_doc a)))] | None \<Rightarrow> []"])
    (auto simp: handle_sync_status_def confirmed_def Let_def split: option.splits)

lemma subscription_serves:
  assumes "subscribe_queue a = m # ms" "env_reply_open env"
  shows "serves [m] a (snd (handle_subscription L env (Some m) (a\<lparr>subscribe_queue := ms\<rparr>)))"
  using assms by (auto simp: serves_def handle_subscription_def confirmed_def greeted_def Let_def)

lemma outgoing_serves:
  assumes "handle_outgoing_message L env (Some m) (a\<lparr>in_queue := ms\<rparr>) = (MgrRunning, b)"
  shows "serves [] a b"
proof (rule serves_none [where cs = "[]"])
  show "subscribe_queue b = subscribe_queue a" "msg_receiver b = msg_receiver a" "ui_calls b = ui_calls a @ []" "confirmed b = confirmed a"
    using assms
    by (auto simp: handle_outgoing_message_def with_repo_def confirmed_def Let_def
        split: in_message.splits if_splits prod.splits result.splits may_panic.splits)
qed

lemma turn_serves:
  assumes "quiet env" "in_senders a" "subscribe_senders a" "manager_turn L env a = (MgrRunning, b)"
  shows "\<exists>qs. serves qs a b"
proof -
  have "serves [] a a" by (simp add: serves_def)
  then show ?thesis
    using assms conn_changed_serves [of a L env] sync_status_serves [of a] subscription_serves [of a _ _ env L] outgoing_serves [of L env _ _ a]
    by (fastforce simp: manager_turn_def quiet_def case_prod_unfold split: if_splits list.splits)
qed

lemma run_serves:
  fixes a :: "('id::linorder, 'd, 'h, 's) manager_actor"
  assumes "manager_run L envs a = (MgrRunning, b)" "\<forall>env\<in>set envs. quiet env" "in_senders a" "subscribe_senders a"
  shows "\<exists>qs. serves qs a b"
proof -
  have "in_senders b \<and> subscribe_senders b \<and> (\<exists>qs. serves qs a b)"
  proof (rule mgr_loop.run_preserves [OF assms(1,2), where P = "\<lambda>b. in_senders b \<and> subscribe_senders b \<and> (\<exists>qs. serves qs a b)"])
    fix env and s s' :: "('id, 'd, 'h, 's) manager_actor"
    assume s: "in_senders s \<and> subscribe_senders s \<and> (\<exists>qs. serves qs a s)" and env: "quiet env" and turn: "manager_turn L env s = (MgrRunning, s')"
    have "in_senders s' \<and> subscribe_senders s'"
    proof (cases "work s = 0")
      case True
      then show ?thesis using s env turn by (auto simp: manager_turn_def work_def quiet_def sync_unseen_def conn_unseen_def split: if_splits)
    next
      case False
      then show ?thesis using quiet_turn [of env s L] s env turn by auto
    qed
    then show "in_senders s' \<and> subscribe_senders s' \<and> (\<exists>qs. serves qs a s')"
      using turn_serves [OF env _ _ turn] s serves_trans by blast
  next
    show "in_senders a \<and> subscribe_senders a \<and> (\<exists>qs. serves qs a a)"
      using assms(3,4) by (auto simp: serves_def intro!: exI [of _ "[]"])
  qed
  then show ?thesis by blast
qed



section \<open>The user interface is kept informed\<close>

text \<open>What a receiver was told last.\<close>

fun told_state :: "nat \<Rightarrow> ui_call \<Rightarrow> uniffi_chat_connection_state option \<Rightarrow> uniffi_chat_connection_state option"
where
  "told_state k (ProcessConnectionState k' s) acc = (if k' = k then Some s else acc)"
| "told_state k _ acc = acc"

fun told_sync :: "nat \<Rightarrow> ui_call \<Rightarrow> bool option \<Rightarrow> bool option" where
  "told_sync k (ProcessSyncStatus k' s) acc = (if k' = k then Some s else acc)"
| "told_sync k _ acc = acc"

definition shown_state :: "nat \<Rightarrow> ui_call list \<Rightarrow> uniffi_chat_connection_state option" where
  "shown_state k cs = fold (told_state k) cs None"

definition shown_sync :: "nat \<Rightarrow> ui_call list \<Rightarrow> bool option" where
  "shown_sync k cs = fold (told_sync k) cs None"

lemma shown_snoc [simp]:
  "shown_state k (cs @ [c]) = told_state k c (shown_state k cs)"
  "shown_sync k (cs @ [c]) = told_sync k c (shown_sync k cs)"
  "shown_state k (cs @ [c, d]) = told_state k d (told_state k c (shown_state k cs))"
  "shown_sync k (cs @ [c, d]) = told_sync k d (told_sync k c (shown_sync k cs))"
  by (simp_all add: shown_state_def shown_sync_def)

text \<open>A watch cell that changes gets a new version.\<close>

definition advances :: "'a watch \<Rightarrow> 'a watch \<Rightarrow> bool" where
  "advances w w' \<longleftrightarrow> w' = w \<or> watch_version w < watch_version w'"

lemma advances_refl [simp]: "advances w w"
  by (simp add: advances_def)

lemma advances_trans: "advances u v \<Longrightarrow> advances v w \<Longrightarrow> advances u w"
  by (auto simp: advances_def)

lemma advances_send [simp]: "advances w (send_if_modified v w)" "advances w (send_modify v w)"
  by (auto simp: advances_def send_if_modified_def send_modify_def)

lemma conn_step_advances: "conn_step c e c' \<Longrightarrow> advances (state_notifier c) (state_notifier c')"
proof (induction rule: conn_step.induct)
  case (call_update_handle c u h)
  then show ?case using update_handle_notifier [of u h c] by (simp add: advances_def)
next
  case (run_reconnect_reply c r)
  then show ?case
    using update_handle_notifier [of _ _ "finish_task ReconnectReply c"]
    by (cases r) (auto simp: advances_def finish_task_def set_state_if_reconnecting_def send_if_modified_def
        split: internal_conn_state.splits)
qed (auto simp: conn_defs Let_def split: internal_conn_state.splits option.splits)

lemma own_conn_notifiers [simp]:
  "state_notifier (reconnect c) = state_notifier c"
  "state_notifier (snd (receive i c)) = state_notifier c"
  "advances (state_notifier c) (state_notifier (close c))"
  by (auto simp: conn_defs Let_def receive_def advances_def send_if_modified_def
      split: option.splits internal_conn_state.splits)

lemma update_handle_advances [simp]:
  "advances (state_notifier c) (state_notifier (update_handle u h c))"
  using update_handle_notifier [of u h c] by (simp add: advances_def)

lemma generate_advances:
  "advances (sync_status_tx r) (sync_status_tx (snd (generate_sync_message A r)))"
  by (auto simp: generate_sync_message_def split: prod.splits)

lemma persist_status: "sync_status_tx (fst (snd (persist_chat A env show_id (r, p)))) = sync_status_tx r"
  by (auto simp: persist_chat_def Let_def split: prod.splits result.splits)

lemma add_message_advances:
  "advances (sync_status_tx r) (sync_status_tx (fst (snd (add_message A env show_id now i c (r, p)))))"
proof -
  have "advances (sync_status_tx r) (sync_status_tx r2)"
    if "persist_chat A env show_id (r\<lparr>doc := d\<rparr>, p) = (y, r1, p1)" "generate_sync_message A r1 = (sm, r2)"
    for d y r1 p1 sm r2
    using persist_status [of A env show_id "r\<lparr>doc := d\<rparr>" p] generate_advances [of r1 A] that by simp
  moreover have "advances (sync_status_tx r) (sync_status_tx r1)"
    if "persist_chat A env show_id (r\<lparr>doc := d\<rparr>, p) = (y, r1, p1)" for d y r1 p1
    using persist_status [of A env show_id "r\<lparr>doc := d\<rparr>" p] that by simp
  ultimately show ?thesis
    by (auto simp: add_message_def Let_def split: prod.splits result.splits)
qed

lemma receive_changes_status:
  "sync_status_tx (fst (snd (receive_changes A env show_id m (r, p)))) = sync_status_tx r"
proof -
  have "sync_status_tx r1 = sync_status_tx r"
    if "persist_chat A env show_id (r\<lparr>doc := d, sync_state := s\<rparr>, p) = (y, r1, p1)" for d s y r1 p1
    using persist_status [of A env show_id "r\<lparr>doc := d, sync_state := s\<rparr>" p] that by simp
  then show ?thesis
    by (auto simp: receive_changes_def io_bind_def split: option.splits prod.splits result.splits)
qed

lemma receive_advances:
  "advances (sync_status_tx r) (sync_status_tx (fst (snd (receive_sync_message A env show_id m (r, p)))))"
proof -
  obtain x r1 p1 where c: "receive_changes A env show_id m (r, p) = (x, (r1, p1))" by (metis prod.exhaust)
  then have "sync_status_tx r1 = sync_status_tx r"
    using receive_changes_status [of A env show_id m r p] by simp
  moreover obtain sm r2 where "generate_sync_message A r1 = (sm, r2)" by fastforce
  ultimately show ?thesis
    using c generate_advances [of r1 A]
    by (cases x) (simp_all add: receive_sync_message_def io_bind_def)
qed

lemma reset_status:
  "sync_status_tx (fst (snd (reset_doc_state_to_persisted A env show_id (r, p)))) = sync_status_tx r"
  by (auto simp: reset_doc_state_to_persisted_def reset_sync_state_def split: prod.splits result.splits)

text \<open>
  A part of a handler that neither tells the receiver about states nor looks at the watch cells.
\<close>

definition ui_frame :: "('id, 'd, 'h, 's) manager_actor \<Rightarrow> ('id, 'd, 'h, 's) manager_actor \<Rightarrow> bool" where
  "ui_frame a b \<longleftrightarrow>
     msg_receiver b = msg_receiver a \<and> conn_seen b = conn_seen a \<and> sync_seen b = sync_seen a \<and>
     advances (state_notifier (mgr_conn a)) (state_notifier (mgr_conn b)) \<and>
     advances (sync_status_tx (mgr_doc a)) (sync_status_tx (mgr_doc b)) \<and>
     (\<forall>k. shown_state k (ui_calls b) = shown_state k (ui_calls a) \<and>
          shown_sync k (ui_calls b) = shown_sync k (ui_calls a))"

lemma ui_frame_refl [simp]: "ui_frame a a"
  by (simp add: ui_frame_def)

lemma ui_frame_trans: "ui_frame a b \<Longrightarrow> ui_frame b c \<Longrightarrow> ui_frame a c"
  by (auto simp: ui_frame_def intro: advances_trans)

definition ui_inv ::
  "('id, 'd, 't, 'o, 'h, 's, 'm, 'l) chat_lib \<Rightarrow> ('id, 'd, 'h, 's) manager_actor \<Rightarrow> bool" where
  "ui_inv L a \<longleftrightarrow>
     conn_seen a \<le> watch_version (state_notifier (mgr_conn a)) \<and>
     sync_seen a \<le> watch_version (sync_status_tx (mgr_doc a)) \<and>
     (\<forall>k. msg_receiver a = Some k \<longrightarrow>
        (\<not> conn_unseen a \<longrightarrow> shown_state k (ui_calls a) =
           Some (uniffi_state_from (lib_uuid_text L) (watch_value (state_notifier (mgr_conn a))))) \<and>
        (\<not> sync_unseen a \<longrightarrow> shown_sync k (ui_calls a) = Some (watch_value (sync_status_tx (mgr_doc a)))))"

lemma ui_inv_frame: "ui_frame a b \<Longrightarrow> ui_inv L a \<Longrightarrow> ui_inv L b"
  by (auto simp: ui_frame_def ui_inv_def conn_unseen_def sync_unseen_def advances_def)

lemma frame_outgoing_sync [simp]: "ui_frame a (handle_outgoing_sync_message L env m a)"
  by (simp add: ui_frame_def)

lemma frame_sync_now [simp]: "ui_frame a (sync_now L env a)"
proof -
  obtain m r where g: "generate_sync_message (lib_am L) (mgr_doc a) = (m, r)" by fastforce
  then show ?thesis
    using generate_advances [of "mgr_doc a" "lib_am L"]
    by (simp add: sync_now_def mgr_generate_sync_def ui_frame_def)
qed

lemma frame_with_repo:
  assumes "with_repo f a = (x, b)"
    and "advances (sync_status_tx (mgr_doc a)) (sync_status_tx (fst (snd (f (mgr_doc a, mgr_pool a)))))"
  shows "ui_frame a b"
  using assms by (auto simp: with_repo_def ui_frame_def split: prod.splits)

lemma frame_deliver [simp]: "ui_frame a (deliver_messages ms a)"
  by (auto simp: ui_frame_def deliver_messages_def split: option.splits)

lemma frame_flag [simp]: "ui_frame a (a\<lparr>reset_doc_state := b\<rparr>)"
  by (simp add: ui_frame_def)

lemma frame_recover [simp]: "ui_frame a (recover_sync L env a)"
proof -
  obtain x b where r: "with_repo (reset_doc_state_to_persisted (lib_am L) (env_sql env) (lib_show_id L)) a = (x, b)"
    by fastforce
  have f: "ui_frame a b" by (rule frame_with_repo [OF r]) (simp add: reset_status)
  have "ui_frame a (sync_now L env (b\<lparr>reset_doc_state := True\<rparr>))"
    by (rule ui_frame_trans [OF f ui_frame_trans [OF frame_flag frame_sync_now]])
  then show ?thesis using f r by (cases x) (simp_all add: recover_sync_def)
qed

lemma frame_incomming [simp]: "ui_frame a (handle_incomming_message L env m a)"
proof -
  obtain bs where m: "m = Sync bs" by (cases m) auto
  have "ui_frame a (case with_repo (receive_sync_message (lib_am L) (env_sql env) (lib_show_id L) i) a of
             (Ok (chunks, reply_action), a1) \<Rightarrow>
               (let a2 = deliver_messages chunks (a1\<lparr>reset_doc_state := False\<rparr>)
                in case reply_action of
                     Some out_sync_msg \<Rightarrow> handle_outgoing_sync_message L env out_sync_msg a2
                   | None \<Rightarrow> a2)
           | (Err _, a1) \<Rightarrow> recover_sync L env a1)" for i
  proof -
    obtain x a1 where r: "with_repo (receive_sync_message (lib_am L) (env_sql env) (lib_show_id L) i) a = (x, a1)"
      by fastforce
    have f: "ui_frame a a1" by (rule frame_with_repo [OF r]) (rule receive_advances)
    have g: "ui_frame a (deliver_messages ms (a1\<lparr>reset_doc_state := False\<rparr>))" for ms
      by (rule ui_frame_trans [OF f ui_frame_trans [OF frame_flag frame_deliver]])
    show ?thesis
      using r g ui_frame_trans [OF g frame_outgoing_sync] ui_frame_trans [OF f frame_recover]
      by (cases x) (auto simp: Let_def split: option.splits)
  qed
  then show ?thesis
    unfolding m handle_incomming_message.simps by (cases bs) (auto split: result.splits)
qed

lemma frame_receive [simp]: "ui_frame a (handle_receive L env i a)"
proof -
  obtain x c where r: "receive i (mgr_conn a) = (x, c)" by fastforce
  have f: "ui_frame a (a\<lparr>mgr_conn := c\<rparr>)"
    using own_conn_notifiers(2) [of i "mgr_conn a"] r by (simp add: ui_frame_def)
  show ?thesis
    using f ui_frame_trans [OF f frame_incomming] r by (cases x) (simp_all add: handle_receive_def)
qed

lemma frame_tick [simp]: "ui_frame a (handle_tick L env a)"
  by (auto simp: handle_tick_def ui_frame_def [of a "a\<lparr>mgr_conn := c\<rparr>" for c]
      split: chat_connection_state.splits)

lemma frame_outgoing [simp]: "ui_frame a (snd (handle_outgoing_message L env m a))"
proof (cases m)
  case None
  then show ?thesis by (simp add: handle_outgoing_message_def)
next
  case (Some im)
  have upd: "ui_frame a (b\<lparr>replies := rs\<rparr>) \<longleftrightarrow> ui_frame a b" for b rs
    by (simp add: ui_frame_def)
  show ?thesis
  proof (cases im)
    case (Single c t)
    obtain x a1 where r: "with_repo (add_message (lib_am L) (env_sql env) (lib_show_id L) (env_now env)
        (env_new_msg_id env) c) a = (x, a1)" by fastforce
    have f: "ui_frame a a1" by (rule frame_with_repo [OF r]) (rule add_message_advances)
    show ?thesis
      using Some Single r f ui_frame_trans [OF f frame_outgoing_sync]
      by (cases x) (auto simp: handle_outgoing_message_def Let_def upd)
  next
    case (All t)
    then show ?thesis
      using Some by (auto simp: handle_outgoing_message_def upd split: may_panic.splits)
  next
    case (PassAcceptedConnHandle h)
    then show ?thesis using Some by (simp add: handle_outgoing_message_def ui_frame_def)
  qed
qed

text \<open>The three handlers that tell the receiver.\<close>

lemma ui_inv_sync_status: "ui_inv L a \<Longrightarrow> ui_inv L (handle_sync_status a)"
  by (auto simp: handle_sync_status_def ui_inv_def conn_unseen_def sync_unseen_def Let_def split: option.splits)

lemma ui_inv_conn_changed: "ui_inv L a \<Longrightarrow> ui_inv L (handle_conn_changed L env a)"
proof -
  assume a: "ui_inv L a"
  let ?st = "watch_value (state_notifier (mgr_conn a))"
  let ?b = "announce_state L ?st (a\<lparr>conn_seen := watch_version (state_notifier (mgr_conn a))\<rparr>)"
  have b: "ui_inv L ?b"
    using a by (auto simp: announce_state_def ui_inv_def conn_unseen_def sync_unseen_def split: option.splits)
  have "ui_frame ?b (?b\<lparr>mgr_doc := reset_sync_state (lib_am L) (mgr_doc ?b)\<rparr>)"
    by (simp add: ui_frame_def reset_sync_state_def)
  from ui_inv_frame [OF ui_frame_trans [OF this frame_sync_now] b] b
  show ?thesis
    by (cases ?st) (simp_all add: handle_conn_changed_def handle_connection_state_change_def Let_def)
qed

lemma ui_inv_subscription:
  "ui_inv L a \<Longrightarrow> ui_inv L (snd (handle_subscription L env m a))"
  by (auto simp: handle_subscription_def ui_inv_def conn_unseen_def sync_unseen_def Let_def
      split: option.splits)

lemma ui_inv_queues:
  "ui_inv L (a\<lparr>in_queue := q\<rparr>) \<longleftrightarrow> ui_inv L a" "ui_inv L (a\<lparr>subscribe_queue := q'\<rparr>) \<longleftrightarrow> ui_inv L a"
  "ui_inv L (a\<lparr>in_senders := x, subscribe_senders := y\<rparr>) \<longleftrightarrow> ui_inv L a"
  by (simp_all add: ui_inv_def conn_unseen_def sync_unseen_def)

lemma ui_inv_turn:
  assumes "ui_inv L a"
  shows "ui_inv L (snd (manager_turn L env a))"
proof -
  have close: "ui_inv L (a\<lparr>mgr_conn := close (mgr_conn a)\<rparr>)"
    by (rule ui_inv_frame [OF _ assms]) (simp add: ui_frame_def)
  have sub: "ui_inv L (snd (handle_subscription L env m (a\<lparr>subscribe_queue := q\<rparr>)))" for m q
    using ui_inv_subscription ui_inv_queues(2) assms by blast
  have out: "ui_inv L (snd (handle_outgoing_message L env m (a\<lparr>in_queue := q\<rparr>)))" for m q
    using ui_inv_frame [OF frame_outgoing] ui_inv_queues(1) assms by blast
  note rest = ui_inv_subscription [OF assms, of env None] ui_inv_frame [OF frame_outgoing assms, of L env None]
    ui_inv_frame [OF frame_tick assms, of L env] ui_inv_sync_status [OF assms]
    ui_inv_conn_changed [OF assms, of env] ui_inv_frame [OF frame_receive assms, of L env]
  show ?thesis
    using assms close sub out rest
    by (simp add: manager_turn_def case_prod_unfold split: list.splits option.splits)
qed

interpretation mgr_ui: invariant_system "mgr_init L" "mgr_move L" "ui_inv L"
  for L :: "('id::linorder, 'd, 't, 'o, 'h, 's, 'm, 'l) chat_lib"
proof unfold_locales
  fix a :: "('id, 'd, 'h, 's) manager_actor"
  assume "mgr_init L a"
  then show "ui_inv L a"
  proof cases
    case (1 r p c env)
    have "ui_inv L (new_manager r p c)"
      by (simp add: ui_inv_def new_manager_def subscribe_to_sync_status_def subscribe_to_state_def)
    then show ?thesis unfolding 1 manager_start_def by (rule ui_inv_conn_changed)
  qed
next
  fix a b :: "('id, 'd, 'h, 's) manager_actor"
  assume "ui_inv L a" "mgr_move L a b"
  from this(2,1) show "ui_inv L b"
  proof (induction rule: mgr_move.induct)
    case (mgr_background a e c)
    then have "ui_frame a (a\<lparr>mgr_conn := c\<rparr>)"
      using conn_step_advances by (simp add: ui_frame_def)
    then show ?case using mgr_background ui_inv_frame by blast
  qed (simp_all add: ui_inv_turn ui_inv_queues)
qed

text \<open>
  C12: The subscribed receiver knows the state of the chat: whenever the actor has no unseen change
  of the connection state left, the last connection state it reported to the receiver is the
  published one, and likewise for the sync status, whatever happened before.
\<close>

theorem receiver_informed:
  assumes "reach (mgr_init L) (mgr_move L) a" "msg_receiver a = Some k"
  shows "(\<not> conn_unseen a \<longrightarrow> shown_state k (ui_calls a) =
      Some (uniffi_state_from (lib_uuid_text L) (watch_value (state_notifier (mgr_conn a))))) \<and>
    (\<not> sync_unseen a \<longrightarrow> shown_sync k (ui_calls a) = Some (watch_value (sync_status_tx (mgr_doc a))))"
  using mgr_ui.reach_inv [OF assms(1)] assms(2) by (auto simp: ui_inv_def)

definition subscribed_manager :: "(nat, bytes, bytes, unit) manager_actor" where
  "subscribed_manager = snd (manager_turn sample_lib sample_turn (snd (manager_turn sample_lib sample_turn
     (sample_manager\<lparr>subscribe_queue := subscribe_queue sample_manager @ [\<lparr>sub_receiver = 4, sub_tx = 30\<rparr>]\<rparr>))))"

lemma sample_turn_foreign: "foreign cid (env_sql sample_turn)"
  by (simp add: sample_turn_def calm_foreign)

lemma subscribed_manager_reach: "reach (mgr_init sample_lib) (mgr_move sample_lib) subscribed_manager"
  unfolding subscribed_manager_def
  by (rule reach_step [OF reach_step [OF reach_step [OF sample_manager_reach mgr_subscribe]
        mgr_turn [OF sample_turn_foreign]] mgr_turn [OF sample_turn_foreign]])

theorem receiver_informed_witness:
  "shown_state 4 (ui_calls subscribed_manager) = Some (UConnected ''u'') \<and>
   shown_sync 4 (ui_calls subscribed_manager) = Some True"
proof -
  have "msg_receiver subscribed_manager = Some 4" "\<not> conn_unseen subscribed_manager"
    "\<not> sync_unseen subscribed_manager"
    "uniffi_state_from (lib_uuid_text sample_lib) (watch_value (state_notifier (mgr_conn subscribed_manager)))
      = UConnected ''u''"
    "watch_value (sync_status_tx (mgr_doc subscribed_manager))"
    by code_simp+
  then show ?thesis
    using receiver_informed [OF subscribed_manager_reach, of 4] by simp
qed

section \<open>Recovery from a failed sync\<close>

text \<open>
  C22: A sync message that cannot be taken in resets the document to what is stored and opens a new
  exchange with the peer, but only once: until a message succeeds again, further failures change
  nothing but what the failed attempts left in the repository. A message that succeeds clears the
  mark, and a message that cannot be decoded is ignored.
\<close>

theorem sync_failure_recovery:
  assumes "with_repo (receive_sync_message (lib_am L) (env_sql env) (lib_show_id L)
      (map_option (\<lambda>bs. m) msg)) a = (x, a1)"
    and "\<forall>bs. msg = Some bs \<longrightarrow> sync_message_try_into (lib_decode L) bs = Ok m"
  shows "reset_doc_state (handle_incomming_message L env (Sync msg) a) =
      (case x of
         Ok _ \<Rightarrow> False
       | Err _ \<Rightarrow> reset_doc_state a \<or>
           is_ok (fst (reset_doc_state_to_persisted (lib_am L) (env_sql env) (lib_show_id L)
             (mgr_doc a1, mgr_pool a1)))) \<and>
    (\<not> is_ok x \<and> reset_doc_state a \<longrightarrow> handle_incomming_message L env (Sync msg) a = a1)"
proof -
  have "handle_incomming_message L env (Sync msg) a =
    (case x of
       Ok (chunks, reply_action) \<Rightarrow>
         (let a2 = deliver_messages chunks (a1\<lparr>reset_doc_state := False\<rparr>)
          in case reply_action of
               Some out_sync_msg \<Rightarrow> handle_outgoing_sync_message L env out_sync_msg a2
             | None \<Rightarrow> a2)
     | Err _ \<Rightarrow> recover_sync L env a1)"
    using assms by (cases msg) (auto split: result.splits)
  moreover have "reset_doc_state a1 = reset_doc_state a"
    using with_repo_fields [OF assms(1)] by simp
  moreover have "reset_doc_state (recover_sync L env a1) = (reset_doc_state a1 \<or>
      is_ok (fst (reset_doc_state_to_persisted (lib_am L) (env_sql env) (lib_show_id L)
             (mgr_doc a1, mgr_pool a1))))"
    by (auto simp: recover_sync_def with_repo_def split: prod.splits result.splits)
  ultimately show ?thesis
    by (auto simp: recover_sync_def Let_def split: result.splits option.splits)
qed

text \<open>A database that refuses the second statement.\<close>

theorem sync_failure_recovery_witness:
  "reset_doc_state (handle_incomming_message sample_lib
     (sample_turn\<lparr>env_sql := calm\<lparr>fault := \<lambda>n. if n = 2 then Some ''disk'' else None\<rparr>\<rparr>)
     (Sync (Some (SyncMessage [9]))) sample_manager)"
proof -
  let ?env = "sample_turn\<lparr>env_sql := calm\<lparr>fault := \<lambda>n. if n = 2 then Some ''disk'' else None\<rparr>\<rparr>"
  let ?w = "with_repo (receive_sync_message (lib_am sample_lib) (env_sql ?env) (lib_show_id sample_lib)
      (map_option (\<lambda>bs. 9) (Some (SyncMessage [9])))) sample_manager"
  have "fst ?w = Err (Sqlx ''disk'')"
    "is_ok (fst (reset_doc_state_to_persisted (lib_am sample_lib) (env_sql ?env) (lib_show_id sample_lib)
       (mgr_doc (snd ?w), mgr_pool (snd ?w))))"
    by code_simp+
  moreover have "sync_message_try_into (lib_decode sample_lib) (SyncMessage [9]) = Ok 9"
    by (simp add: sample_lib_def)
  moreover obtain a1 where "?w = (Err (Sqlx ''disk''), a1)"
    using calculation(1) by (metis prod.exhaust_sel)
  ultimately show ?thesis
    using sync_failure_recovery [of sample_lib ?env 9 "Some (SyncMessage [9])" sample_manager
        "Err (Sqlx ''disk'')" a1] by simp
qed

section \<open>Abandoned calls\<close>

text \<open>
  C33: A caller that stops waiting stops the manager: when the answer to a request for messages, or
  to a new message, can no longer be delivered, the actor ends with an error, its connection is
  closed, and whatever is queued behind the request stays unanswered.
\<close>

theorem abandoned_call_stops_manager:
  assumes "manager_turn L env a = (st, b)" "in_queue a = m # ms" "request_tag m = [t]"
    and "\<not> env_reply_open env" "\<not> env_cancelled env" "\<not> env_tick env"
    and "\<not> sync_unseen a" "\<not> conn_unseen a" "subscribe_queue a = []" "subscribe_senders a"
  shows "(\<exists>e. st = MgrExited (Err e)) \<and> in_queue b = ms \<and> replies b = replies a \<and>
    manager_run L (env # envs) a = (st, b)"
proof -
  have h: "handle_outgoing_message L env (Some m) (a\<lparr>in_queue := ms\<rparr>) = (st, b)"
    using assms by (simp add: manager_turn_def sync_unseen_def conn_unseen_def)
  have "(\<exists>e. st = MgrExited (Err e)) \<and> in_queue b = ms \<and> replies b = replies a"
  proof (cases m)
    case (Single c u)
    obtain x a1 where r: "with_repo (add_message (lib_am L) (env_sql env) (lib_show_id L) (env_now env)
        (env_new_msg_id env) c) (a\<lparr>in_queue := ms\<rparr>) = (x, a1)" by fastforce
    show ?thesis
      using h Single r with_repo_fields(1,3) [OF r] assms(4)
      by (cases x) (auto simp: handle_outgoing_message_def Let_def)
  next
    case (All u)
    obtain x where "get_all_messages (lib_build L) (lib_am L) (mgr_doc a) = Return x"
      using get_all_messages_returns by blast
    then show ?thesis using h All assms(4) by (auto simp: handle_outgoing_message_def)
  next
    case (PassAcceptedConnHandle hd)
    then show ?thesis using assms(3) by simp
  qed
  then show ?thesis using assms(1) by auto
qed

theorem abandoned_call_stops_manager_witness:
  "\<exists>e b. manager_run sample_lib [sample_turn\<lparr>env_reply_open := False\<rparr>]
     ((snd (manager_turn sample_lib sample_turn sample_manager))\<lparr>in_queue := [All 21, All 22]\<rparr>) =
       (MgrExited (Err e), b) \<and> in_queue b = [All 22]"
proof -
  let ?a = "(snd (manager_turn sample_lib sample_turn sample_manager))\<lparr>in_queue := [All 21, All 22]\<rparr>"
  let ?env = "sample_turn\<lparr>env_reply_open := False\<rparr>"
  obtain st b where t: "manager_turn sample_lib ?env ?a = (st, b)" by fastforce
  have "\<not> sync_unseen ?a" "\<not> conn_unseen ?a" "subscribe_queue ?a = []" "subscribe_senders ?a"
    by code_simp+
  then show ?thesis
    using abandoned_call_stops_manager [OF t, of "All 21" "[All 22]" 21 "[]"]
    by (auto simp: sample_turn_def)
qed

end
