(* ===== verification/Tryst.thy ===== *)
theory Tryst
  imports Persistence
begin

text \<open>
  The trust relationships (\<^verbatim>\<open>src/protocols/tryst\<close>): the epoch secrets as they are in this
  snapshot of the code, the stored relationships and their table
  (\<^verbatim>\<open>migrations/20250207000000_tryst.sql\<close>), and the invitations. How identifiers print and parse
  is a parameter.
\<close>

section \<open>Epoch secrets\<close>

text \<open>A secret is an array of 32 bytes; \<open>secret_ok\<close> is the length that the array type guarantees.\<close>

datatype epoch_secret = EpochSecret bytes

fun secret_to_bytes :: "epoch_secret \<Rightarrow> bytes" where
  "secret_to_bytes (EpochSecret b) = b"

definition secret_ok :: "epoch_secret \<Rightarrow> bool" where
  "secret_ok s \<longleftrightarrow> length (secret_to_bytes s) = 32"

definition secret_from :: "bytes \<Rightarrow> epoch_secret" where
  "secret_from b = EpochSecret b"

text \<open>\<^verbatim>\<open>try_into\<close> from a vector to an array of 32 bytes.\<close>

definition bytes32 :: "string \<Rightarrow> bytes \<Rightarrow> (bytes, lib_error) result" where
  "bytes32 err b = (if length b = 32 then Ok b else Err (Unexpected err))"

text \<open>The primitives of this snapshot: time stands still and nothing is transformed.\<close>

definition current_epoch :: "64 word" where
  "current_epoch = 0"

definition ratchet_secret :: "epoch_secret \<Rightarrow> epoch_secret" where
  "ratchet_secret s = s"

definition secret_encrypt :: "epoch_secret \<Rightarrow> bytes \<Rightarrow> (bytes, string) result" where
  "secret_encrypt s plaintext = Ok plaintext"

definition secret_decrypt :: "epoch_secret \<Rightarrow> bytes \<Rightarrow> (bytes, string) result" where
  "secret_decrypt s ciphertext = Ok ciphertext"

definition secret_generate :: "(nat \<Rightarrow> byte) \<Rightarrow> epoch_secret" where
  "secret_generate fill = EpochSecret (map fill [0..<32])"

definition dht_key :: "(bytes \<Rightarrow> 'k) \<Rightarrow> epoch_secret \<Rightarrow> 'id \<Rightarrow> 'k" where
  "dht_key key_from_bytes s account = key_from_bytes (secret_to_bytes s)"

definition calculate_sas :: "epoch_secret \<Rightarrow> 'id \<Rightarrow> 'id \<Rightarrow> 32 word" where
  "calculate_sas s mine other = 0"

definition encrypt_symmetric :: "'k \<Rightarrow> bytes \<Rightarrow> (bytes, string) result" where
  "encrypt_symmetric k plaintext = Ok plaintext"

definition decrypt_symmetric :: "'k \<Rightarrow> bytes \<Rightarrow> (bytes, string) result" where
  "decrypt_symmetric k ciphertext = Ok ciphertext"

text \<open>A fresh secret has the length that the array type guarantees.\<close>

lemma secret_generate_ok: "secret_ok (secret_generate fill)"
  by (simp add: secret_generate_def secret_ok_def)

section \<open>Stored relationships\<close>

record 'id stored_tryst =
  tryst_id :: uuid
  account_id :: "'id option"
  current_secret :: epoch_secret
  previous_secret :: "epoch_secret option"
  last_updated_epoch :: "64 word"
  is_verified :: bool

definition ratchet_if_needed :: "'id stored_tryst \<Rightarrow> bool \<times> 'id stored_tryst" where
  "ratchet_if_needed t = (False, t)"

text \<open>A row of the table; an \<^verbatim>\<open>INTEGER\<close> column holds a signed number.\<close>

record raw_tryst =
  raw_id :: string
  raw_account_id :: "string option"
  raw_current_secret :: bytes
  raw_previous_secret :: "bytes option"
  raw_last_updated_epoch :: int
  raw_is_verified :: bool

record 'id id_text =
  show_uuid :: "uuid \<Rightarrow> string"
  parse_uuid :: "string \<Rightarrow> uuid option"
  show_endpoint :: "'id \<Rightarrow> string"
  parse_endpoint :: "string \<Rightarrow> 'id option"

definition raw_of :: "'id id_text \<Rightarrow> 'id stored_tryst \<Rightarrow> raw_tryst" where
  "raw_of T t =
     \<lparr>raw_id = show_uuid T (tryst_id t),
      raw_account_id = map_option (show_endpoint T) (account_id t),
      raw_current_secret = secret_to_bytes (current_secret t),
      raw_previous_secret = map_option secret_to_bytes (previous_secret t),
      raw_last_updated_epoch = sint (last_updated_epoch t),
      raw_is_verified = is_verified t\<rparr>"

definition stored_tryst_try_from :: "'id id_text \<Rightarrow> raw_tryst \<Rightarrow> ('id stored_tryst, lib_error) result"
where
  "stored_tryst_try_from T row =
     and_then (case parse_uuid T (raw_id row) of
                 Some i \<Rightarrow> Ok i | None \<Rightarrow> Err (Unexpected ''Invalid UUID in DB'')) (\<lambda>i.
     and_then (case raw_account_id row of
                 Some s \<Rightarrow> (case parse_endpoint T s of
                              Some e \<Rightarrow> Ok (Some e)
                            | None \<Rightarrow> Err (Unexpected ''Invalid EndpointId in DB''))
               | None \<Rightarrow> Ok None) (\<lambda>acc.
     and_then (bytes32 ''Invalid secret length'' (raw_current_secret row)) (\<lambda>cur.
     and_then (case raw_previous_secret row of
                 Some b \<Rightarrow> map_ok (\<lambda>x. Some (secret_from x)) (bytes32 ''Invalid previous secret length'' b)
               | None \<Rightarrow> Ok None) (\<lambda>prev.
       Ok \<lparr>tryst_id = i, account_id = acc, current_secret = secret_from cur, previous_secret = prev,
           last_updated_epoch = word_of_int (raw_last_updated_epoch row),
           is_verified = raw_is_verified row\<rparr>))))"

section \<open>The table\<close>

record tryst_db =
  tryst_rows :: "raw_tryst list"
  tryst_tick :: nat

text \<open>
  Insert or update: the id is the primary key, and no two rows may have the same account id unless
  it is null.
\<close>

definition account_taken :: "raw_tryst \<Rightarrow> raw_tryst list \<Rightarrow> bool" where
  "account_taken row rows \<longleftrightarrow>
     raw_account_id row \<noteq> None \<and>
     (\<exists>r\<in>set rows. raw_id r \<noteq> raw_id row \<and> raw_account_id r = raw_account_id row)"

definition upsert_tryst :: "raw_tryst \<Rightarrow> raw_tryst list \<Rightarrow> (unit, lib_error) result \<times> raw_tryst list"
where
  "upsert_tryst row rows =
     (if account_taken row rows
      then (Err (Sqlx ''UNIQUE constraint failed: tryst.account_id''), rows)
      else if \<exists>r\<in>set rows. raw_id r = raw_id row
      then (Ok (), map (\<lambda>r. if raw_id r = raw_id row then row else r) rows)
      else (Ok (), rows @ [row]))"

definition tryst_exec ::
  "(nat \<Rightarrow> string option) \<Rightarrow> (raw_tryst list \<Rightarrow> ('a, lib_error) result \<times> raw_tryst list)
     \<Rightarrow> (tryst_db, 'a, lib_error) io" where
  "tryst_exec faults stmt d =
     (case faults (tryst_tick d) of
        Some e \<Rightarrow> (Err (Sqlx e), d\<lparr>tryst_tick := Suc (tryst_tick d)\<rparr>)
      | None \<Rightarrow> (case stmt (tryst_rows d) of
                  (r, rows) \<Rightarrow> (r, \<lparr>tryst_rows = rows, tryst_tick = Suc (tryst_tick d)\<rparr>)))"

definition tryst_save ::
  "'id id_text \<Rightarrow> (nat \<Rightarrow> string option) \<Rightarrow> 'id stored_tryst \<Rightarrow> (tryst_db, unit, lib_error) io" where
  "tryst_save T faults t = tryst_exec faults (upsert_tryst (raw_of T t))"

text \<open>A relationship that was ratcheted forward is saved; a failure to save it is only logged.\<close>

definition ratchet_and_save_tryst ::
  "'id id_text \<Rightarrow> (nat \<Rightarrow> string option) \<Rightarrow> 'id stored_tryst \<Rightarrow> tryst_db \<Rightarrow> 'id stored_tryst \<times> tryst_db" where
  "ratchet_and_save_tryst T faults t d =
     (case ratchet_if_needed t of
        (True, t') \<Rightarrow> (t', snd (tryst_save T faults t' d))
      | (False, t') \<Rightarrow> (t', d))"

definition fetch_optional :: "(raw_tryst \<Rightarrow> bool) \<Rightarrow> raw_tryst list \<Rightarrow> (raw_tryst option, lib_error) result \<times> raw_tryst list"
where
  "fetch_optional P rows = (Ok (find P rows), rows)"

definition get_where ::
  "'id id_text \<Rightarrow> (nat \<Rightarrow> string option) \<Rightarrow> (raw_tryst \<Rightarrow> bool)
     \<Rightarrow> (tryst_db, 'id stored_tryst option, lib_error) io" where
  "get_where T faults P =
     io_bind (tryst_exec faults (fetch_optional P)) (\<lambda>found d.
       case found of
         None \<Rightarrow> (Ok None, d)
       | Some row \<Rightarrow>
           (case stored_tryst_try_from T row of
              Err _ \<Rightarrow> (Ok None, d)
            | Ok t \<Rightarrow> (case ratchet_and_save_tryst T faults t d of (t', d') \<Rightarrow> (Ok (Some t'), d'))))"

definition tryst_get ::
  "'id id_text \<Rightarrow> (nat \<Rightarrow> string option) \<Rightarrow> uuid \<Rightarrow> (tryst_db, 'id stored_tryst option, lib_error) io"
where
  "tryst_get T faults i = get_where T faults (\<lambda>r. raw_id r = show_uuid T i)"

definition tryst_get_by_account_id ::
  "'id id_text \<Rightarrow> (nat \<Rightarrow> string option) \<Rightarrow> 'id \<Rightarrow> (tryst_db, 'id stored_tryst option, lib_error) io"
where
  "tryst_get_by_account_id T faults e =
     get_where T faults (\<lambda>r. raw_account_id r = Some (show_endpoint T e))"

fun ok_rows :: "'id id_text \<Rightarrow> raw_tryst list \<Rightarrow> 'id stored_tryst list" where
  "ok_rows T [] = []"
| "ok_rows T (r # rs) = (case stored_tryst_try_from T r of Ok t \<Rightarrow> t # ok_rows T rs | Err _ \<Rightarrow> ok_rows T rs)"

fun ratchet_all ::
  "'id id_text \<Rightarrow> (nat \<Rightarrow> string option) \<Rightarrow> 'id stored_tryst list \<Rightarrow> tryst_db
     \<Rightarrow> 'id stored_tryst list \<times> tryst_db" where
  "ratchet_all T faults [] d = ([], d)"
| "ratchet_all T faults (t # ts) d =
     (case ratchet_and_save_tryst T faults t d of
        (t', d') \<Rightarrow> (case ratchet_all T faults ts d' of (ts', d'') \<Rightarrow> (t' # ts', d'')))"

definition tryst_get_all ::
  "'id id_text \<Rightarrow> (nat \<Rightarrow> string option) \<Rightarrow> (tryst_db, 'id stored_tryst list, lib_error) io" where
  "tryst_get_all T faults =
     io_bind (tryst_exec faults (\<lambda>rows. (Ok rows, rows))) (\<lambda>rows d.
       case ratchet_all T faults (ok_rows T rows) d of (ts, d') \<Rightarrow> (Ok ts, d'))"

section \<open>Invitations\<close>

datatype 'id create_invite_type = Sealed 'id

record 'id invite_manager =
  invite_sender :: 'id

definition INVITE_PREFIX :: string where
  "INVITE_PREFIX = ''gossip://invite/stub/''"

definition create_invite_str ::
  "'id id_text \<Rightarrow> 'id invite_manager \<Rightarrow> 'id create_invite_type \<Rightarrow> (string, lib_error) result" where
  "create_invite_str T m invite_type = Ok (INVITE_PREFIX @ show_endpoint T (invite_sender m))"

definition receive_invite_str ::
  "'id id_text \<Rightarrow> 'id invite_manager \<Rightarrow> string \<Rightarrow> ('id, lib_error) result" where
  "receive_invite_str T m invite_str =
     (case strip_prefix INVITE_PREFIX invite_str of
        Some pk_str \<Rightarrow>
          (case parse_endpoint T pk_str of
             Some pk \<Rightarrow> Ok pk
           | None \<Rightarrow> Err (Unexpected ''Invalid or unsupported invitation format in this public snapshot.''))
      | None \<Rightarrow> Err (Unexpected ''Invalid or unsupported invitation format in this public snapshot.''))"

section \<open>Rows\<close>

definition id_text_laws :: "'id id_text \<Rightarrow> bool" where
  "id_text_laws T \<longleftrightarrow>
     (\<forall>u. parse_uuid T (show_uuid T u) = Some u) \<and> (\<forall>e. parse_endpoint T (show_endpoint T e) = Some e)"

definition tryst_ok :: "'id stored_tryst \<Rightarrow> bool" where
  "tryst_ok t \<longleftrightarrow> secret_ok (current_secret t) \<and> pred_option secret_ok (previous_secret t)"

lemma secret_from_bytes [simp]: "secret_from (secret_to_bytes s) = s"
  by (cases s) (simp add: secret_from_def)

interpretation rows: codec "raw_of T" "stored_tryst_try_from T" "\<lambda>t. id_text_laws T \<and> tryst_ok t"
  for T :: "'id id_text"
  by unfold_locales
    (auto simp: raw_of_def stored_tryst_try_from_def id_text_laws_def tryst_ok_def bytes32_def
      secret_ok_def split: option.splits)

lemma show_uuid_inject: "id_text_laws T \<Longrightarrow> show_uuid T u = show_uuid T v \<longleftrightarrow> u = v"
  by (metis id_text_laws_def option.inject)

lemma show_endpoint_inject: "id_text_laws T \<Longrightarrow> show_endpoint T u = show_endpoint T v \<longleftrightarrow> u = v"
  by (metis id_text_laws_def option.inject)

lemma raw_of_ids:
  assumes "id_text_laws T"
  shows "raw_id (raw_of T t) = show_uuid T u \<longleftrightarrow> tryst_id t = u"
    "raw_account_id (raw_of T t) = Some (show_endpoint T e) \<longleftrightarrow> account_id t = Some e"
    "raw_account_id (raw_of T t) = raw_account_id (raw_of T t') \<longleftrightarrow> account_id t = account_id t'"
    "raw_id (raw_of T t) = raw_id (raw_of T t') \<longleftrightarrow> tryst_id t = tryst_id t'"
    "raw_account_id (raw_of T t) = None \<longleftrightarrow> account_id t = None"
  using show_uuid_inject [OF assms] show_endpoint_inject [OF assms]
  by (auto simp: raw_of_def option.map_comp intro: option.inj_map_strong
      elim!: option.inj_map_strong [rotated])

section \<open>The repository as a map\<close>

text \<open>
  A table that holds the relationships \<open>ts\<close>: one row for each, with distinct ids, and no account in
  two of them.
\<close>

definition table_holds :: "'id id_text \<Rightarrow> raw_tryst list \<Rightarrow> 'id stored_tryst list \<Rightarrow> bool" where
  "table_holds T rs ts \<longleftrightarrow>
     rs = map (raw_of T) ts \<and> (\<forall>t\<in>set ts. tryst_ok t) \<and> distinct (map tryst_id ts) \<and>
     (\<forall>t\<in>set ts. \<forall>t'\<in>set ts. account_id t \<noteq> None \<longrightarrow> account_id t = account_id t' \<longrightarrow> t = t')"

definition tryst_map :: "'id stored_tryst list \<Rightarrow> uuid \<rightharpoonup> 'id stored_tryst" where
  "tryst_map ts u = find (\<lambda>t. tryst_id t = u) ts"

text \<open>Another relationship already has the account of \<open>t\<close>.\<close>

definition conflicting :: "'id stored_tryst \<Rightarrow> 'id stored_tryst list \<Rightarrow> bool" where
  "conflicting t ts \<longleftrightarrow>
     account_id t \<noteq> None \<and> (\<exists>t'\<in>set ts. tryst_id t' \<noteq> tryst_id t \<and> account_id t' = account_id t)"

lemma account_taken_iff:
  "id_text_laws T \<Longrightarrow> account_taken (raw_of T t) (map (raw_of T) ts) \<longleftrightarrow> conflicting t ts"
  by (simp add: account_taken_def conflicting_def raw_of_ids)

lemma find_map_upd:
  "find (\<lambda>x. tryst_id x = u) (map (\<lambda>r. if tryst_id r = tryst_id new then new else r) ts) =
     (if u = tryst_id new \<and> (\<exists>x\<in>set ts. tryst_id x = tryst_id new) then Some new
      else find (\<lambda>x. tryst_id x = u) ts)"
  by (induction ts) auto

lemma upsert_holds:
  assumes "id_text_laws T" "tryst_ok t" "table_holds T rs ts" "\<not> conflicting t ts"
  obtains rs' ts' where "upsert_tryst (raw_of T t) rs = (Ok (), rs')" "table_holds T rs' ts'"
    "tryst_map ts' = (tryst_map ts)(tryst_id t \<mapsto> t)"
proof (cases "\<exists>x\<in>set ts. tryst_id x = tryst_id t")
  case True
  let ?ts = "map (\<lambda>x. if tryst_id x = tryst_id t then t else x) ts"
  have ids: "map tryst_id ?ts = map tryst_id ts" by auto
  have "table_holds T (map (raw_of T) ?ts) ?ts"
    using assms(2-4) unfolding table_holds_def ids conflicting_def by fastforce
  moreover have "upsert_tryst (raw_of T t) rs = (Ok (), map (raw_of T) ?ts)"
    using assms True
    by (auto simp: upsert_tryst_def table_holds_def account_taken_iff raw_of_ids)
  moreover have "tryst_map ?ts = (tryst_map ts)(tryst_id t \<mapsto> t)"
    using True by (simp add: fun_eq_iff tryst_map_def find_map_upd)
  ultimately show thesis using that by blast
next
  case False
  let ?ts = "ts @ [t]"
  have "table_holds T (map (raw_of T) ?ts) ?ts"
    using assms(2-4) False unfolding table_holds_def conflicting_def by fastforce
  moreover have "upsert_tryst (raw_of T t) rs = (Ok (), map (raw_of T) ?ts)"
    using assms False
    by (auto simp: upsert_tryst_def table_holds_def account_taken_iff raw_of_ids)
  moreover have "tryst_map ?ts = (tryst_map ts)(tryst_id t \<mapsto> t)"
  proof -
    have "find (\<lambda>x. tryst_id x = u) (ts @ [t]) =
        (if u = tryst_id t then Some t else find (\<lambda>x. tryst_id x = u) ts)" for u
      using False by (induction ts) auto
    then show ?thesis by (auto simp: tryst_map_def)
  qed
  ultimately show thesis using that by blast
qed

text \<open>
  C14: Saving a relationship stores exactly it under its id and changes no other, whatever its epoch
  (an unsigned number that the table keeps as a signed one); it is refused, and the table stays as
  it was, exactly when another relationship has the same account.
\<close>

theorem tryst_save_refines_map:
  assumes "id_text_laws T" "tryst_ok t" "table_holds T (tryst_rows d) ts" "faults (tryst_tick d) = None"
  shows "\<exists>x d' ts'. tryst_save T faults t d = (x, d') \<and> table_holds T (tryst_rows d') ts' \<and>
    (if conflicting t ts then \<not> is_ok x \<and> ts' = ts
     else x = Ok () \<and> tryst_map ts' = (tryst_map ts)(tryst_id t \<mapsto> t))"
proof (cases "conflicting t ts")
  case True
  have "upsert_tryst (raw_of T t) (tryst_rows d) =
      (Err (Sqlx ''UNIQUE constraint failed: tryst.account_id''), tryst_rows d)"
    using True assms(1,3) by (simp add: upsert_tryst_def table_holds_def account_taken_iff)
  then show ?thesis
    using True assms(3,4) by (auto simp: tryst_save_def tryst_exec_def)
next
  case False
  then obtain rs' ts' where "upsert_tryst (raw_of T t) (tryst_rows d) = (Ok (), rs')"
      "table_holds T rs' ts'" "tryst_map ts' = (tryst_map ts)(tryst_id t \<mapsto> t)"
    using upsert_holds [OF assms(1-3)] by blast
  then show ?thesis
    using False assms(4) by (intro exI [of _ "Ok ()"] exI [of _ _] exI [of _ ts'])
      (auto simp: tryst_save_def tryst_exec_def)
qed

text \<open>Reading.\<close>

lemma find_map: "find P (map f xs) = map_option f (find (P \<circ> f) xs)"
  by (induction xs) auto

lemma ratchet_keeps [simp]: "ratchet_and_save_tryst T faults t d = (t, d)"
  by (simp add: ratchet_and_save_tryst_def ratchet_if_needed_def)

lemma ratchet_all_keeps [simp]: "ratchet_all T faults ts d = (ts, d)"
  by (induction ts) auto

lemma ok_rows_holds: "id_text_laws T \<Longrightarrow> \<forall>t\<in>set ts. tryst_ok t \<Longrightarrow> ok_rows T (map (raw_of T) ts) = ts"
  by (induction ts) (auto simp: rows.dec_enc)

lemma get_where_holds:
  assumes "id_text_laws T" "table_holds T (tryst_rows d) ts" "faults (tryst_tick d) = None"
  shows "fst (get_where T faults P d) = Ok (find (P \<circ> raw_of T) ts)"
proof (cases "find (P \<circ> raw_of T) ts")
  case None
  then show ?thesis
    using assms by (simp add: get_where_def io_bind_def tryst_exec_def fetch_optional_def
        table_holds_def find_map)
next
  case (Some t)
  then have "tryst_ok t" using assms(2) by (auto simp: table_holds_def find_Some_iff)
  then show ?thesis
    using assms Some rows.dec_enc [of T t]
    by (simp add: get_where_def io_bind_def tryst_exec_def fetch_optional_def table_holds_def find_map)
qed

text \<open>
  C31: Reading gives back what was saved: the relationship of an id, the one relationship of an
  account, and all relationships.
\<close>

theorem tryst_reads:
  assumes "id_text_laws T" "table_holds T (tryst_rows d) ts" "faults (tryst_tick d) = None"
  shows "fst (tryst_get T faults u d) = Ok (tryst_map ts u) \<and>
    fst (tryst_get_by_account_id T faults e d) = Ok (find (\<lambda>t. account_id t = Some e) ts) \<and>
    fst (tryst_get_all T faults d) = Ok ts"
proof -
  have "(\<lambda>r. raw_id r = show_uuid T u) \<circ> raw_of T = (\<lambda>t. tryst_id t = u)"
    "(\<lambda>r. raw_account_id r = Some (show_endpoint T e)) \<circ> raw_of T = (\<lambda>t. account_id t = Some e)"
    using raw_of_ids [OF assms(1)] by auto
  moreover have "fst (tryst_get_all T faults d) = Ok ts"
    using assms ok_rows_holds [OF assms(1)]
    by (simp add: tryst_get_all_def io_bind_def tryst_exec_def table_holds_def)
  ultimately show ?thesis
    using get_where_holds [of T d ts faults, OF assms]
    by (simp add: tryst_get_def tryst_get_by_account_id_def tryst_map_def)
qed

section \<open>Examples\<close>

text \<open>Identifiers as text, one character for each unit.\<close>

definition sample_text :: "nat id_text" where
  "sample_text = \<lparr>show_uuid = (\<lambda>u. sample_show (unat u)), parse_uuid = map_option of_nat \<circ> sample_parse,
     show_endpoint = sample_show, parse_endpoint = sample_parse\<rparr>"

lemma sample_text_laws: "id_text_laws sample_text"
  using sample_id_laws by (auto simp: id_text_laws_def id_laws_def sample_text_def)

definition sample_tryst :: "nat stored_tryst" where
  "sample_tryst = \<lparr>tryst_id = 3, account_id = Some 5, current_secret = EpochSecret (replicate 32 7),
     previous_secret = None, last_updated_epoch = - 1, is_verified = True\<rparr>"

definition empty_trysts :: tryst_db where
  "empty_trysts = \<lparr>tryst_rows = [], tryst_tick = 0\<rparr>"

lemma sample_tryst_ok: "tryst_ok sample_tryst"
  by (simp add: tryst_ok_def sample_tryst_def secret_ok_def)

lemma empty_trysts_hold: "table_holds T (tryst_rows empty_trysts) []"
  by (simp add: table_holds_def empty_trysts_def)

theorem tryst_save_refines_map_witness:
  "\<exists>d' ts'. tryst_save sample_text (\<lambda>_. None) sample_tryst empty_trysts = (Ok (), d') \<and>
    table_holds sample_text (tryst_rows d') ts' \<and> tryst_map ts' 3 = Some sample_tryst"
proof -
  have "tryst_id sample_tryst = 3" by (simp add: sample_tryst_def)
  then show ?thesis
    using tryst_save_refines_map [OF sample_text_laws sample_tryst_ok empty_trysts_hold, of "\<lambda>_. None"]
    by (auto simp: conflicting_def) (metis fun_upd_same)
qed

theorem tryst_reads_witness:
  "fst (tryst_get sample_text (\<lambda>_. None) 3 \<lparr>tryst_rows = [raw_of sample_text sample_tryst], tryst_tick = 0\<rparr>) =
     Ok (Some sample_tryst)"
proof -
  have "table_holds sample_text
      (tryst_rows \<lparr>tryst_rows = [raw_of sample_text sample_tryst], tryst_tick = 0\<rparr>) [sample_tryst]"
    using sample_tryst_ok by (simp add: table_holds_def)
  then show ?thesis
    using tryst_reads [OF sample_text_laws, of "\<lparr>tryst_rows = [raw_of sample_text sample_tryst], tryst_tick = 0\<rparr>"
      "[sample_tryst]" "\<lambda>_. None" 3]
    by (simp add: tryst_map_def) (simp add: sample_tryst_def)
qed

section \<open>Invitations\<close>

text \<open>
  C35: An invitation redeems to the endpoint that created it, whoever redeems it; a text redeems
  exactly when it is the prefix followed by the text of an endpoint, and is refused otherwise.
\<close>

theorem invite_roundtrip:
  assumes "id_text_laws T"
  shows "(\<exists>s. create_invite_str T m i = Ok s \<and> receive_invite_str T m' s = Ok (invite_sender m)) \<and>
    (receive_invite_str T m' s = Ok e \<longleftrightarrow> (\<exists>k. s = INVITE_PREFIX @ k \<and> parse_endpoint T k = Some e)) \<and>
    (\<forall>x. receive_invite_str T m' s = Err x \<longrightarrow>
       gossip_error_from x = Internal ''Invalid or unsupported invitation format in this public snapshot.'')"
  using assms
  by (auto simp: create_invite_str_def receive_invite_str_def id_text_laws_def
      gossip_error_from_anyhow_def strip_prefix_Some_iff split: option.splits)

theorem invite_roundtrip_witness:
  "\<exists>s. create_invite_str sample_text \<lparr>invite_sender = 5\<rparr> (Sealed 3) = Ok s \<and>
     receive_invite_str sample_text \<lparr>invite_sender = 3\<rparr> s = Ok 5"
  using invite_roundtrip [OF sample_text_laws, of "\<lparr>invite_sender = 5\<rparr>" "Sealed 3" "\<lparr>invite_sender = 3\<rparr>"]
  unfolding invite_manager.simps by blast

end
