(* ===== verification/Network.thy ===== *)
theory Network
  imports Protocol_Handler Tryst
begin

text \<open>
  The network endpoint (\<^verbatim>\<open>src/network_endpoint.rs\<close>) and the discovery layer as it is in this
  snapshot of the code (\<^verbatim>\<open>src/protocols/tryst/discovery.rs\<close>). Binding the endpoint and routing
  connections to protocols is left to the network library.
\<close>

section \<open>The endpoint\<close>

definition ALPN :: string where
  "ALPN = ''/gossip/chat/0''"

text \<open>\<open>net_router\<close>: the protocols that the router accepts connections for.\<close>

record 'id network_endpoint =
  net_endpoint :: 'id
  net_router :: "string list"
  net_chat :: "'id chat_protocol"

text \<open>\<open>bind\<close> is the answer of the network library for the key of endpoint \<open>me\<close>.\<close>

definition network_start ::
  "(unit, string) result \<Rightarrow> 'id \<Rightarrow> ('id network_endpoint, lib_error) result" where
  "network_start bind me =
     and_then (map_err (\<lambda>_. Unexpected ''Failed to bind endpoint connection with selected discovery methods.'')
       bind) (\<lambda>_.
       let chat = chat_protocol_new
       in Ok \<lparr>net_endpoint = me, net_router = [ALPN], net_chat = chat\<rparr>)"

section \<open>Discovery\<close>

text \<open>The builder keeps the repository and ignores every setting; what it builds finds nobody.\<close>

record 'r tryst_discovery =
  discovery_repo :: 'r

record 'r discovery_builder =
  builder_repo :: 'r

definition builder_new :: "'k \<Rightarrow> 'r \<Rightarrow> 'r discovery_builder" where
  "builder_new endpoint_sk repo = \<lparr>builder_repo = repo\<rparr>"

definition builder_ttl :: "32 word \<Rightarrow> 'r discovery_builder \<Rightarrow> 'r discovery_builder" where
  "builder_ttl ttl b = b"

definition builder_include_direct_addresses :: "bool \<Rightarrow> 'r discovery_builder \<Rightarrow> 'r discovery_builder" where
  "builder_include_direct_addresses incl b = b"

definition builder_republish_delay :: "'dur \<Rightarrow> 'r discovery_builder \<Rightarrow> 'r discovery_builder" where
  "builder_republish_delay delay b = b"

definition builder_n0_dns_pkarr_relay ::
  "'r discovery_builder \<Rightarrow> ('r discovery_builder, string) result" where
  "builder_n0_dns_pkarr_relay b = Ok b"

definition builder_build :: "'r discovery_builder \<Rightarrow> ('r tryst_discovery, string) result" where
  "builder_build b = Ok \<lparr>discovery_repo = builder_repo b\<rparr>"

definition discovery_publish :: "'r tryst_discovery \<Rightarrow> 'data \<Rightarrow> 'w \<Rightarrow> 'w" where
  "discovery_publish d data world = world"

definition discovery_resolve :: "'r tryst_discovery \<Rightarrow> 'id \<Rightarrow> 'stream option" where
  "discovery_resolve d e = None"

end
