(* ===== verification/Tables.thy ===== *)
theory Tables
  imports Persistence
begin

text \<open>
  What the tables of the database keep (\<^verbatim>\<open>migrations/20250414093115_setup.sql\<close>): a property
  that every statement keeps is kept by everything that a repository does, whichever statements
  fail and whatever is written meanwhile. Two instances: the row of a chat stays, and the keys of
  the tables are in order.
\<close>

section \<open>Properties kept by the statements\<close>

locale table_invariant =
  fixes P :: "db \<Rightarrow> bool"
  assumes insert_log_keeps: "P d \<Longrightarrow> P (snd (insert_log cid bs d))"
    and insert_chat_keeps: "P d \<Longrightarrow> P (snd (insert_or_ignore_chat cid bs d))"
    and update_keeps: "P d \<Longrightarrow> P (snd (update_document cid bs d))"
    and delete_keeps: "P d \<Longrightarrow> P (snd (delete_log_upto cid n d))"
begin

definition kept :: "(pool, 'a, 'e) io \<Rightarrow> bool" where
  "kept m \<longleftrightarrow> (\<forall>p. P (pool_db p) \<longrightarrow> P (pool_db (snd (m p))))"

lemma keptD: "kept m \<Longrightarrow> P (pool_db p) \<Longrightarrow> m p = (x, p') \<Longrightarrow> P (pool_db p')"
  unfolding kept_def by (metis snd_conv)

lemma kept_bind: "kept m \<Longrightarrow> (\<And>x. kept (f x)) \<Longrightarrow> kept (io_bind m f)"
  by (fastforce simp: kept_def io_bind_def split: prod.splits result.splits)

lemma kept_pure [simp]: "kept (io_return x)" "kept (io_lift r)" "kept (Pair r)"
  by (simp_all add: kept_def)

lemma writes_keep: "P d \<Longrightarrow> P (fold apply_write ws d)"
proof (induction ws arbitrary: d)
  case (Cons w ws)
  then show ?case
    by (cases w) (simp_all add: insert_log_keeps insert_chat_keeps update_keeps delete_keeps)
qed simp

lemma kept_exec: "(\<And>d. P d \<Longrightarrow> P (snd (stmt d))) \<Longrightarrow> kept (exec env stmt)"
  by (auto simp: kept_def exec_def Let_def writes_keep split: option.splits prod.splits)
    (metis snd_conv writes_keep)

lemma kept_statements [simp]:
  "kept (exec env (select_document cid))" "kept (exec env (select_log cid))" "kept (exec env select_chat_ids)"
  "kept (exec env (insert_log cid bs))" "kept (exec env (insert_or_ignore_chat cid bs))"
  by (rule kept_exec; simp add: select_document_def select_log_def select_chat_ids_def insert_log_keeps
      insert_chat_keeps)+

lemma kept_compact [simp]: "kept (compact A env cid d rows)"
  by (auto simp: kept_def compact_def exec_both_def Let_def writes_keep update_keeps delete_keeps
      split: option.splits)

lemma kept_load_snapshot [simp]: "kept (load_snapshot A env cid b)"
  unfolding load_snapshot_def by (auto intro!: kept_bind)

lemma kept_create_snapshot [simp]: "kept (create_snapshot A env cid)"
  by (auto simp: create_snapshot_def intro!: kept_bind split: prod.splits result.splits)

lemma kept_load_loop [simp]: "kept (load_loop A env cid n)"
  by (induction n) (auto intro!: kept_bind split: option.splits)

lemma kept_new_repository: "kept (new_repository A env show_id c)"
  unfolding new_repository_def get_persisted_doc_state_def
  by (auto intro!: kept_bind split: option.splits)

lemma persist_chat_keeps:
  "P (pool_db p) \<Longrightarrow> persist_chat A env show_id (r, p) = (x, (r', p')) \<Longrightarrow> P (pool_db p')"
  by (auto simp: persist_chat_def Let_def split: if_splits prod.splits result.splits
      dest: keptD [OF kept_statements(4)])

lemma add_message_keeps:
  assumes "P (pool_db p)" "add_message A env show_id now i c (r, p) = (x, (r', p'))"
  shows "P (pool_db p')"
proof -
  have "P (pool_db q)" if "persist_chat A env show_id (s, p) = (y, (s', q))" for y s s' q
    using persist_chat_keeps [OF assms(1) that] .
  then show ?thesis
    using assms by (auto simp: add_message_def Let_def split: prod.splits result.splits)
qed

lemma receive_sync_message_keeps:
  assumes "P (pool_db p)" "receive_sync_message A env show_id m (r, p) = (x, (r', p'))"
  shows "P (pool_db p')"
proof -
  have "P (pool_db q)" if "persist_chat A env show_id (s, p) = (y, (s', q))" for y s s' q
    using persist_chat_keeps [OF assms(1) that] .
  then show ?thesis
    using assms by (auto simp: receive_sync_message_def receive_changes_def io_bind_def
        split: prod.splits result.splits option.splits)
qed

lemma reset_keeps:
  assumes "P (pool_db p)" "reset_doc_state_to_persisted A env show_id (r, p) = (x, (r', p'))"
  shows "P (pool_db p')"
proof -
  obtain y q where g: "get_persisted_doc_state A env show_id (repo_chat_id r) p = (y, q)" by fastforce
  have "kept (get_persisted_doc_state A env show_id (repo_chat_id r))"
    unfolding get_persisted_doc_state_def by (auto intro!: kept_bind split: option.splits)
  then have "P (pool_db q)" using keptD assms(1) g by blast
  then show ?thesis
    using assms(2) g by (auto simp: reset_doc_state_to_persisted_def split: prod.splits result.splits)
qed

end

section \<open>Rows of chats stay\<close>

definition chat_row :: "string \<Rightarrow> pool \<Rightarrow> bool" where
  "chat_row cid p \<longleftrightarrow> cid \<in> fst ` set (chats (pool_db p))"

interpretation rows: table_invariant "\<lambda>d. cid \<in> fst ` set (chats d)" for cid
  by unfold_locales (force simp: insert_log_def insert_or_ignore_chat_def update_document_def delete_log_upto_def)+

lemma new_repository_keeps_rows:
  "new_repository A env show_id c p = (x, p') \<Longrightarrow> chat_row cid p \<Longrightarrow> chat_row cid p'"
  unfolding chat_row_def by (rule rows.keptD [OF rows.kept_new_repository])

text \<open>Opening a repository makes sure that the chat has a row.\<close>

lemma new_repository_row:
  assumes "new_repository A env show_id c p = (Ok r, p')"
  shows "chat_row (chat_id_display show_id c) p' \<and> repo_chat_id r = c"
proof -
  let ?cid = "chat_id_display show_id c"
  obtain d hs where g: "get_persisted_doc_state A env show_id c p = (Ok (d, hs), p')"
    and r: "repo_chat_id r = c"
    using assms by (auto simp: new_repository_def result_simps)
  have snap: "chat_row ?cid q" if "exec env (select_document ?cid) p1 = (Ok (Some b), q)" for p1 b q
    using that by (auto simp: exec_Ok_iff select_document_def chat_row_def dest: map_of_SomeD
        intro: rev_image_eqI)
  have made: "chat_row ?cid q" if "create_snapshot A env ?cid p1 = (Ok (Some z), q)" for p1 z q
    using that by (auto simp: create_snapshot_def result_simps exec_Ok_iff insert_or_ignore_chat_def
        chat_row_def split: result.splits prod.splits if_splits)
  have load: "chat_row ?cid q'" if "load_snapshot A env ?cid b q = (y, q')" "chat_row ?cid q" for b q y q'
    using rows.keptD [OF rows.kept_load_snapshot _ that(1)] that(2) by (simp add: chat_row_def)
  have "chat_row ?cid p'" if "load_loop A env ?cid n p1 = (Ok (Some (d, hs)), p')" for n p1
    using that
  proof (induction n arbitrary: p1)
    case (Suc n)
    obtain y q where sel: "exec env (select_document ?cid) p1 = (y, q)" by fastforce
    show ?case
      using Suc sel snap made load
      by (auto simp: result_simps split: option.splits)
  qed simp
  then show ?thesis
    using g r get_persisted_doc_state_loop [of A env show_id c p] by simp
qed

section \<open>The keys of the tables\<close>

text \<open>
  \<^verbatim>\<open>chat_id\<close> is a primary key of \<^verbatim>\<open>chats\<close>; the ids of \<^verbatim>\<open>chat_log\<close> increase and were all handed out
  by its sequence; and every row of \<^verbatim>\<open>chat_log\<close> refers to a row of \<^verbatim>\<open>chats\<close>.
\<close>

definition tables_ok :: "db \<Rightarrow> bool" where
  "tables_ok d \<longleftrightarrow>
     distinct (map fst (chats d)) \<and> sorted_wrt (<) (map row_id (chat_log d)) \<and>
     (\<forall>r\<in>set (chat_log d). row_id r \<le> log_sequence d \<and> row_chat_id r \<in> fst ` set (chats d))"

lemma map_fst_update: "map fst (map (\<lambda>(c, b). if c = cid then (c, bs) else (c, b)) xs) = map fst xs"
  by auto

interpretation tables: table_invariant tables_ok
proof unfold_locales
  fix d cid bs n assume d: "tables_ok d"
  show "tables_ok (snd (insert_log cid bs d))"
    using d by (fastforce simp: tables_ok_def insert_log_def sorted_wrt_append)
  show "tables_ok (snd (insert_or_ignore_chat cid bs d))"
    using d by (auto simp: tables_ok_def insert_or_ignore_chat_def)
  have "fst ` set (chats (snd (update_document cid bs d))) = fst ` set (chats d)"
    "map fst (chats (snd (update_document cid bs d))) = map fst (chats d)"
    by (force simp: update_document_def map_fst_update)+
  then show "tables_ok (snd (update_document cid bs d))"
    using d by (simp add: tables_ok_def) (simp add: update_document_def)
  show "tables_ok (snd (delete_log_upto cid n d))"
    using d by (auto simp: tables_ok_def delete_log_upto_def sorted_wrt_map intro: sorted_wrt_filter)
qed

lemma select_log_in_order:
  assumes "tables_ok d"
  shows "select_log cid d = (Ok (chat_rows cid d), d)"
proof -
  have "sorted (map row_id (chat_rows cid d))"
    using assms by (auto simp: tables_ok_def chat_rows_def sorted_wrt_map less_imp_le
        intro!: sorted_wrt_filter elim: sorted_wrt_mono_rel [rotated])
  then show ?thesis
    by (simp add: select_log_def chat_rows_def sort_key_id_if_sorted)
qed

text \<open>
  Every operation of a repository keeps the keys of the tables in order, whichever of its
  statements fail and whatever the rest of the program writes meanwhile; so the log of a chat is
  always read in the order in which it was written, and each of its rows belongs to a chat.
\<close>

lemma tables_stay_well_formed:
  assumes "tables_ok (pool_db p)"
  shows "tables_ok (pool_db (snd (new_repository A env show_id c p))) \<and>
    tables_ok (pool_db (snd (snd (add_message A env show_id now i msg (r, p))))) \<and>
    tables_ok (pool_db (snd (snd (receive_sync_message A env show_id m (r, p))))) \<and>
    tables_ok (pool_db (snd (snd (reset_doc_state_to_persisted A env show_id (r, p))))) \<and>
    select_log cid (pool_db p) = (Ok (chat_rows cid (pool_db p)), pool_db p)"
  by (metis assms prod.collapse select_log_in_order tables.add_message_keeps tables.keptD tables.kept_new_repository
      tables.receive_sync_message_keeps tables.reset_keeps)

end
