(* ===== verification/App.thy ===== *)
theory App
  imports Manager Network Tables
begin

text \<open>
  The application (\<^verbatim>\<open>src/app.rs\<close>): the actor that keeps one chat manager per chat and hands
  accepted connections to it, and the interface that the foreign language side calls. A
  \<^verbatim>\<open>ChatManager\<close> handle is the number of the spawned actor it talks to. Starting the network
  endpoint and the discovery is left to their libraries.
\<close>

section \<open>Keys\<close>

text \<open>Secret keys and the lower-case hexadecimal encoding are parameters.\<close>

record ('k, 'id) key_lib =
  key_from_str :: "string \<Rightarrow> 'k option"
  key_public :: "'k \<Rightarrow> 'id"
  key_to_bytes :: "'k \<Rightarrow> bytes"
  key_from_bytes :: "bytes \<Rightarrow> 'k"
  hexlower_encode :: "bytes \<Rightarrow> string"
  hexlower_decode :: "string \<Rightarrow> bytes option"

definition generate_private_key :: "('k, 'id) key_lib \<Rightarrow> 'k \<Rightarrow> string" where
  "generate_private_key K fresh_key = hexlower_encode K (key_to_bytes K fresh_key)"

definition secret_key_from_hex_lower :: "('k, 'id) key_lib \<Rightarrow> string \<Rightarrow> ('k, string) result" where
  "secret_key_from_hex_lower K s =
     (case hexlower_decode K s of
        None \<Rightarrow> Err ''Failed to decode Secret Key from HEX Lower str.''
      | Some bs \<Rightarrow>
          if length bs = 32 then Ok (key_from_bytes K bs)
          else Err ''Provided Secret Key hex str is wrong length.'')"

definition db_url :: "string \<Rightarrow> string \<Rightarrow> string" where
  "db_url db_directory_path public = db_directory_path @ ''/'' @ public @ ''.db''"

section \<open>The actor\<close>

datatype 'id app_request = GetChatManager 'id nat

text \<open>
  \<open>spawned\<close> are the manager actors, with whether their task is still running; \<open>chat_managers\<close> maps
  a chat to its manager. \<open>app_pool\<close> is the database that all managers share.
\<close>

record ('id, 'd, 'h, 's) app_actor =
  app_public :: 'id
  app_endpoint_id :: 'id
  chat_managers :: "('id chat_id \<times> nat) list"
  spawned :: "(bool \<times> ('id, 'd, 'h, 's) manager_actor) list"
  app_pool :: pool
  app_pool_closed :: bool
  request_queue :: "'id app_request list"
  request_senders :: bool
  app_replies :: "(nat \<times> (nat, lib_error) result) list"

text \<open>
  What one turn meets: the database, the cancellation, a connection that was accepted, whether the
  caller still waits, and what was put into \<^verbatim>\<open>chat_managers\<close> while the repository was loading.
\<close>

record 'id app_env =
  app_sql :: sql_env
  app_cancelled :: bool
  app_accepted :: "'id accept_branch option"
  app_reply_open :: bool
  app_race :: "('id chat_id \<times> nat) list"

text \<open>
  A connection handle goes into the queue of the manager (the call waits for room); a manager whose
  task has ended ignores it.
\<close>

definition pass_handle ::
  "nat \<Rightarrow> 'id handle \<Rightarrow> ('id, 'd, 'h, 's) app_actor \<Rightarrow> ('id, 'd, 'h, 's) app_actor" where
  "pass_handle i h a =
     (case spawned a ! i of
        (True, m) \<Rightarrow> a\<lparr>spawned := (spawned a)[i := (True, m\<lparr>in_queue := in_queue m @ [PassAcceptedConnHandle h]\<rparr>)]\<rparr>
      | (False, m) \<Rightarrow> a)"

definition pass_handle_opt ::
  "nat \<Rightarrow> 'id handle option \<Rightarrow> ('id, 'd, 'h, 's) app_actor \<Rightarrow> ('id, 'd, 'h, 's) app_actor" where
  "pass_handle_opt i h a = (case h of Some handle \<Rightarrow> pass_handle i handle a | None \<Rightarrow> a)"

definition spawn_manager ::
  "('id, 'd, 'h, 's) chat_repository \<Rightarrow> 'id \<Rightarrow> 'id handle option
     \<Rightarrow> ('id, 'd, 'h, 's) app_actor \<Rightarrow> nat \<times> ('id, 'd, 'h, 's) app_actor" where
  "spawn_manager repo remote conn_handle a =
     (let chat_conn = (case conn_handle of
                         Some handle \<Rightarrow> new_connected (app_endpoint_id a) handle
                       | None \<Rightarrow> new_conn (app_endpoint_id a) remote)
      in (length (spawned a),
          a\<lparr>spawned := spawned a @ [(True, new_manager repo (app_pool a) chat_conn)]\<rparr>))"

definition handle_chat_manager ::
  "('id::linorder, 'd, 't, 'o, 'h, 's, 'm, 'l) chat_lib \<Rightarrow> 'id app_env \<Rightarrow> 'id \<Rightarrow> 'id handle option
     \<Rightarrow> (('id, 'd, 'h, 's) app_actor, nat, lib_error) io" where
  "handle_chat_manager L env remote conn_handle a =
     (let chat = \<lparr>my_id = app_public a, chat_remote_id = remote\<rparr> in
      case map_of (chat_managers a) chat of
        Some i \<Rightarrow> (Ok i, pass_handle_opt i conn_handle a)
      | None \<Rightarrow>
          (case new_repository (lib_am L) (app_sql env) (lib_show_id L) chat (app_pool a) of
             (Err e, p) \<Rightarrow> (Err e, a\<lparr>app_pool := p\<rparr>)
           | (Ok repo, p) \<Rightarrow>
               (let a1 = a\<lparr>app_pool := p, chat_managers := chat_managers a @ app_race env\<rparr> in
                case map_of (chat_managers a1) chat of
                  Some i \<Rightarrow> (Ok i, pass_handle_opt i conn_handle a1)
                | None \<Rightarrow>
                    (case spawn_manager repo remote conn_handle a1 of
                       (i, a2) \<Rightarrow> (Ok i, a2\<lparr>chat_managers := chat_managers a2 @ [(chat, i)]\<rparr>)))))"

fun handle_actor_request ::
  "('id::linorder, 'd, 't, 'o, 'h, 's, 'm, 'l) chat_lib \<Rightarrow> 'id app_env \<Rightarrow> 'id app_request
     \<Rightarrow> ('id, 'd, 'h, 's) app_actor \<Rightarrow> ('id, 'd, 'h, 's) app_actor" where
  "handle_actor_request L env (GetChatManager remote respond_to) a =
     (case handle_chat_manager L env remote None a of
        (result, a1) \<Rightarrow>
          if app_reply_open env
          then a1\<lparr>app_replies := app_replies a1 @ [(respond_to, result)]\<rparr>
          else a1)"

definition handle_accepted ::
  "('id::linorder, 'd, 't, 'o, 'h, 's, 'm, 'l) chat_lib \<Rightarrow> 'id app_env \<Rightarrow> 'id accept_branch
     \<Rightarrow> ('id, 'd, 'h, 's) app_actor \<Rightarrow> ('id, 'd, 'h, 's) app_actor" where
  "handle_accepted L env branch a =
     (case accept_conn branch of
        Ok conn_handle \<Rightarrow>
          snd (handle_chat_manager L env (handle_remote_id conn_handle) (Some conn_handle) a)
      | Err _ \<Rightarrow> a)"

text \<open>One turn of the biased select, and the loop.\<close>

definition app_turn ::
  "('id::linorder, 'd, 't, 'o, 'h, 's, 'm, 'l) chat_lib \<Rightarrow> 'id app_env
     \<Rightarrow> ('id, 'd, 'h, 's) app_actor \<Rightarrow> actor_status \<times> ('id, 'd, 'h, 's) app_actor" where
  "app_turn L env a =
     (if app_cancelled env then (Exited (Ok ()), a\<lparr>app_pool_closed := True\<rparr>)
      else if request_queue a \<noteq> [] \<or> \<not> request_senders a
      then (case request_queue a of
              msg # ms \<Rightarrow> (Running, handle_actor_request L env msg (a\<lparr>request_queue := ms\<rparr>))
            | [] \<Rightarrow> (Exited (Err ''AppActor: Exiting message loop due to channel closure.''), a))
      else (case app_accepted env of
              Some branch \<Rightarrow> (Running, handle_accepted L env branch a)
            | None \<Rightarrow> (Running, a)))"

fun app_run ::
  "('id::linorder, 'd, 't, 'o, 'h, 's, 'm, 'l) chat_lib \<Rightarrow> 'id app_env list
     \<Rightarrow> ('id, 'd, 'h, 's) app_actor \<Rightarrow> actor_status \<times> ('id, 'd, 'h, 's) app_actor" where
  "app_run L [] a = (Running, a)"
| "app_run L (env # envs) a =
     (case app_turn L env a of
        (Running, a1) \<Rightarrow> app_run L envs a1
      | (st, a1) \<Rightarrow> (st, a1))"

interpretation app_loop: actor_loop "app_turn L" "app_run L" Running
  for L :: "('id::linorder, 'd, 't, 'o, 'h, 's, 'm, 'l) chat_lib"
  by unfold_locales (auto split: prod.splits actor_status.splits)

definition new_app_actor :: "'id \<Rightarrow> pool \<Rightarrow> ('id, 'd, 'h, 's) app_actor" where
  "new_app_actor public p =
     \<lparr>app_public = public, app_endpoint_id = public, chat_managers = [], spawned = [], app_pool = p,
      app_pool_closed = False, request_queue = [], request_senders = True, app_replies = []\<rparr>"

section \<open>The application\<close>

text \<open>
  The shared part of the handle: whether cancellation was requested and whether the handle of the
  actor's task was already taken. The lock around it may be poisoned.
\<close>

record application =
  cancel_requested :: bool
  join_handle_present :: bool
  join_lock_poisoned :: bool

datatype shutdown_end = ActorFinished | ActorFailed string | AlreadyAwaited

definition app_shutdown :: "(unit, string) result \<Rightarrow> application \<Rightarrow> shutdown_end \<times> application" where
  "app_shutdown join_result app =
     (let app1 = app\<lparr>cancel_requested := True\<rparr> in
      if \<not> join_lock_poisoned app1 \<and> join_handle_present app1
      then (case join_result of Ok _ \<Rightarrow> ActorFinished | Err e \<Rightarrow> ActorFailed e,
            app1\<lparr>join_handle_present := False\<rparr>)
      else (AlreadyAwaited, app1))"

text \<open>
  Starting: the key is read, the database named after the public key is opened, discovery and
  network endpoint are started, and the actor's task begins. \<open>open_db\<close>, \<open>discovery\<close> (for a key and
  the time to live) and \<open>bind\<close> are the answers of the libraries, \<open>ttl\<close> the conversion of the
  delay to seconds.
\<close>

definition new_with_config ::
  "('k, 'id) key_lib \<Rightarrow> ('id \<Rightarrow> string) \<Rightarrow> ('dur \<Rightarrow> 32 word) \<Rightarrow> (string \<Rightarrow> (pool, lib_error) result)
     \<Rightarrow> ('k \<Rightarrow> 32 word \<Rightarrow> (unit, string) result) \<Rightarrow> ('k \<Rightarrow> (unit, string) result)
     \<Rightarrow> string \<Rightarrow> string \<Rightarrow> 'dur
     \<Rightarrow> (application \<times> 'id invite_manager \<times> 'id network_endpoint \<times> ('id, 'd, 'h, 's) app_actor,
         gossip_error) result" where
  "new_with_config K show_id ttl open_db discovery bind secret_key db_directory_path republish_delay =
     and_then (case key_from_str K secret_key of
                 Some k \<Rightarrow> Ok k
               | None \<Rightarrow> Err (gossip_error_from_anyhow ''Expected to get secret key from string.'')) (\<lambda>k.
     and_then (map_err gossip_error_from (open_db (db_url db_directory_path (show_id (key_public K k))))) (\<lambda>p.
     and_then (map_err (\<lambda>_. gossip_error_from_anyhow ''Failed to build standard discovery.'')
                 (discovery k (ttl republish_delay))) (\<lambda>_.
     and_then (map_err (\<lambda>_. gossip_error_from_anyhow ''Failed to start network endpoint.'')
                 (network_start (bind k) (key_public K k))) (\<lambda>net.
       Ok (\<lparr>cancel_requested = False, join_handle_present = True, join_lock_poisoned = False\<rparr>,
           \<lparr>invite_sender = key_public K k\<rparr>, net,
           new_app_actor (key_public K k) p)))))"

text \<open>The constructor for the foreign side; \<open>from_secs\<close> makes a duration of \<^verbatim>\<open>DEFAULT_PKARR_TTL\<close>.\<close>

definition new_application ::
  "('k, 'id) key_lib \<Rightarrow> ('id \<Rightarrow> string) \<Rightarrow> ('dur \<Rightarrow> 32 word) \<Rightarrow> (string \<Rightarrow> (pool, lib_error) result)
     \<Rightarrow> ('k \<Rightarrow> 32 word \<Rightarrow> (unit, string) result) \<Rightarrow> ('k \<Rightarrow> (unit, string) result)
     \<Rightarrow> (64 word \<Rightarrow> 'dur) \<Rightarrow> 32 word \<Rightarrow> string \<Rightarrow> string
     \<Rightarrow> (application \<times> 'id invite_manager \<times> 'id network_endpoint \<times> ('id, 'd, 'h, 's) app_actor,
         gossip_error) result" where
  "new_application K show_id ttl open_db discovery bind from_secs default_pkarr_ttl secret_key db_directory_path =
     new_with_config K show_id ttl open_db discovery bind secret_key db_directory_path
       (from_secs (ucast default_pkarr_ttl))"

text \<open>
  The task of the actor: the loop, and when it has ended, with or without an error, the clean-up.
  \<open>router_shutdown\<close> is the shutdown of the router, which may fail and which works on the protocol
  that is registered with it.
\<close>

definition app_cleanup ::
  "('id chat_protocol \<Rightarrow> (unit, string) result \<times> 'id chat_protocol) \<Rightarrow> 'id network_endpoint
     \<Rightarrow> log_line list \<times> 'id network_endpoint" where
  "app_cleanup router_shutdown net =
     (case router_shutdown (net_chat net) of
        (r, chat) \<Rightarrow>
          ((case r of Err e \<Rightarrow> [LogError (''AppActor: Error during network endpoint shutdown: '' @ e)] | Ok _ \<Rightarrow> [])
             @ [LogInfo ''AppActor: Endpoint connection shut down.''],
           net\<lparr>net_chat := chat\<rparr>))"

definition app_task ::
  "('id::linorder, 'd, 't, 'o, 'h, 's, 'm, 'l) chat_lib
     \<Rightarrow> ('id chat_protocol \<Rightarrow> (unit, string) result \<times> 'id chat_protocol) \<Rightarrow> 'id app_env list
     \<Rightarrow> 'id network_endpoint \<Rightarrow> ('id, 'd, 'h, 's) app_actor
     \<Rightarrow> log_line list \<times> 'id network_endpoint \<times> ('id, 'd, 'h, 's) app_actor" where
  "app_task L router_shutdown envs net a =
     (case app_run L envs a of
        (Running, a1) \<Rightarrow> ([], net, a1)
      | (Exited r, a1) \<Rightarrow>
          (case app_cleanup router_shutdown net of
             (logs, net1) \<Rightarrow>
               ((case r of Ok _ \<Rightarrow> LogInfo ''AppActor is successfully closed.''
                 | Err e \<Rightarrow> LogError (''AppActor failed with error: '' @ e @ ''.'')) # logs, net1, a1)))"

text \<open>
  Asking for the manager of a chat: the id is parsed, the request is queued (the channel holds one)
  and the answer awaited. \<open>alive\<close>: the actor's receiver exists; \<open>answer\<close>: what it replied, if
  anything.
\<close>

definition chat_manager_request ::
  "'id id_text \<Rightarrow> bool \<Rightarrow> string \<Rightarrow> nat \<Rightarrow> ('id, 'd, 'h, 's) app_actor
     \<Rightarrow> (unit, gossip_error) result \<times> ('id, 'd, 'h, 's) app_actor" where
  "chat_manager_request T alive remote_peer_id t a =
     (case parse_endpoint T remote_peer_id of
        None \<Rightarrow> (Err (gossip_error_from (InvalidPeerId remote_peer_id)), a)
      | Some remote \<Rightarrow>
          if alive then (Ok (), a\<lparr>request_queue := request_queue a @ [GetChatManager remote t]\<rparr>)
          else (Err (gossip_error_from_anyhow
                  ''Failed to send GetChatManager message to AppActor. Error: channel closed''), a))"

fun chat_manager_answer :: "(nat, lib_error) result option \<Rightarrow> (nat, gossip_error) result" where
  "chat_manager_answer (Some r) = map_err gossip_error_from r"
| "chat_manager_answer None =
     Err (gossip_error_from_anyhow ''Failed to receive ChatManager from AppActor. Channel is closed.'')"

definition all_remote_peers ::
  "sql_env \<Rightarrow> 'id::linorder id_text \<Rightarrow> 'id \<Rightarrow> (pool, string list, gossip_error) io" where
  "all_remote_peers env T me =
     io_bind (io_map_err gossip_error_from
       (list_chats_remote_peers_ids env (show_endpoint T) (parse_endpoint T) me))
       (\<lambda>ids. io_return (map (show_endpoint T) ids))"

datatype app_invite_type = AppSealed string

fun create_tryst_invite ::
  "'id id_text \<Rightarrow> 'id invite_manager \<Rightarrow> app_invite_type \<Rightarrow> (string, gossip_error) result" where
  "create_tryst_invite T m (AppSealed pk_str) =
     (case parse_endpoint T pk_str of
        None \<Rightarrow> Err (gossip_error_from_anyhow
                 ''Failed to parse PublicKey from provided string to create tryst invite.'')
      | Some pk \<Rightarrow> map_err gossip_error_from (create_invite_str T m (Sealed pk)))"

text \<open>
  Redeeming an invitation asks for the manager of the sender's chat, which creates the chat, and
  awaits it.
\<close>

definition receive_tryst_invite ::
  "'id id_text \<Rightarrow> 'id invite_manager \<Rightarrow> bool \<Rightarrow> string \<Rightarrow> nat \<Rightarrow> ('id, 'd, 'h, 's) app_actor
     \<Rightarrow> (unit, gossip_error) result \<times> ('id, 'd, 'h, 's) app_actor" where
  "receive_tryst_invite T m alive invite_str t a =
     (case receive_invite_str T m invite_str of
        Err e \<Rightarrow> (Err (gossip_error_from e), a)
      | Ok sender \<Rightarrow> chat_manager_request T alive (show_endpoint T sender) t a)"

definition receive_tryst_invite_answer :: "(nat, lib_error) result option \<Rightarrow> (unit, gossip_error) result" where
  "receive_tryst_invite_answer answer = and_then (chat_manager_answer answer) (\<lambda>_. Ok ())"

text \<open>
  Opening the database: what the pool library answers to the four steps.
\<close>

definition setup_db ::
  "(bool, string) result \<Rightarrow> (unit, string) result \<Rightarrow> (pool, string) result \<Rightarrow> (unit, string) result
     \<Rightarrow> (pool, lib_error) result" where
  "setup_db database_exists create_database connect migrate =
     and_then (map_err Sqlx database_exists) (\<lambda>there.
     and_then (if there then Ok () else map_err Sqlx create_database) (\<lambda>_.
     and_then (map_err Sqlx connect) (\<lambda>p.
     and_then (map_err SqlxMigrations migrate) (\<lambda>_. Ok p))))"

section \<open>One manager for every chat\<close>

definition manager_of :: "nat \<Rightarrow> ('id, 'd, 'h, 's) app_actor \<Rightarrow> ('id, 'd, 'h, 's) manager_actor" where
  "manager_of i a = snd (spawned a ! i)"

definition entry_ok :: "('id::linorder \<Rightarrow> string) \<Rightarrow> ('id, 'd, 'h, 's) app_actor \<Rightarrow> 'id chat_id \<times> nat \<Rightarrow> bool"
where
  "entry_ok show_id a = (\<lambda>(c, i).
     i < length (spawned a) \<and> repo_chat_id (mgr_doc (manager_of i a)) = c \<and> my_id c = app_public a \<and>
     chat_row (chat_id_display show_id c) (app_pool a))"

definition app_inv :: "('id::linorder \<Rightarrow> string) \<Rightarrow> ('id, 'd, 'h, 's) app_actor \<Rightarrow> bool" where
  "app_inv show_id a \<longleftrightarrow>
     distinct (map fst (chat_managers a)) \<and> (\<forall>e\<in>set (chat_managers a). entry_ok show_id a e)"

text \<open>
  What others may have put into the map while a repository was loading: entries for other chats
  that are themselves in order.
\<close>

definition race_ok :: "('id::linorder \<Rightarrow> string) \<Rightarrow> 'id app_env \<Rightarrow> ('id, 'd, 'h, 's) app_actor \<Rightarrow> bool" where
  "race_ok show_id env a \<longleftrightarrow>
     distinct (map fst (chat_managers a @ app_race env)) \<and> (\<forall>e\<in>set (app_race env). entry_ok show_id a e)"

definition extends :: "('id, 'd, 'h, 's) app_actor \<Rightarrow> ('id, 'd, 'h, 's) app_actor \<Rightarrow> bool" where
  "extends a b \<longleftrightarrow> (\<exists>es. chat_managers b = chat_managers a @ es)"

lemma extends_refl [simp]: "extends a a"
  by (simp add: extends_def)

lemma extends_trans: "extends a b \<Longrightarrow> extends b c \<Longrightarrow> extends a c"
  by (auto simp: extends_def)

lemma pass_handle_keeps [simp]:
  "chat_managers (pass_handle_opt i h a) = chat_managers a" "app_public (pass_handle_opt i h a) = app_public a"
  "app_pool (pass_handle_opt i h a) = app_pool a"
  "length (spawned (pass_handle_opt i h a)) = length (spawned a)"
  "app_endpoint_id (pass_handle_opt i h a) = app_endpoint_id a"
  by (auto simp: pass_handle_opt_def pass_handle_def split: option.splits prod.splits bool.splits)

lemma pass_handle_doc [simp]: "j < length (spawned a) \<Longrightarrow> mgr_doc (manager_of j (pass_handle_opt i h a)) = mgr_doc (manager_of j a)"
  by (cases "i = j")
    (auto simp: manager_of_def pass_handle_opt_def pass_handle_def nth_list_update split: option.splits prod.splits bool.splits)

lemma entry_ok_pass [simp]: "entry_ok show_id (pass_handle_opt i h a) e \<longleftrightarrow> entry_ok show_id a e"
  by (cases e) (auto simp: entry_ok_def)

lemma app_inv_pass [simp]: "app_inv show_id (pass_handle_opt i h a) \<longleftrightarrow> app_inv show_id a"
  by (simp add: app_inv_def)

lemma entry_ok_pool:
  assumes "entry_ok show_id a e" "\<And>cid. chat_row cid (app_pool a) \<Longrightarrow> chat_row cid p"
  shows "entry_ok show_id (a\<lparr>app_pool := p, chat_managers := cm\<rparr>) e"
  using assms by (cases e) (auto simp: entry_ok_def manager_of_def)

text \<open>The new manager is entered for its chat, when the chat has no manager yet.\<close>

lemma spawn_manager_inv:
  assumes inv: "app_inv show_id a" and none: "map_of (chat_managers a) c = None"
    and repo: "repo_chat_id repo = c" "my_id c = app_public a" "chat_row (chat_id_display show_id c) (app_pool a)"
    and run: "spawn_manager repo remote h a = (i, a1)" "b = a1\<lparr>chat_managers := chat_managers a1 @ [(c, i)]\<rparr>"
  shows "app_inv show_id b \<and> extends a b \<and> app_public b = app_public a \<and> map_of (chat_managers b) c = Some i"
proof -
  define m where "m = new_manager repo (app_pool a)
    (case h of Some ch \<Rightarrow> new_connected (app_endpoint_id a) ch | None \<Rightarrow> new_conn (app_endpoint_id a) remote)"
  have b: "i = length (spawned a)" "b = a\<lparr>spawned := spawned a @ [(True, m)], chat_managers := chat_managers a @ [(c, i)]\<rparr>"
    using run by (auto simp: spawn_manager_def m_def Let_def)
  have "entry_ok show_id b e" if "entry_ok show_id a e" for e
    using that by (cases e) (auto simp: entry_ok_def b(2) manager_of_def nth_append)
  moreover have "entry_ok show_id b (c, i)"
    using repo b by (auto simp: entry_ok_def manager_of_def m_def new_manager_def)
  moreover have "c \<notin> fst ` set (chat_managers a)"
    using none by (simp only: map_of_eq_None_iff not_False_eq_True)
  ultimately have "app_inv show_id b"
    using inv by (auto simp: app_inv_def b(2))
  moreover have "map_of (chat_managers b) c = Some i"
    using none by (auto simp: b(2) map_add_def)
  ultimately show ?thesis by (auto simp: extends_def b(2))
qed

lemma handle_chat_manager_inv:
  assumes inv: "app_inv (lib_show_id L) a" and race: "race_ok (lib_show_id L) env a"
    and run: "handle_chat_manager L env remote h a = (x, b)"
  shows "app_inv (lib_show_id L) b \<and> extends a b \<and> app_public b = app_public a \<and>
    (\<forall>i. x = Ok i \<longrightarrow> map_of (chat_managers b) \<lparr>my_id = app_public a, chat_remote_id = remote\<rparr> = Some i)"
proof (cases "map_of (chat_managers a) \<lparr>my_id = app_public a, chat_remote_id = remote\<rparr>")
  case (Some i)
  then show ?thesis
    using run inv by (auto simp: handle_chat_manager_def extends_def)
next
  case None
  let ?c = "\<lparr>my_id = app_public a, chat_remote_id = remote\<rparr>"
  obtain y p where n: "new_repository (lib_am L) (app_sql env) (lib_show_id L) ?c (app_pool a) = (y, p)"
    by fastforce
  note keep = new_repository_keeps_rows [OF n]
  let ?a1 = "a\<lparr>app_pool := p, chat_managers := chat_managers a @ app_race env\<rparr>"
  have inv1: "app_inv (lib_show_id L) ?a1"
    using inv race entry_ok_pool [of "lib_show_id L" a _ p "chat_managers a @ app_race env"] keep
    by (auto simp: app_inv_def race_ok_def)
  consider e where "y = Err e" | repo i where "y = Ok repo" "map_of (chat_managers ?a1) ?c = Some i"
    | repo where "y = Ok repo" "map_of (chat_managers ?a1) ?c = None"
    by (cases y; cases "map_of (chat_managers ?a1) ?c") auto
  then show ?thesis
  proof cases
    case 1
    then have "b = a\<lparr>app_pool := p\<rparr>" "x = Err e"
      using run None n by (auto simp: handle_chat_manager_def)
    then show ?thesis
      using inv entry_ok_pool [of "lib_show_id L" a _ p "chat_managers a"] keep
      by (auto simp: app_inv_def extends_def)
  next
    case 2
    then have "x = Ok i" "b = pass_handle_opt i h ?a1"
      using run None n by (auto simp: handle_chat_manager_def Let_def)
    then show ?thesis using inv1 2(2) by (auto simp: extends_def)
  next
    case 3
    obtain i a2 where s: "spawn_manager repo remote h ?a1 = (i, a2)" by fastforce
    have b: "x = Ok i" "b = a2\<lparr>chat_managers := chat_managers a2 @ [(?c, i)]\<rparr>"
      using run None n 3 s by (auto simp: handle_chat_manager_def Let_def map_add_def split: option.splits)
    have repo: "repo_chat_id repo = ?c" "my_id ?c = app_public ?a1" "chat_row (chat_id_display (lib_show_id L) ?c) (app_pool ?a1)"
      using new_repository_row [of "lib_am L" "app_sql env" "lib_show_id L" ?c "app_pool a" repo p] n 3(1) by auto
    show ?thesis
      using spawn_manager_inv [OF inv1 3(2) repo s b(2)] b(1) by (auto simp: extends_def)
  qed
qed

text \<open>
  The system: turns of the actor, requests of the application, and the managers, each of which
  makes its own moves or ends.
\<close>

inductive app_move ::
  "('id::linorder, 'd, 't, 'o, 'h, 's, 'm, 'l) chat_lib \<Rightarrow> ('id, 'd, 'h, 's) app_actor
     \<Rightarrow> ('id, 'd, 'h, 's) app_actor \<Rightarrow> bool" for L where
  app_takes_turn: "race_ok (lib_show_id L) env a \<Longrightarrow> app_move L a (snd (app_turn L env a))"
| app_asked: "app_move L a (a\<lparr>request_queue := request_queue a @ [req]\<rparr>)"
| app_dropped: "app_move L a (a\<lparr>request_senders := False\<rparr>)"
| app_manager_moves: "i < length (spawned a) \<Longrightarrow> spawned a ! i = (alive, m) \<Longrightarrow>
     repo_chat_id (mgr_doc m') = repo_chat_id (mgr_doc m) \<Longrightarrow>
     app_move L a (a\<lparr>spawned := (spawned a)[i := (alive', m')]\<rparr>)"

definition app_init :: "('id, 'd, 'h, 's) app_actor \<Rightarrow> bool" where
  "app_init a \<longleftrightarrow> (\<exists>public p. a = new_app_actor public p)"

lemma app_inv_fields:
  assumes "chat_managers b = chat_managers a" "app_public b = app_public a" "app_pool b = app_pool a"
    and "spawned b = spawned a"
  shows "app_inv show_id b \<longleftrightarrow> app_inv show_id a" "race_ok show_id env b \<longleftrightarrow> race_ok show_id env a"
proof -
  have "entry_ok show_id b e \<longleftrightarrow> entry_ok show_id a e" for e
    using assms by (cases e) (simp add: entry_ok_def manager_of_def)
  then show "app_inv show_id b \<longleftrightarrow> app_inv show_id a" "race_ok show_id env b \<longleftrightarrow> race_ok show_id env a"
    using assms(1) by (simp_all add: app_inv_def race_ok_def)
qed

lemma app_turn_inv:
  assumes inv: "app_inv (lib_show_id L) a" and race: "race_ok (lib_show_id L) env a"
  shows "app_inv (lib_show_id L) (snd (app_turn L env a)) \<and> extends a (snd (app_turn L env a)) \<and>
    app_public (snd (app_turn L env a)) = app_public a"
proof -
  have req: "app_inv (lib_show_id L) (handle_actor_request L env r (a\<lparr>request_queue := q\<rparr>)) \<and>
      extends a (handle_actor_request L env r (a\<lparr>request_queue := q\<rparr>)) \<and>
      app_public (handle_actor_request L env r (a\<lparr>request_queue := q\<rparr>)) = app_public a" for r q
  proof -
    obtain remote t where r: "r = GetChatManager remote t" by (cases r) auto
    let ?a = "a\<lparr>request_queue := q\<rparr>"
    obtain x b where h: "handle_chat_manager L env remote None ?a = (x, b)" by fastforce
    have "app_inv (lib_show_id L) ?a" "race_ok (lib_show_id L) env ?a"
      using inv race app_inv_fields [of ?a a] by simp_all
    note H = handle_chat_manager_inv [OF this h]
    show ?thesis
      using H h r app_inv_fields(1) [of "b\<lparr>app_replies := app_replies b @ [(t, x)]\<rparr>" b]
      by (auto simp: extends_def)
  qed
  have acc: "app_inv (lib_show_id L) (handle_accepted L env br a) \<and> extends a (handle_accepted L env br a) \<and>
      app_public (handle_accepted L env br a) = app_public a" for br
  proof (cases "accept_conn br")
    case (Ok h)
    obtain x b where "handle_chat_manager L env (handle_remote_id h) (Some h) a = (x, b)" by fastforce
    then show ?thesis
      using handle_chat_manager_inv [OF inv race] Ok by (auto simp: handle_accepted_def)
  qed (simp add: handle_accepted_def inv)
  have "app_inv (lib_show_id L) (a\<lparr>app_pool_closed := True\<rparr>)"
    using inv app_inv_fields(1) [of "a\<lparr>app_pool_closed := True\<rparr>" a] by simp
  then show ?thesis
    using req acc inv by (auto simp: app_turn_def extends_def split: list.splits option.splits)
qed

lemma app_move_inv:
  assumes "app_move L a b" "app_inv (lib_show_id L) a"
  shows "app_inv (lib_show_id L) b \<and> extends a b \<and> app_public b = app_public a"
  using assms
proof (induction rule: app_move.induct)
  case (app_takes_turn env a)
  then show ?case using app_turn_inv by blast
next
  case (app_asked a req)
  then show ?case using app_inv_fields(1) [of "a\<lparr>request_queue := request_queue a @ [req]\<rparr>" a] by (simp add: extends_def)
next
  case (app_dropped a)
  then show ?case using app_inv_fields(1) [of "a\<lparr>request_senders := False\<rparr>" a] by (simp add: extends_def)
next
  case (app_manager_moves i a alive m m' alive')
  then have "entry_ok (lib_show_id L) (a\<lparr>spawned := (spawned a)[i := (alive', m')]\<rparr>) e \<longleftrightarrow>
      entry_ok (lib_show_id L) a e" for e
    by (cases e) (auto simp: entry_ok_def manager_of_def nth_list_update)
  then show ?case using app_manager_moves by (simp add: app_inv_def extends_def)
qed

interpretation app: invariant_system app_init "app_move L" "app_inv (lib_show_id L)"
  for L :: "('id::linorder, 'd, 't, 'o, 'h, 's, 'm, 'l) chat_lib"
  by unfold_locales (auto simp: app_init_def app_inv_def new_app_actor_def dest: app_move_inv)

lemma app_moves_extend:
  "(app_move L)\<^sup>*\<^sup>* a b \<Longrightarrow> app_inv (lib_show_id L) a \<Longrightarrow>
     app_inv (lib_show_id L) b \<and> extends a b \<and> app_public b = app_public a"
  by (induction rule: rtranclp_induct) (auto dest: app_move_inv intro: extends_trans)

lemma extends_map_of: "extends a b \<Longrightarrow> map_of (chat_managers a) c = Some i \<Longrightarrow> map_of (chat_managers b) c = Some i"
  by (auto simp: extends_def map_add_def split: option.splits)

lemma known_manager:
  "map_of (chat_managers a) \<lparr>my_id = app_public a, chat_remote_id = remote\<rparr> = Some i \<Longrightarrow>
     handle_chat_manager L env remote h a = (Ok i, pass_handle_opt i h a)"
  by (simp add: handle_chat_manager_def)

text \<open>
  C6: There is one manager for every chat. The manager that a request for a peer returns works on
  the repository of the chat with that peer, no other chat has it, and every later request for the
  same peer, and every connection accepted from it, gets the same manager, whatever happens in
  between and even if others race for the map.
\<close>

theorem one_manager_per_chat:
  assumes "reach app_init (app_move L) a" "race_ok (lib_show_id L) env a"
    and "handle_chat_manager L env remote h a = (Ok i, b)"
  shows "i < length (spawned b) \<and>
    repo_chat_id (mgr_doc (manager_of i b)) = \<lparr>my_id = app_public a, chat_remote_id = remote\<rparr> \<and>
    (\<forall>c. (c, i) \<in> set (chat_managers b) \<longrightarrow> c = \<lparr>my_id = app_public a, chat_remote_id = remote\<rparr>) \<and>
    (\<forall>b' env' h'. (app_move L)\<^sup>*\<^sup>* b b' \<longrightarrow>
       handle_chat_manager L env' remote h' b' = (Ok i, pass_handle_opt i h' b'))"
proof -
  let ?c = "\<lparr>my_id = app_public a, chat_remote_id = remote\<rparr>"
  have inv: "app_inv (lib_show_id L) a" by (rule app.reach_inv [OF assms(1)])
  have B: "app_inv (lib_show_id L) b" "app_public b = app_public a" "map_of (chat_managers b) ?c = Some i"
    using handle_chat_manager_inv [OF inv assms(2,3)] by auto
  then have "entry_ok (lib_show_id L) b (?c, i)"
    by (auto simp: app_inv_def dest: map_of_SomeD)
  moreover have "c = ?c" if "(c, i) \<in> set (chat_managers b)" for c
    using that B(1) \<open>entry_ok (lib_show_id L) b (?c, i)\<close> by (auto simp: app_inv_def entry_ok_def)
  moreover have "handle_chat_manager L env' remote h' b' = (Ok i, pass_handle_opt i h' b')"
    if "(app_move L)\<^sup>*\<^sup>* b b'" for b' env' h'
    using app_moves_extend [OF that B(1)] extends_map_of [OF _ B(3)] B(2)
    by (intro known_manager) auto
  ultimately show ?thesis by (auto simp: entry_ok_def)
qed

definition sample_app :: "(nat, bytes, bytes, unit) app_actor" where
  "sample_app = new_app_actor 3 empty_pool"

definition sample_app_env :: "nat app_env" where
  "sample_app_env = \<lparr>app_sql = calm, app_cancelled = False, app_accepted = None, app_reply_open = True,
     app_race = []\<rparr>"

lemma sample_app_reach: "reach app_init (app_move L) sample_app"
  by (rule reach_init) (auto simp: app_init_def sample_app_def)

lemma sample_race_ok: "race_ok show_id sample_app_env sample_app"
  by (simp add: race_ok_def sample_app_env_def sample_app_def new_app_actor_def)

theorem one_manager_per_chat_witness:
  "\<exists>b. handle_chat_manager sample_lib sample_app_env 5 None sample_app = (Ok 0, b) \<and>
     repo_chat_id (mgr_doc (manager_of 0 b)) = \<lparr>my_id = 3, chat_remote_id = 5\<rparr>"
proof -
  have "fst (handle_chat_manager sample_lib sample_app_env 5 None sample_app) = Ok 0" by code_simp
  then obtain b where b: "handle_chat_manager sample_lib sample_app_env 5 None sample_app = (Ok 0, b)"
    by (metis prod.exhaust_sel)
  have "app_public sample_app = 3" by (simp add: sample_app_def new_app_actor_def)
  then show ?thesis
    using one_manager_per_chat [OF sample_app_reach sample_race_ok b] b by simp
qed

section \<open>Accepted connections\<close>

text \<open>
  C26: A connection accepted from a peer goes to the manager of the chat with that peer: into the
  queue of a running manager, or, when the chat has none yet, as the connection that the new
  manager starts with. A manager whose task has ended is never replaced: it is handed out as
  before, nothing changes, and the connection is dropped.
\<close>

theorem accepted_connection_routed:
  assumes "reach app_init (app_move L) a" "app_race env = []"
    and "handle_chat_manager L env (handle_remote_id ch) (Some ch) a = (Ok i, b)"
  shows "case map_of (chat_managers a) \<lparr>my_id = app_public a, chat_remote_id = handle_remote_id ch\<rparr> of
      Some j \<Rightarrow> i = j \<and>
        (if fst (spawned a ! i)
         then in_queue (manager_of i b) = in_queue (manager_of i a) @ [PassAcceptedConnHandle ch]
         else b = a)
    | None \<Rightarrow> i = length (spawned a) \<and> fst (spawned b ! i) \<and>
        mgr_conn (manager_of i b) = new_connected (app_endpoint_id a) ch"
proof (cases "map_of (chat_managers a) \<lparr>my_id = app_public a, chat_remote_id = handle_remote_id ch\<rparr>")
  case (Some j)
  have "entry_ok (lib_show_id L) a (\<lparr>my_id = app_public a, chat_remote_id = handle_remote_id ch\<rparr>, j)"
    using app.reach_inv [OF assms(1)] Some by (auto simp: app_inv_def dest: map_of_SomeD)
  then have "j < length (spawned a)" by (simp add: entry_ok_def)
  then show ?thesis
    using Some assms(3)
    by (auto simp: known_manager pass_handle_opt_def pass_handle_def manager_of_def split: prod.splits bool.splits)
next
  case None
  obtain y p where n: "new_repository (lib_am L) (app_sql env) (lib_show_id L)
      \<lparr>my_id = app_public a, chat_remote_id = handle_remote_id ch\<rparr> (app_pool a) = (y, p)" by fastforce
  then show ?thesis
    using None assms(2,3)
    by (cases y) (auto simp: handle_chat_manager_def spawn_manager_def Let_def manager_of_def new_manager_def)
qed

theorem accepted_connection_routed_witness:
  "\<exists>b. handle_chat_manager sample_lib sample_app_env (handle_remote_id sample_handle) (Some sample_handle)
       sample_app = (Ok 0, b) \<and>
     mgr_conn (manager_of 0 b) = new_connected 3 sample_handle"
proof -
  let ?h = "handle_chat_manager sample_lib sample_app_env (handle_remote_id sample_handle) (Some sample_handle)
       sample_app"
  have "fst ?h = Ok 0" by code_simp
  then obtain b where b: "?h = (Ok 0, b)" by (metis prod.exhaust_sel)
  have "app_endpoint_id sample_app = 3" "chat_managers sample_app = []" "app_race sample_app_env = []"
    by (simp_all add: sample_app_def new_app_actor_def sample_app_env_def)
  then show ?thesis
    using accepted_connection_routed [OF sample_app_reach _ b] b by simp
qed

section \<open>Invitations open chats\<close>

lemma all_remote_peers_lists:
  assumes "id_laws (show_endpoint T) (parse_endpoint T)"
    and "map fst (chats (pool_db p)) = map (chat_id_display (show_endpoint T)) cs"
    and "fault env (pool_tick p) = None" "others env (pool_tick p) = []"
  obtains ids p' where "list_chats_remote_peers_ids env (show_endpoint T) (parse_endpoint T) me p = (Ok ids, p')"
    "set ids = {i. \<exists>c\<in>set cs. other_end me c = Some i}"
proof -
  have "exec env select_chat_ids p =
      (Ok (map (chat_id_display (show_endpoint T)) cs), p\<lparr>pool_tick := Suc (pool_tick p)\<rparr>)"
    using assms(2-4) by (cases p) (simp add: exec_def select_chat_ids_def)
  then show thesis
    using that collect_peers_displays [OF assms(1), of me cs "[]"]
    by (auto simp: list_chats_remote_peers_ids_def io_bind_def set_map_filter_other_end)
qed

text \<open>The other end of a stored chat is among the listed peers.\<close>

lemma stored_chat_listed:
  assumes ids: "id_laws (show_endpoint T) (parse_endpoint T)"
    and rows: "map fst (chats (pool_db p)) = map (chat_id_display (show_endpoint T)) cs"
      "fault env (pool_tick p) = None" "others env (pool_tick p) = []"
    and c: "chat_row (chat_id_display (show_endpoint T) \<lparr>my_id = me, chat_remote_id = remote\<rparr>) p" "remote \<noteq> me"
  shows "\<exists>peers. fst (all_remote_peers env T me p) = Ok peers \<and> show_endpoint T remote \<in> set peers"
proof -
  let ?c = "\<lparr>my_id = me, chat_remote_id = remote\<rparr>"
  have "chat_id_display (show_endpoint T) ?c \<in> set (map (chat_id_display (show_endpoint T)) cs)"
    using c(1) rows(1) by (auto simp: chat_row_def simp flip: set_map)
  then obtain c' where c': "c' \<in> set cs" "chat_id_display (show_endpoint T) c' = chat_id_display (show_endpoint T) ?c"
    by auto
  have "map_option (show_endpoint T) (other_end me c') = map_option (show_endpoint T) (other_end me ?c)"
    using remote_of_display [OF ids, of me] c'(2) by metis
  then have "other_end me c' = Some remote"
    using c(2) id_laws_inject [OF ids] by (auto simp: other_end_def [of _ ?c])
  moreover obtain ids p' where l: "list_chats_remote_peers_ids env (show_endpoint T) (parse_endpoint T) me p = (Ok ids, p')"
      "set ids = {i. \<exists>c\<in>set cs. other_end me c = Some i}"
    by (rule all_remote_peers_lists [OF ids rows])
  ultimately have "remote \<in> set ids" using c'(1) by auto
  moreover have "fst (all_remote_peers env T me p) = Ok (map (show_endpoint T) ids)"
    by (simp add: all_remote_peers_def io_bind_def io_map_err_def l(1) io_return_def)
  ultimately show ?thesis by auto
qed

text \<open>
  C15: Redeeming an invitation opens the chat with its sender: the request that it queues is for the
  manager of that chat, and when the call returns with success after the actor served it, the answer
  is the manager of that chat, the chat is stored and the sender is among the listed peers.
\<close>

theorem invite_opens_chat:
  assumes "id_laws (show_endpoint T) (parse_endpoint T)" "lib_show_id L = show_endpoint T"
    and "reach app_init (app_move L) a" "request_queue a = []" "invite_sender sender \<noteq> app_public a"
    and "create_invite_str T sender i = Ok s"
    and "receive_tryst_invite T m True s t a = (Ok (), a1)"
    and "\<not> app_cancelled env" "race_ok (lib_show_id L) env a1" "app_reply_open env"
    and "app_turn L env a1 = (Running, a2)" "last (app_replies a2) = (t, answer)"
    and "receive_tryst_invite_answer (Some answer) = Ok ()"
    and "map fst (chats (pool_db (app_pool a2))) = map (chat_id_display (show_endpoint T)) cs"
    and "fault env' (pool_tick (app_pool a2)) = None" "others env' (pool_tick (app_pool a2)) = []"
  shows "(\<exists>k. answer = Ok k \<and> repo_chat_id (mgr_doc (manager_of k a2)) =
      \<lparr>my_id = app_public a, chat_remote_id = invite_sender sender\<rparr>) \<and>
    (\<exists>peers. fst (all_remote_peers env' T (app_public a) (app_pool a2)) = Ok peers \<and>
       show_endpoint T (invite_sender sender) \<in> set peers)"
proof -
  let ?c = "\<lparr>my_id = app_public a, chat_remote_id = invite_sender sender\<rparr>"
  have parse: "parse_endpoint T (show_endpoint T e) = Some e" for e
    using assms(1) by (simp add: id_laws_def)
  have a1: "a1 = a\<lparr>request_queue := [GetChatManager (invite_sender sender) t]\<rparr>"
    using assms(4,6,7)
    by (auto simp: create_invite_str_def receive_tryst_invite_def receive_invite_str_def
        chat_manager_request_def parse)
  have inv: "app_inv (lib_show_id L) a" by (rule app.reach_inv [OF assms(3)])
  have inv1: "app_inv (lib_show_id L) (a1\<lparr>request_queue := []\<rparr>)" "race_ok (lib_show_id L) env (a1\<lparr>request_queue := []\<rparr>)"
    using inv assms(9) app_inv_fields [of "a1\<lparr>request_queue := []\<rparr>" a] app_inv_fields [of a1 a]
    by (simp_all add: a1)
  obtain x b where h: "handle_chat_manager L env (invite_sender sender) None (a1\<lparr>request_queue := []\<rparr>) = (x, b)"
    by fastforce
  have a2: "a2 = b\<lparr>app_replies := app_replies b @ [(t, x)]\<rparr>"
    using assms(8,10,11) h by (simp add: app_turn_def a1)
  then obtain k where x: "x = Ok k" "answer = Ok k"
    using assms(12,13) by (auto simp: receive_tryst_invite_answer_def result_simps)
  have "map_of (chat_managers a2) ?c = Some k" "app_inv (lib_show_id L) a2"
    using handle_chat_manager_inv [OF inv1 h] x app_inv_fields(1) [of a2 b] by (auto simp: a2 a1)
  then have e: "entry_ok (lib_show_id L) a2 (?c, k)"
    by (auto simp: app_inv_def dest: map_of_SomeD)
  then show ?thesis
    using stored_chat_listed [OF assms(1,14-16)] assms(2,5) x(2) by (auto simp: entry_ok_def)
qed

definition sample_invite :: string where
  "sample_invite = INVITE_PREFIX @ sample_show 5"

definition sample_invited :: "(nat, bytes, bytes, unit) app_actor" where
  "sample_invited = snd (receive_tryst_invite sample_text \<lparr>invite_sender = 3\<rparr> True sample_invite 7 sample_app)"

definition sample_opened :: "(nat, bytes, bytes, unit) app_actor" where
  "sample_opened = snd (app_turn sample_lib sample_app_env sample_invited)"

theorem invite_opens_chat_witness:
  "repo_chat_id (mgr_doc (manager_of 0 sample_opened)) = \<lparr>my_id = 3, chat_remote_id = 5\<rparr> \<and>
   (\<exists>peers. fst (all_remote_peers calm sample_text 3 (app_pool sample_opened)) = Ok peers \<and>
      show_endpoint sample_text 5 \<in> set peers)"
proof -
  have laws: "id_laws (show_endpoint sample_text) (parse_endpoint sample_text)"
    "lib_show_id sample_lib = show_endpoint sample_text"
    using sample_id_laws by (simp_all add: sample_text_def sample_lib_def)
  have app: "request_queue sample_app = []" "app_public sample_app = 3"
    by (simp_all add: sample_app_def new_app_actor_def)
  have invite: "create_invite_str sample_text \<lparr>invite_sender = 5\<rparr> (Sealed 3) = Ok sample_invite"
    by (simp add: create_invite_str_def sample_invite_def sample_text_def)
  have "fst (receive_tryst_invite sample_text \<lparr>invite_sender = 3\<rparr> True sample_invite 7 sample_app) = Ok ()"
    by code_simp
  then have received: "receive_tryst_invite sample_text \<lparr>invite_sender = 3\<rparr> True sample_invite 7 sample_app =
      (Ok (), sample_invited)"
    by (simp add: sample_invited_def prod_eq_iff)
  have env: "\<not> app_cancelled sample_app_env" "app_reply_open sample_app_env" "app_race sample_app_env = []"
    by (simp_all add: sample_app_env_def)
  have "chat_managers sample_invited = []" by code_simp
  then have race: "race_ok (lib_show_id sample_lib) sample_app_env sample_invited"
    by (simp add: race_ok_def env(3))
  have "fst (app_turn sample_lib sample_app_env sample_invited) = Running" by code_simp
  then have turn: "app_turn sample_lib sample_app_env sample_invited = (Running, sample_opened)"
    by (simp add: sample_opened_def prod_eq_iff)
  have reply: "last (app_replies sample_opened) = (7, Ok 0)" by code_simp
  have answer: "receive_tryst_invite_answer (Some (Ok 0)) = Ok ()" by code_simp
  have rows: "map fst (chats (pool_db (app_pool sample_opened))) =
      map (chat_id_display (show_endpoint sample_text)) [\<lparr>my_id = 3, chat_remote_id = 5\<rparr>]"
    by code_simp
  have calm_env: "fault calm n = None" "others calm n = []" for n by (simp_all add: calm_def)
  show ?thesis
    using invite_opens_chat [OF laws sample_app_reach app(1) _ invite received env(1) race env(2) turn reply answer rows
      calm_env] app(2) by simp
qed

section \<open>Starting and stopping\<close>

lemma handle_chat_manager_keeps:
  "request_senders (snd (handle_chat_manager L env remote h a)) = request_senders a"
  by (auto simp: handle_chat_manager_def spawn_manager_def pass_handle_opt_def pass_handle_def Let_def
      split: option.splits result.splits prod.splits bool.splits)

lemma app_turn_keeps: "request_senders (snd (app_turn L env a)) = request_senders a"
proof -
  have "request_senders (handle_actor_request L env r b) = request_senders b" for r b
  proof (cases r)
    case (GetChatManager remote t)
    then show ?thesis
      using handle_chat_manager_keeps [of L env remote None b] by (simp add: case_prod_unfold)
  qed
  then show ?thesis
    by (auto simp: app_turn_def handle_accepted_def handle_chat_manager_keeps
        split: list.splits option.splits result.splits)
qed

lemma app_turn_goes_on:
  assumes "request_senders a" "\<not> app_cancelled env"
  obtains b where "app_turn L env a = (Running, b)" "request_senders b"
  using assms app_turn_keeps [of L env a] that
  by (cases "request_queue a"; cases "app_accepted env") (auto simp: app_turn_def)

text \<open>
  C32: Shutting down ends the actor's task: as long as the application exists, the actor leaves its
  loop in the first turn in which the cancellation is seen, without an error and with the database
  closed, and cleans up: the chat protocol is cancelled and its own task awaited. The first call of
  shutdown awaits the task, and every later one finds it awaited already.
\<close>

theorem shutdown_stops_actor:
  assumes "request_senders a" "\<exists>env\<in>set envs. app_cancelled env"
    and "\<And>p. router_shutdown p = (r, snd (protocol_shutdown panicked p))"
    and "join_handle_present app" "\<not> join_lock_poisoned app"
  shows "(\<exists>logs net' b. app_task L router_shutdown envs net a =
        (LogInfo ''AppActor is successfully closed.'' # logs, net', b) \<and>
      app_pool_closed b \<and> proto_cancelled (net_chat net') \<and> \<not> actor_join_handle (net_chat net')) \<and>
    (\<exists>app'. app_shutdown (Ok ()) app = (ActorFinished, app') \<and> cancel_requested app' \<and>
       (\<forall>x. app_shutdown x app' = (AlreadyAwaited, app')))"
proof -
  have "\<exists>b. app_run L envs a = (Exited (Ok ()), b) \<and> app_pool_closed b"
    by (rule app_loop.run_stops [where P = request_senders and ok = "\<lambda>_. True", OF assms(1) _ assms(2)])
      (use app_turn_goes_on in \<open>blast | simp add: app_turn_def\<close>)+
  then show ?thesis
    using assms(3-5) by (auto simp: app_shutdown_def app_task_def app_cleanup_def protocol_shutdown_def Let_def)
qed

definition sample_application :: application where
  "sample_application = \<lparr>cancel_requested = False, join_handle_present = True, join_lock_poisoned = False\<rparr>"

definition sample_network :: "nat network_endpoint" where
  "sample_network = \<lparr>net_endpoint = 3, net_router = [ALPN], net_chat = chat_protocol_new\<rparr>"

theorem shutdown_stops_actor_witness:
  "(\<exists>logs net' b. app_task sample_lib (\<lambda>p. (Ok (), snd (protocol_shutdown False p)))
        [sample_app_env, sample_app_env\<lparr>app_cancelled := True\<rparr>] sample_network sample_app =
      (LogInfo ''AppActor is successfully closed.'' # logs, net', b) \<and>
      app_pool_closed b \<and> proto_cancelled (net_chat net')) \<and>
   fst (app_shutdown (Ok ()) sample_application) = ActorFinished"
proof -
  have "request_senders sample_app" "join_handle_present sample_application" "\<not> join_lock_poisoned sample_application"
    by (simp_all add: sample_app_def new_app_actor_def sample_application_def)
  then show ?thesis
    using shutdown_stops_actor [of sample_app "[sample_app_env, sample_app_env\<lparr>app_cancelled := True\<rparr>]"
      "\<lambda>p. (Ok (), snd (protocol_shutdown False p))" "Ok ()" False sample_application sample_lib sample_network]
    by auto
qed

end
