(* ===== verification/Benchmarks.thy ===== *)
theory Benchmarks
  imports Bench_Utils App
begin

text \<open>
  The benchmark programs (\<^verbatim>\<open>src/bin\<close>): the two workers, which measure one connection and one
  discovery, and the orchestrator, which runs workers, collects what they report in histograms and
  writes a table. Histograms, printed fractions, clocks and processes are arguments.
\<close>

section \<open>The orchestrator\<close>

text \<open>A histogram of the library, with the texts that it is printed with.\<close>

record 'h hist_lib =
  hist_new :: "('h, string) result"
  hist_record :: "nat \<Rightarrow> 'h \<Rightarrow> ('h, string) result"
  hist_len :: "'h \<Rightarrow> nat"
  hist_quantile :: "'h \<Rightarrow> nat \<Rightarrow> nat"

text \<open>How a scale prints a value with two digits, and microseconds as milliseconds with six.\<close>

record num_text =
  fmt_unit :: "nat \<Rightarrow> string"
  fmt_thousandth :: "nat \<Rightarrow> string"
  fmt_ms6 :: "nat \<Rightarrow> string"

datatype scale = One | Thousandth

definition scaled :: "num_text \<Rightarrow> scale \<Rightarrow> nat \<Rightarrow> string" where
  "scaled N sc v = (case sc of One \<Rightarrow> fmt_unit N v | Thousandth \<Rightarrow> fmt_thousandth N v)"

text \<open>
  \<open>cpu\<close> are the two readings of the processor time for each number of epochs. What is measured in
  between, a thousand times the ratcheting of a random secret, has no other result.
\<close>

definition crypto_row :: "num_text \<Rightarrow> nat \<Rightarrow> nat \<times> nat \<Rightarrow> string" where
  "crypto_row N epochs cpu =
     (case cpu of (start_cpu, end_cpu) \<Rightarrow>
        (let elapsed_us = (end_cpu - start_cpu) div 1000
         in ''crypto_cost,epochs,'' @ show_nat epochs @ '',cpu_time_ms,'' @ fmt_ms6 N elapsed_us))"

definition measure_crypto :: "num_text \<Rightarrow> nat list \<Rightarrow> (nat \<Rightarrow> nat \<times> nat) \<Rightarrow> string list" where
  "measure_crypto N epochs_to_simulate cpu =
     map (\<lambda>(i, epochs). crypto_row N epochs (cpu i)) (enumerate 0 epochs_to_simulate)"

definition quantiles :: "nat list" where
  "quantiles = [50, 75, 90, 95, 99]"

definition report_hist :: "'h hist_lib \<Rightarrow> num_text \<Rightarrow> string \<Rightarrow> string \<Rightarrow> 'h \<Rightarrow> scale \<Rightarrow> string list" where
  "report_hist H N name metric hist sc =
     (if hist_len H hist > 0
      then map (\<lambda>q. name @ '',p'' @ show_nat q @ ''_'' @ metric @ '','' @ scaled N sc (hist_quantile H hist q)) quantiles
      else [])"

text \<open>
  A worker: \<open>exe\<close> says whether the program and its directory were found, \<open>stdout\<close> is what the
  process printed, unless it could not be run.
\<close>

fun result_line :: "string list \<Rightarrow> (nat list, string) result" where
  "result_line [] = Err ''Worker failed to return result''"
| "result_line (line # rest) =
     (if starts_with line ''RESULT,''
      then collect_results (map parse_u64 (split_on (CHR '','') (drop 7 line)))
      else result_line rest)"

definition run_worker :: "(string, string) result \<Rightarrow> (string, string) result \<Rightarrow> (nat list, string) result" where
  "run_worker exe stdout = and_then exe (\<lambda>_. and_then stdout (\<lambda>s. result_line (text_lines s)))"

text \<open>One iteration records the parts of a report that has as many as there are histograms.\<close>

fun record_all :: "'h hist_lib \<Rightarrow> nat list \<Rightarrow> 'h list \<Rightarrow> ('h list, string) result" where
  "record_all H (v # vs) (h # hs) =
     and_then (hist_record H v h) (\<lambda>h'. map_ok ((#) h') (record_all H vs hs))"
| "record_all H _ hs = Ok hs"

definition measure_iteration ::
  "'h hist_lib \<Rightarrow> (nat list, string) result \<Rightarrow> 'h list \<Rightarrow> ('h list, string) result" where
  "measure_iteration H report hs =
     (case report of
        Ok parts \<Rightarrow> if length parts = length hs then record_all H parts hs else Ok hs
      | Err _ \<Rightarrow> Ok hs)"

fun measure_iterations ::
  "'h hist_lib \<Rightarrow> (nat list, string) result list \<Rightarrow> 'h list \<Rightarrow> ('h list, string) result" where
  "measure_iterations H [] hs = Ok hs"
| "measure_iterations H (r # rs) hs = and_then (measure_iteration H r hs) (measure_iterations H rs)"

definition new_hists :: "'h hist_lib \<Rightarrow> nat \<Rightarrow> ('h list, string) result" where
  "new_hists H n = collect_results (replicate n (hist_new H))"

definition report_hists ::
  "'h hist_lib \<Rightarrow> num_text \<Rightarrow> (string \<times> string \<times> scale) list \<Rightarrow> 'h list \<Rightarrow> string list" where
  "report_hists H N columns hs =
     concat (map (\<lambda>((name, metric, sc), h). report_hist H N name metric h sc) (zip columns hs))"

definition dht_columns :: "(string \<times> string \<times> scale) list" where
  "dht_columns =
     [(''dht_publish'', ''bytes'', One), (''dht_publish'', ''cpu_ms'', Thousandth),
      (''dht_resolve'', ''latency_ms'', One), (''dht_resolve'', ''bytes'', One),
      (''dht_resolve'', ''cpu_ms'', Thousandth)]"

text \<open>\<open>worker i\<close> is the outcome of the worker of iteration \<open>i\<close>.\<close>

definition measure_dht_discovery ::
  "'h hist_lib \<Rightarrow> num_text \<Rightarrow> (nat \<Rightarrow> (nat list, string) result) \<Rightarrow> nat \<Rightarrow> (string list, string) result" where
  "measure_dht_discovery H N worker iterations =
     and_then (new_hists H 5) (\<lambda>hs.
     and_then (measure_iterations H (map worker [1..<Suc iterations]) hs) (\<lambda>hs.
       Ok (report_hists H N dht_columns hs)))"

definition conn_columns :: "(string \<times> string \<times> scale) list" where
  "conn_columns =
     [(''conn_est'', ''latency_ms'', One), (''conn_est'', ''bytes'', One), (''conn_est'', ''cpu_ms'', Thousandth)]"

definition measure_connection_establishment ::
  "'h hist_lib \<Rightarrow> num_text \<Rightarrow> (nat \<Rightarrow> (nat list, string) result) \<Rightarrow> nat \<Rightarrow> (string list, string) result" where
  "measure_connection_establishment H N worker iterations =
     and_then (new_hists H 3) (\<lambda>hs.
     and_then (measure_iterations H (map worker [1..<Suc iterations]) hs) (\<lambda>hs.
       Ok (report_hists H N conn_columns hs)))"

record bench_config =
  crypto :: "nat list option"
  discovery :: "nat option"
  latency :: "nat option"

text \<open>The configuration file: three places, then the directory of the program.\<close>

definition possible_paths :: "string list" where
  "possible_paths = [''bench_config.ron'', ''./config/bench_config.ron'', ''../bench_config.ron'']"

definition config_not_found :: string where
  "config_not_found = ''Configuration file '' @ CHR 0x27 # ''bench_config.ron'' @ CHR 0x27 #
     '' not found in root, ./config, or executable directory.''"

definition find_config :: "(string \<Rightarrow> bool) \<Rightarrow> string option \<Rightarrow> (string, string) result" where
  "find_config there exe_dir =
     (case find there possible_paths of
        Some p \<Rightarrow> Ok p
      | None \<Rightarrow>
          (case exe_dir of
             Some d \<Rightarrow> if there (d @ ''/bench_config.ron'') then Ok (d @ ''/bench_config.ron'')
                       else Err config_not_found
           | None \<Rightarrow> Err config_not_found))"

definition csv_header :: string where
  "csv_header = ''run_type,metric,param,value''"

text \<open>The rows of all parts that the configuration asks for, and the file that is written.\<close>

definition all_results ::
  "'h hist_lib \<Rightarrow> num_text \<Rightarrow> (nat \<Rightarrow> nat \<times> nat) \<Rightarrow> (nat \<Rightarrow> (nat list, string) result)
     \<Rightarrow> (nat \<Rightarrow> (nat list, string) result) \<Rightarrow> bench_config \<Rightarrow> (string list, string) result" where
  "all_results H N cpu dht_worker conn_worker config =
     and_then (Ok (case crypto config of Some c \<Rightarrow> measure_crypto N c cpu | None \<Rightarrow> [])) (\<lambda>r1.
     and_then (case discovery config of
                 Some n \<Rightarrow> measure_dht_discovery H N dht_worker n | None \<Rightarrow> Ok []) (\<lambda>r2.
     and_then (case latency config of
                 Some n \<Rightarrow> measure_connection_establishment H N conn_worker n | None \<Rightarrow> Ok []) (\<lambda>r3.
       Ok (csv_header # r1 @ r2 @ r3))))"

definition bench_main ::
  "'h hist_lib \<Rightarrow> num_text \<Rightarrow> (nat \<Rightarrow> nat \<times> nat) \<Rightarrow> (nat \<Rightarrow> (nat list, string) result)
     \<Rightarrow> (nat \<Rightarrow> (nat list, string) result) \<Rightarrow> (string \<Rightarrow> bool) \<Rightarrow> string option
     \<Rightarrow> (string \<Rightarrow> (bench_config, string) result) \<Rightarrow> (string, string) result" where
  "bench_main H N cpu dht_worker conn_worker there exe_dir read_config =
     and_then (find_config there exe_dir) (\<lambda>path.
     and_then (read_config path) (\<lambda>config.
     and_then (all_results H N cpu dht_worker conn_worker config) (\<lambda>rows.
       Ok (join [newline] rows @ [newline]))))"


section \<open>The worker for connections\<close>

text \<open>
  The receiver of the worker is notified when a connected state is reported; a notification that
  comes before the wait is kept for it.
\<close>

definition bench_connected :: "uniffi_chat_connection_state list \<Rightarrow> bool" where
  "bench_connected states \<longleftrightarrow> (\<exists>s\<in>set states. case s of UConnected _ \<Rightarrow> True | _ \<Rightarrow> False)"

text \<open>
  What the worker meets: the fresh directory, the two applications, the calls it makes on them, the
  states reported to its receiver within the time limit, and its measurements. Errors of the
  applications are given in their printed form.
\<close>

record conn_env =
  ce_db_root :: "(string, string) result"
  ce_alice :: "(unit, string) result"
  ce_bob :: "(unit, string) result"
  ce_invite :: "(string, string) result"
  ce_receive :: "string \<Rightarrow> (unit, string) result"
  ce_manager :: "(unit, string) result"
  ce_subscribe :: "(unit, string) result"
  ce_states :: "uniffi_chat_connection_state list"
  ce_latency :: nat
  ce_start_bytes :: "nat \<times> nat"
  ce_sample :: "nat \<Rightarrow> nat \<times> nat"
  ce_start_cpu :: nat
  ce_end_cpu :: nat

text \<open>The lines that a worker prints, its error, or a panic.\<close>

type_synonym worker_end = "(string list, string) result may_panic"

definition usage :: "string list \<Rightarrow> worker_end" where
  "usage args =
     (case args of
        [] \<Rightarrow> Panicked
      | exe # _ \<Rightarrow> Return (Err (''Usage: '' @ exe @ '' <iteration> <bob_sk_hex> <alice_sk_hex>'')))"

definition conn_worker_main :: "build \<Rightarrow> string list \<Rightarrow> conn_env \<Rightarrow> worker_end" where
  "conn_worker_main b args env =
     (if length args \<noteq> 4 then usage args
      else
        (case and_then (ce_db_root env) (\<lambda>_.
              and_then (ce_alice env) (\<lambda>_.
              and_then (ce_bob env) (\<lambda>_.
              and_then (ce_invite env) (\<lambda>invite_str.
              and_then (ce_receive env invite_str) (\<lambda>_.
              and_then (ce_manager env) (\<lambda>_.
                ce_subscribe env)))))) of
           Err e \<Rightarrow> Return (Err e)
         | Ok _ \<Rightarrow>
             (let success = bench_connected (ce_states env);
                  conn_latency = (if success then ce_latency env else 0)
              in or_panic (wait_for_bandwidth_stabilization b (ce_sample env)) (\<lambda>max_conn_bytes.
                 or_panic (usize_add b (fst (ce_start_bytes env)) (snd (ce_start_bytes env))) (\<lambda>start_bytes.
                   let conn_bytes = max_conn_bytes - start_bytes;
                       conn_cpu = ce_end_cpu env - ce_start_cpu env
                   in Return (Ok [''Waiting for DHT propagation...'',
                        if success then report_result [conn_latency, conn_bytes, conn_cpu]
                        else ''ERROR'']))))))"

section \<open>The worker for discovery\<close>

text \<open>The two databases, the two keys, and the measurements before and after each phase.\<close>

record disc_env =
  de_db_root :: "(string, string) result"
  de_bob_db :: "(unit, string) result"
  de_alice_db :: "(unit, string) result"
  de_publish_start :: "nat \<times> nat"
  de_publish_sample :: "nat \<Rightarrow> nat \<times> nat"
  de_publish_cpu :: "nat \<times> nat"
  de_resolve_start :: "nat \<times> nat"
  de_resolve_sample :: "nat \<Rightarrow> nat \<times> nat"
  de_resolve_cpu :: "nat \<times> nat"
  de_latency :: nat

definition phase_cost :: "build \<Rightarrow> nat \<times> nat \<Rightarrow> (nat \<Rightarrow> nat \<times> nat) \<Rightarrow> nat \<times> nat \<Rightarrow> (nat \<times> nat) may_panic" where
  "phase_cost b start sample cpu =
     or_panic (wait_for_bandwidth_stabilization b sample) (\<lambda>max_bytes.
     or_panic (usize_add b (fst start) (snd start)) (\<lambda>start_bytes.
       Return (max_bytes - start_bytes, snd cpu - fst cpu)))"

text \<open>Up to \<open>n\<close> attempts; \<open>next_item k\<close> says whether the stream of attempt \<open>k\<close> has an item.\<close>

fun resolve_attempts :: "(unit \<Rightarrow> 'stream option) \<Rightarrow> (nat \<Rightarrow> 'stream \<Rightarrow> bool) \<Rightarrow> nat \<Rightarrow> nat \<Rightarrow> bool" where
  "resolve_attempts resolve next_item k 0 = False"
| "resolve_attempts resolve next_item k (Suc n) =
     (case resolve () of
        Some stream \<Rightarrow> if next_item k stream then True else resolve_attempts resolve next_item (Suc k) n
      | None \<Rightarrow> resolve_attempts resolve next_item (Suc k) n)"

definition disc_worker_main ::
  "build \<Rightarrow> ('k, 'id) key_lib \<Rightarrow> 'id id_text \<Rightarrow> (nat \<Rightarrow> 'stream \<Rightarrow> bool) \<Rightarrow> (lib_error \<Rightarrow> string) \<Rightarrow> string list
     \<Rightarrow> disc_env \<Rightarrow> worker_end" where
  "disc_worker_main b K T next_item show_err args env =
     (if length args \<noteq> 4 then usage args
      else
        (case and_then (de_db_root env) (\<lambda>root.
              and_then (de_bob_db env) (\<lambda>_.
              and_then (de_alice_db env) (\<lambda>_.
              and_then (secret_key_from_hex_lower K (args ! 2)) (\<lambda>bob_sk.
              and_then (secret_key_from_hex_lower K (args ! 3)) (\<lambda>alice_sk.
              and_then (map_err show_err (create_invite_str T \<lparr>invite_sender = key_public K bob_sk\<rparr>
                          (Sealed (key_public K alice_sk)))) (\<lambda>invite.
              and_then (builder_build (builder_new bob_sk ())) (\<lambda>bob_discovery.
                Ok (bob_sk, alice_sk, invite)))))))) of
           Err e \<Rightarrow> Return (Err e)
         | Ok (bob_sk, alice_sk, invite) \<Rightarrow>
             or_panic (phase_cost b (de_publish_start env) (de_publish_sample env) (de_publish_cpu env)) (\<lambda>(pub_bytes, pub_cpu).
             case and_then (map_err show_err
                     (receive_invite_str T \<lparr>invite_sender = key_public K alice_sk\<rparr> invite)) (\<lambda>_.
                   builder_build (builder_new alice_sk ())) of
               Err e \<Rightarrow> Return (Err e)
             | Ok alice_discovery \<Rightarrow>
                 if resolve_attempts (\<lambda>_. discovery_resolve alice_discovery (key_public K bob_sk)) next_item 0 10
                 then or_panic (phase_cost b (de_resolve_start env) (de_resolve_sample env) (de_resolve_cpu env)) (\<lambda>(res_bytes, res_cpu).
                   Return (Ok [report_result [pub_bytes, pub_cpu, de_latency env, res_bytes, res_cpu]]))
                 else Return (Ok [''ERROR'']))))"

text \<open>The output of a worker as its parent reads it.\<close>

definition printed :: "string list \<Rightarrow> string" where
  "printed ls = concat (map (\<lambda>l. l @ [newline]) ls)"

section \<open>Reports\<close>

lemma or_panic_Return_iff: "or_panic p f = Return y \<longleftrightarrow> (\<exists>x. p = Return x \<and> f x = Return y)"
  by (cases p) auto

lemma join_chars: "set (join sep xs) \<subseteq> set sep \<union> \<Union> (set ` set xs)"
  by (induction sep xs rule: join.induct) auto

lemma report_has_no:
  assumes "digit_val c = None" "c \<notin> set ''RESULT,''"
  shows "c \<notin> set (report_result parts)"
proof
  assume "c \<in> set (report_result parts)"
  then have "c \<in> set (join '','' (map show_nat parts))" using assms(2) by (auto simp: report_result_def)
  then show False
    using join_chars [of "'',''" "map show_nat parts"] assms not_digit_not_in_show by fastforce
qed

lemma report_one_line:
  "newline \<notin> set (report_result parts) \<and> char_of (13 :: nat) \<notin> set (report_result parts)"
  by (intro conjI report_has_no) (simp_all add: digit_val_def newline_def char_of_def)

lemma parse_report:
  assumes "parts \<noteq> []" "\<forall>p\<in>set parts. p \<le> u64_max"
  shows "collect_results (map parse_u64 (split_on (CHR '','') (drop 7 (report_result parts)))) = Ok parts"
proof -
  have "split_on (CHR '','') (join '','' (map show_nat parts)) = map show_nat parts"
    using assms(1) by (intro split_on_join) (auto simp: not_digit_not_in_show digit_val_def)
  then show ?thesis
    using decimal.dec_all [of parts] assms(2) by (simp add: report_result_def)
qed

lemma result_line_skips:
  "\<forall>l\<in>set noise. \<not> starts_with l ''RESULT,'' \<Longrightarrow> result_line (noise @ ls) = result_line ls"
  by (induction noise) auto

lemma text_lines_of_printed:
  "\<forall>l\<in>set ls. newline \<notin> set l \<and> char_of (13 :: nat) \<notin> set l \<Longrightarrow> text_lines (printed ls) = ls"
  unfolding printed_def by (rule text_lines_printed) blast

text \<open>
  C36: What a worker reports is what its parent reads: the numbers of a report come back unchanged,
  whatever lines the worker prints before and after it; a report without numbers is an error.
\<close>

theorem worker_report_roundtrip:
  assumes "\<forall>p\<in>set parts. p \<le> u64_max"
    and "\<forall>l\<in>set (noise @ rest). newline \<notin> set l \<and> char_of (13 :: nat) \<notin> set l"
    and "\<forall>l\<in>set noise. \<not> starts_with l ''RESULT,''"
  shows "run_worker (Ok exe) (Ok (printed (noise @ report_result parts # rest))) =
    (if parts = [] then Err ''cannot parse integer from empty string'' else Ok parts)"
proof -
  have "text_lines (printed (noise @ report_result parts # rest)) = noise @ report_result parts # rest"
    using assms(2) report_one_line by (intro text_lines_of_printed) auto
  moreover have "starts_with (report_result parts) ''RESULT,''"
    by (simp add: report_result_def starts_with_def)
  ultimately have "run_worker (Ok exe) (Ok (printed (noise @ report_result parts # rest))) =
      collect_results (map parse_u64 (split_on (CHR '','') (drop 7 (report_result parts))))"
    using assms(3) by (simp add: run_worker_def result_line_skips)
  also have "\<dots> = (if parts = [] then Err ''cannot parse integer from empty string'' else Ok parts)"
    using assms(1) parse_report by (auto simp: report_result_def parse_u64_def)
  finally show ?thesis .
qed

theorem worker_report_roundtrip_witness:
  "run_worker (Ok ''w'') (Ok (printed [''Waiting'', report_result [120, 0, 7]])) = Ok [120, 0, 7]"
  using worker_report_roundtrip [of "[120, 0, 7]" "[''Waiting'']" "[]" "''w''"]
  by (simp add: u64_max_def newline_def char_of_def starts_with_def)

section \<open>Nothing to resolve\<close>

lemma resolve_never: "resolve_attempts (\<lambda>_. discovery_resolve d e) next_item k n = False"
  by (induction n arbitrary: k) (simp_all add: discovery_resolve_def)

lemma disc_worker_prints:
  assumes "disc_worker_main b K T next_item show_err args env = Return (Ok out)"
  shows "out = [''ERROR'']"
proof -
  have "length args = 4"
    using assms by (auto simp: disc_worker_main_def usage_def split: if_splits list.splits)
  with assms show ?thesis
    by (auto simp: disc_worker_main_def resolve_never or_panic_Return_iff
        split: result.splits if_splits) (meson result.exhaust)
qed

text \<open>Iterations that report nothing leave the histograms as they are.\<close>

lemma measure_iterations_none:
  "\<forall>r\<in>set rs. \<not> is_ok r \<Longrightarrow> measure_iterations H rs hs = Ok hs"
  by (induction rs) (auto simp: measure_iteration_def split: result.splits)

text \<open>
  The discovery of this snapshot finds nobody, and its benchmark measures nothing: a worker
  that ends without a failure prints an error, its parent reads no report, and however many workers
  are run, the discovery part of the results is empty.
\<close>

lemma discovery_benchmark_is_empty:
  assumes "\<And>i. \<exists>out. disc_worker_main b K T next_item show_err (args i) (env i) = Return (Ok out) \<and>
      worker i = run_worker (Ok exe) (Ok (printed out))"
    and "hist_new H = Ok h0" "hist_len H h0 = 0"
  shows "worker i = Err ''Worker failed to return result'' \<and>
    measure_dht_discovery H N worker iterations = Ok []"
proof -
  have w: "worker i = Err ''Worker failed to return result''" for i
  proof -
    have "text_lines (printed [''ERROR'']) = [''ERROR'']"
      by (rule text_lines_of_printed) (simp add: newline_def char_of_def)
    moreover obtain out where "disc_worker_main b K T next_item show_err (args i) (env i) = Return (Ok out)"
        "worker i = run_worker (Ok exe) (Ok (printed out))"
      using assms(1) by blast
    ultimately show ?thesis
      by (auto dest!: disc_worker_prints simp: run_worker_def starts_with_def)
  qed
  then have "measure_iterations H (map worker [1..<Suc iterations]) hs = Ok hs" for hs
    by (intro measure_iterations_none) auto
  moreover have "new_hists H 5 = Ok (replicate 5 h0)"
    by (simp add: new_hists_def assms(2) collect_results_Ok_iff)
  ultimately show ?thesis
    using w assms(3)
    by (simp add: measure_dht_discovery_def report_hists_def dht_columns_def report_hist_def numeral_eq_Suc del: upt_Suc)
qed

section \<open>The table\<close>

definition columns :: "string \<Rightarrow> nat" where
  "columns row = length (split_on (CHR '','') row)"

lemma columns_join:
  "xs \<noteq> [] \<Longrightarrow> (\<And>x. x \<in> set xs \<Longrightarrow> CHR '','' \<notin> set x) \<Longrightarrow> columns (join '','' xs) = length xs"
  by (simp add: columns_def split_on_join)

lemma no_comma_in_show: "CHR '','' \<notin> set (show_nat n)"
  by (rule not_digit_not_in_show) (simp add: digit_val_def)

lemma crypto_row_columns:
  assumes "\<And>n. CHR '','' \<notin> set (fmt_ms6 N n)"
  shows "columns (crypto_row N e cpu) = 5"
proof (cases cpu)
  case (Pair x y)
  let ?fields = "[''crypto_cost'', ''epochs'', show_nat e, ''cpu_time_ms'', fmt_ms6 N ((y - x) div 1000)]"
  have "columns (join '','' ?fields) = length ?fields"
    using assms no_comma_in_show by (intro columns_join) auto
  then show ?thesis using Pair by (simp add: crypto_row_def)
qed

lemma report_hist_columns:
  assumes "\<And>sc n. CHR '','' \<notin> set (scaled N sc n)" "CHR '','' \<notin> set name" "CHR '','' \<notin> set metric"
    and "r \<in> set (report_hist H N name metric h sc)"
  shows "columns r = 3"
proof -
  obtain q where "r = name @ '',p'' @ show_nat q @ ''_'' @ metric @ '','' @ scaled N sc (hist_quantile H h q)"
    using assms(4) by (auto simp: report_hist_def split: if_splits)
  moreover let ?fields = "[name, ''p'' @ show_nat q @ ''_'' @ metric, scaled N sc (hist_quantile H h q)]"
  have "columns (join '','' ?fields) = length ?fields"
    using assms(1-3) no_comma_in_show by (intro columns_join) auto
  ultimately show ?thesis by simp
qed


lemma report_hists_columns:
  assumes "\<And>sc n. CHR '','' \<notin> set (scaled N sc n)"
    and "\<forall>(name, metric, sc)\<in>set cols. CHR '','' \<notin> set name \<and> CHR '','' \<notin> set metric"
    and "r \<in> set (report_hists H N cols hs)"
  shows "columns r = 3"
proof -
  obtain name metric sc h where "(name, metric, sc) \<in> set cols" "r \<in> set (report_hist H N name metric h sc)"
    using assms(3) by (auto simp: report_hists_def dest!: set_zip_leftD)
  then show ?thesis using assms(1,2) by (intro report_hist_columns) auto
qed

text \<open>
  The rows of the results do not have the columns of their header: the header has four, every
  row of the cryptographic part has five, and every row of the other two parts has three.
\<close>

lemma result_rows_columns:
  assumes "\<And>sc n. CHR '','' \<notin> set (scaled N sc n)" "\<And>n. CHR '','' \<notin> set (fmt_ms6 N n)"
    and "all_results H N cpu dht conn config = Ok rows"
  shows "\<exists>crypto_rows hist_rows. rows = csv_header # crypto_rows @ hist_rows \<and> columns csv_header = 4 \<and>
    length crypto_rows = (case crypto config of Some es \<Rightarrow> length es | None \<Rightarrow> 0) \<and>
    (\<forall>r\<in>set crypto_rows. columns r = 5) \<and> (\<forall>r\<in>set hist_rows. columns r = 3)"
proof -
  let ?r1 = "case crypto config of Some c \<Rightarrow> measure_crypto N c cpu | None \<Rightarrow> []"
  obtain r2 r3 where
    r2: "(case discovery config of Some n \<Rightarrow> measure_dht_discovery H N dht n | None \<Rightarrow> Ok []) = Ok r2" and
    r3: "(case latency config of Some n \<Rightarrow> measure_connection_establishment H N conn n | None \<Rightarrow> Ok []) = Ok r3" and
    rows: "rows = csv_header # ?r1 @ r2 @ r3"
    using assms(3) by (auto simp: all_results_def result_simps)
  have "columns r = 3" if "r \<in> set r2" for r
    using r2 that report_hists_columns [OF assms(1), of dht_columns r H]
    by (auto simp: measure_dht_discovery_def dht_columns_def result_simps split: option.splits)
  moreover have "columns r = 3" if "r \<in> set r3" for r
    using r3 that report_hists_columns [OF assms(1), of conn_columns r H]
    by (auto simp: measure_connection_establishment_def conn_columns_def result_simps split: option.splits)
  moreover have "columns r = 5" if "r \<in> set ?r1" for r
    using that by (auto simp: measure_crypto_def crypto_row_columns [OF assms(2)] split: option.splits)
  moreover have "columns csv_header = 4" by code_simp
  moreover have "length ?r1 = (case crypto config of Some es \<Rightarrow> length es | None \<Rightarrow> 0)"
    by (simp add: measure_crypto_def split: option.splits)
  ultimately show ?thesis using rows by (intro exI [of _ ?r1] exI [of _ "r2 @ r3"]) auto
qed

section \<open>Examples\<close>

definition list_hist :: "nat list hist_lib" where
  "list_hist = \<lparr>hist_new = Ok [], hist_record = (\<lambda>v h. Ok (h @ [v])), hist_len = length,
     hist_quantile = (\<lambda>h q. sort h ! (length h * q div 100))\<rparr>"

definition plain_text :: num_text where
  "plain_text = \<lparr>fmt_unit = show_nat, fmt_thousandth = show_nat, fmt_ms6 = show_nat\<rparr>"

definition sample_config :: bench_config where
  "sample_config = \<lparr>crypto = Some [24], discovery = None, latency = Some 2\<rparr>"

definition sample_conn_worker :: "nat \<Rightarrow> (nat list, string) result" where
  "sample_conn_worker i = (if i = 1 then Ok [7, 9, 5] else Err ''Worker failed to return result'')"

definition sample_keys :: "(nat, nat) key_lib" where
  "sample_keys = \<lparr>key_from_str = (\<lambda>s. Some (length s)), key_public = (\<lambda>k. k), key_to_bytes = (\<lambda>k. replicate 32 (of_nat k)),
     key_from_bytes = (\<lambda>b. unat (last b)), hexlower_encode = map (char_of \<circ> unat),
     hexlower_decode = (\<lambda>s. Some (replicate 32 (of_nat (length s))))\<rparr>"

definition quiet_env :: disc_env where
  "quiet_env = \<lparr>de_db_root = Ok ''d'', de_bob_db = Ok (), de_alice_db = Ok (), de_publish_start = (0, 0),
     de_publish_sample = (\<lambda>_. (0, 0)), de_publish_cpu = (0, 0), de_resolve_start = (0, 0),
     de_resolve_sample = (\<lambda>_. (0, 0)), de_resolve_cpu = (0, 0), de_latency = 0\<rparr>"

lemma quiet_wait: "wait_for_bandwidth_stabilization b (\<lambda>_. (0, 0)) = Return 0"
  by (simp add: wait_for_bandwidth_stabilization_def numeral_eq_Suc usize_add_def)

end
