(* ===== verification/Logging.thy ===== *)
theory Logging
  imports Text
begin

text \<open>
  The log layer (\<^verbatim>\<open>src/log.rs\<close>): it turns the spans and events of the tracing library into lines
  for the logger of the foreign side. The registry of spans belongs to the library; a span is known
  to it from its creation to its end, and keeps the data that this layer attached.
\<close>

section \<open>Levels\<close>

datatype log_level = LError | LWarn | LInfo | LDebug | LTrace

fun log_level_display :: "log_level \<Rightarrow> string" where
  "log_level_display LError = ''error''"
| "log_level_display LWarn = ''warn''"
| "log_level_display LInfo = ''info''"
| "log_level_display LDebug = ''debug''"
| "log_level_display LTrace = ''trace''"

datatype level = ERROR | WARN | INFO | DEBUG | TRACE

fun log_level_from :: "level \<Rightarrow> log_level" where
  "log_level_from ERROR = LError"
| "log_level_from WARN = LWarn"
| "log_level_from INFO = LInfo"
| "log_level_from DEBUG = LDebug"
| "log_level_from TRACE = LTrace"

section \<open>Fields\<close>

text \<open>The value of a field as it is recorded; a debug value is given by its printed form.\<close>

datatype field_value = VStr string | VI64 "64 word" | VU64 "64 word" | VBool bool | VDebug string

record visitor =
  v_fields :: string
  v_message :: "string option"

definition visitor_default :: visitor where
  "visitor_default = \<lparr>v_fields = [], v_message = None\<rparr>"

definition maybe_add_separator :: "visitor \<Rightarrow> visitor" where
  "maybe_add_separator v = (if v_fields v \<noteq> [] then v\<lparr>v_fields := v_fields v @ '', ''\<rparr> else v)"

definition push_field :: "string \<Rightarrow> string \<Rightarrow> visitor \<Rightarrow> visitor" where
  "push_field name printed v =
     (let v1 = maybe_add_separator v in v1\<lparr>v_fields := v_fields v1 @ name @ '' = '' @ printed\<rparr>)"

definition record_str :: "string \<Rightarrow> string \<Rightarrow> visitor \<Rightarrow> visitor" where
  "record_str name value v =
     (if name = ''message'' then v\<lparr>v_message := Some value\<rparr>
      else push_field name (CHR 0x22 # value @ [CHR 0x22]) v)"

definition record_i64 :: "string \<Rightarrow> 64 word \<Rightarrow> visitor \<Rightarrow> visitor" where
  "record_i64 name value v = push_field name (show_int (sint value)) v"

definition record_u64 :: "string \<Rightarrow> 64 word \<Rightarrow> visitor \<Rightarrow> visitor" where
  "record_u64 name value v = push_field name (show_nat (unat value)) v"

definition record_bool :: "string \<Rightarrow> bool \<Rightarrow> visitor \<Rightarrow> visitor" where
  "record_bool name value v = push_field name (if value then ''true'' else ''false'') v"

definition record_debug :: "string \<Rightarrow> string \<Rightarrow> visitor \<Rightarrow> visitor" where
  "record_debug name printed v =
     (if name = ''message'' then v\<lparr>v_message := Some printed\<rparr> else push_field name printed v)"

fun record_field :: "string \<times> field_value \<Rightarrow> visitor \<Rightarrow> visitor" where
  "record_field (name, VStr s) v = record_str name s v"
| "record_field (name, VI64 i) v = record_i64 name i v"
| "record_field (name, VU64 i) v = record_u64 name i v"
| "record_field (name, VBool b) v = record_bool name b v"
| "record_field (name, VDebug s) v = record_debug name s v"

text \<open>The library hands the fields to the visitor one after the other.\<close>

definition visit :: "(string \<times> field_value) list \<Rightarrow> visitor" where
  "visit fs = fold record_field fs visitor_default"

section \<open>The layer\<close>

record metadata =
  meta_name :: string
  meta_target :: string
  meta_level :: level

record span_data =
  span_start :: nat
  span_fields :: string

text \<open>
  \<open>registry\<close> are the living spans with their metadata and the data of this layer; \<open>logged\<close> are the
  calls of the foreign logger.
\<close>

record log_state =
  registry :: "(nat \<times> metadata \<times> span_data option) list"
  logged :: "(log_level \<times> string \<times> string) list"

definition swift_log :: "metadata \<Rightarrow> string \<Rightarrow> log_state \<Rightarrow> log_state" where
  "swift_log m message st =
     st\<lparr>logged := logged st @ [(log_level_from (meta_level m), meta_target m, message)]\<rparr>"

definition attach :: "nat \<Rightarrow> metadata \<Rightarrow> span_data \<Rightarrow> log_state \<Rightarrow> log_state" where
  "attach i m d st = st\<lparr>registry := map (\<lambda>e. if fst e = i then (i, m, Some d) else e) (registry st)\<rparr>"

text \<open>A span that the registry does not know is a panic.\<close>

definition on_new_span ::
  "(string \<times> field_value) list \<Rightarrow> nat \<Rightarrow> nat \<Rightarrow> log_state \<Rightarrow> log_state may_panic" where
  "on_new_span attrs i now st =
     (case map_of (registry st) i of
        None \<Rightarrow> Panicked
      | Some (m, _) \<Rightarrow>
          (let fields = v_fields (visit attrs);
               message = ''start: '' @ meta_name m @ '' { '' @ fields @ '' }''
           in Return (attach i m \<lparr>span_start = now, span_fields = fields\<rparr> (swift_log m message st))))"

definition on_record ::
  "nat \<Rightarrow> (string \<times> field_value) list \<Rightarrow> log_state \<Rightarrow> log_state may_panic" where
  "on_record i values st =
     (case map_of (registry st) i of
        None \<Rightarrow> Panicked
      | Some (m, None) \<Rightarrow> Return st
      | Some (m, Some d) \<Rightarrow>
          (let v = visit values in
           if v_fields v \<noteq> []
           then Return (attach i m
                  (d\<lparr>span_fields := (if span_fields d \<noteq> [] then span_fields d @ '', '' else span_fields d)
                       @ v_fields v\<rparr>) st)
           else Return st))"

definition on_event :: "metadata \<Rightarrow> (string \<times> field_value) list \<Rightarrow> log_state \<Rightarrow> log_state" where
  "on_event m fs st =
     (let v = visit fs;
          primary_message = (case v_message v of Some x \<Rightarrow> x | None \<Rightarrow> meta_name m);
          message = (if v_fields v = [] then primary_message
                     else primary_message @ '' { '' @ v_fields v @ '' }'')
      in swift_log m message st)"

text \<open>\<open>show_duration\<close> prints a duration as the standard library does.\<close>

definition on_close :: "(nat \<Rightarrow> string) \<Rightarrow> nat \<Rightarrow> nat \<Rightarrow> log_state \<Rightarrow> log_state" where
  "on_close show_duration i now st =
     (case map_of (registry st) i of
        Some (m, Some d) \<Rightarrow>
          swift_log m (''end: '' @ meta_name m @ '' (duration: '' @ show_duration (now - span_start d) @ '') { ''
            @ span_fields d @ '' }'') st
      | _ \<Rightarrow> st)"

text \<open>
  The calls of the library: it registers a span before the layer hears of it and removes it after
  the layer was told of its end. Entering and leaving a span does nothing.
\<close>

datatype trace_call =
  NewSpan nat metadata "(string \<times> field_value) list" nat
| Record nat "(string \<times> field_value) list"
| Enter nat
| Exit nat
| Event metadata "(string \<times> field_value) list"
| CloseSpan nat nat

fun trace_step :: "(nat \<Rightarrow> string) \<Rightarrow> trace_call \<Rightarrow> log_state \<Rightarrow> log_state may_panic" where
  "trace_step sd (NewSpan i m attrs now) st =
     on_new_span attrs i now (st\<lparr>registry := registry st @ [(i, m, None)]\<rparr>)"
| "trace_step sd (Record i values) st = on_record i values st"
| "trace_step sd (Enter i) st = Return st"
| "trace_step sd (Exit i) st = Return st"
| "trace_step sd (Event m fs) st = Return (on_event m fs st)"
| "trace_step sd (CloseSpan i now) st =
     (let st1 = on_close sd i now st
      in Return (st1\<lparr>registry := filter (\<lambda>e. fst e \<noteq> i) (registry st1)\<rparr>))"

fun trace_run :: "(nat \<Rightarrow> string) \<Rightarrow> trace_call list \<Rightarrow> log_state \<Rightarrow> log_state may_panic" where
  "trace_run sd [] st = Return st"
| "trace_run sd (c # cs) st =
     (case trace_step sd c st of Panicked \<Rightarrow> Panicked | Return st1 \<Rightarrow> trace_run sd cs st1)"

section \<open>Starting the logger\<close>

datatype logger_init_error = SetLoggerError

text \<open>\<open>parse_filter\<close> and \<open>new_filter\<close> make a filter, \<open>try_init\<close> installs the subscriber.\<close>

definition init_logger ::
  "(string \<Rightarrow> ('f, string) result) \<Rightarrow> (string \<Rightarrow> 'f) \<Rightarrow> ('f \<Rightarrow> (unit, string) result)
     \<Rightarrow> log_level \<Rightarrow> log_level \<Rightarrow> (unit, logger_init_error) result" where
  "init_logger parse_filter new_filter try_init general_level gossip_core_level =
     (let filter_str = log_level_display general_level @ '',gossip_core='' @ log_level_display gossip_core_level;
          env_filter = (case parse_filter filter_str of Ok f \<Rightarrow> f | Err _ \<Rightarrow> new_filter ''info'')
      in map_err (\<lambda>_. SetLoggerError) (try_init env_filter))"

section \<open>Fields in order\<close>

text \<open>The text of a field; the message is kept apart.\<close>

fun field_text :: "string \<times> field_value \<Rightarrow> string option" where
  "field_text (name, VStr s) =
     (if name = ''message'' then None else Some (name @ '' = '' @ CHR 0x22 # s @ [CHR 0x22]))"
| "field_text (name, VI64 i) = Some (name @ '' = '' @ show_int (sint i))"
| "field_text (name, VU64 i) = Some (name @ '' = '' @ show_nat (unat i))"
| "field_text (name, VBool b) = Some (name @ '' = '' @ (if b then ''true'' else ''false''))"
| "field_text (name, VDebug s) = (if name = ''message'' then None else Some (name @ '' = '' @ s))"

definition texts :: "(string \<times> field_value) list \<Rightarrow> string list" where
  "texts fs = List.map_filter field_text fs"

definition listed :: "string list \<Rightarrow> string" where
  "listed ts = join '', '' ts"

lemma texts_Nil [simp]: "texts [] = []"
  by (simp add: texts_def map_filter_simps)

lemma texts_Cons: "texts (f # fs) = (case field_text f of Some t \<Rightarrow> t # texts fs | None \<Rightarrow> texts fs)"
  by (simp add: texts_def map_filter_simps split: option.splits)

lemma field_text_not_Nil: "field_text f = Some t \<Longrightarrow> t \<noteq> []"
  by (cases f rule: field_text.cases) (auto split: if_splits)

lemma texts_not_Nil [simp]: "[] \<notin> set (texts fs)"
  by (induction fs) (auto simp: texts_Cons split: option.splits dest: field_text_not_Nil)

lemma listed_Nil_iff [simp]: "[] \<notin> set ts \<Longrightarrow> listed ts = [] \<longleftrightarrow> ts = []"
  by (simp add: listed_def join_Nil_iff)

lemma listed_append:
  "[] \<notin> set ts \<Longrightarrow> [] \<notin> set us \<Longrightarrow> us \<noteq> [] \<Longrightarrow>
     listed (ts @ us) = (if listed ts \<noteq> [] then listed ts @ '', '' else listed ts) @ listed us"
  by (cases "ts = []") (auto simp: listed_def join_append join_Nil_iff)

lemma v_fields_push:
  "v_fields (push_field name s v) = (if v_fields v \<noteq> [] then v_fields v @ '', '' else []) @ name @ '' = '' @ s"
  by (simp add: push_field_def maybe_add_separator_def Let_def)

lemma v_fields_record:
  "v_fields (record_field f v) =
     (case field_text f of
        None \<Rightarrow> v_fields v
      | Some t \<Rightarrow> (if v_fields v \<noteq> [] then v_fields v @ '', '' else []) @ t)"
  by (cases f rule: field_text.cases)
    (auto simp: record_str_def record_i64_def record_u64_def record_bool_def record_debug_def v_fields_push)

text \<open>The separators that the visitor adds on the way make the joined list of all fields.\<close>

lemma fold_record_fields:
  "[] \<notin> set ts \<Longrightarrow> v_fields v = listed ts \<Longrightarrow> v_fields (fold record_field fs v) = listed (ts @ texts fs)"
proof (induction fs arbitrary: ts v)
  case (Cons f fs)
  show ?case
  proof (cases "field_text f")
    case None
    then show ?thesis using Cons by (simp add: texts_Cons v_fields_record)
  next
    case (Some t)
    then have "t \<noteq> []" by (rule field_text_not_Nil)
    then have "v_fields (record_field f v) = listed (ts @ [t])"
      using Some Cons.prems by (subst listed_append) (auto simp: v_fields_record listed_def)
    then show ?thesis
      using Cons.IH [of "ts @ [t]" "record_field f v"] Cons.prems Some \<open>t \<noteq> []\<close> by (simp add: texts_Cons)
  qed
qed simp

lemma v_fields_visit [simp]: "v_fields (visit fs) = listed (texts fs)"
  using fold_record_fields [of "[]" visitor_default fs]
  by (simp add: visit_def visitor_default_def listed_def)

section \<open>Spans\<close>

text \<open>
  What the tracing library guarantees: it names only living spans, and a new span gets an
  identifier that no living one has.
\<close>

fun legal :: "nat set \<Rightarrow> trace_call \<Rightarrow> bool" where
  "legal A (NewSpan i _ _ _) \<longleftrightarrow> i \<notin> A"
| "legal A (Record i _) \<longleftrightarrow> i \<in> A"
| "legal A (Enter i) \<longleftrightarrow> i \<in> A"
| "legal A (Exit i) \<longleftrightarrow> i \<in> A"
| "legal A (Event _ _) \<longleftrightarrow> True"
| "legal A (CloseSpan i _) \<longleftrightarrow> i \<in> A"

fun living :: "nat set \<Rightarrow> trace_call \<Rightarrow> nat set" where
  "living A (NewSpan i _ _ _) = insert i A"
| "living A (CloseSpan i _) = A - {i}"
| "living A _ = A"

fun well_scoped :: "nat set \<Rightarrow> trace_call list \<Rightarrow> bool" where
  "well_scoped A [] \<longleftrightarrow> True"
| "well_scoped A (c # cs) \<longleftrightarrow> legal A c \<and> well_scoped (living A c) cs"

text \<open>The registry has exactly the living spans, each with its data.\<close>

definition spans_ok :: "nat set \<Rightarrow> log_state \<Rightarrow> bool" where
  "spans_ok A st \<longleftrightarrow> (\<forall>i. if i \<in> A then \<exists>m d. map_of (registry st) i = Some (m, Some d)
                          else map_of (registry st) i = None)"

text \<open>A living span with the fields recorded so far.\<close>

definition span_has :: "log_state \<Rightarrow> nat \<Rightarrow> metadata \<Rightarrow> nat \<Rightarrow> string list \<Rightarrow> bool" where
  "span_has st i m t ts \<longleftrightarrow> [] \<notin> set ts \<and>
     map_of (registry st) i = Some (m, Some \<lparr>span_start = t, span_fields = listed ts\<rparr>)"

lemma map_of_attach:
  "map_of (registry (attach i m d st)) j =
     (if j = i \<and> map_of (registry st) i \<noteq> None then Some (m, Some d) else map_of (registry st) j)"
proof -
  have "map_of (map (\<lambda>e. if fst e = i then (i, m, Some d) else e) xs) j =
      (if j = i \<and> map_of xs i \<noteq> None then Some (m, Some d) else map_of xs j)" for xs
    by (induction xs) auto
  then show ?thesis by (simp add: attach_def)
qed

lemma map_of_removed: "map_of (filter (\<lambda>e. fst e \<noteq> i) xs) j = (if j = i then None else map_of xs j)"
  by (induction xs) auto

lemma registry_swift_log [simp]: "registry (swift_log m s st) = registry st"
  by (simp add: swift_log_def)

lemma registry_on_close [simp]: "registry (on_close sd i now st) = registry st"
  by (simp add: on_close_def split: option.splits prod.splits)

lemma trace_step_ok:
  assumes "spans_ok A st" "legal A c"
  obtains st' where "trace_step sd c st = Return st'" "spans_ok (living A c) st'"
proof (cases c)
  case (NewSpan i m attrs now)
  then have "map_of (registry st) i = None" using assms by (simp add: spans_ok_def)
  then have "map_of (registry (attach i m d (swift_log m s (st\<lparr>registry := registry st @ [(i, m, None)]\<rparr>)))) j =
      (if j = i then Some (m, Some d) else map_of (registry st) j)" for d s j
    by (auto simp: map_of_attach map_add_def split: option.splits)
  then show thesis
    using that NewSpan assms \<open>map_of (registry st) i = None\<close>
    by (auto simp: on_new_span_def map_add_def spans_ok_def Let_def)
next
  case (Record i vs)
  then obtain m d where "map_of (registry st) i = Some (m, Some d)"
    using assms unfolding spans_ok_def by (metis legal.simps(2))
  then show thesis
    using that Record assms
    by (cases "texts vs = []") (auto simp: on_record_def Let_def spans_ok_def map_of_attach)
next
  case (CloseSpan i now)
  then show thesis
    using that assms by (auto simp: spans_ok_def map_of_removed Let_def)
qed (use that assms in \<open>auto simp: on_event_def Let_def spans_ok_def\<close>)

text \<open>The fields that a call records for a span.\<close>

fun recorded :: "nat \<Rightarrow> trace_call \<Rightarrow> string list" where
  "recorded i (Record j vs) = (if i = j then texts vs else [])"
| "recorded i _ = []"

lemma trace_step_span:
  assumes "span_has st i m t ts" "trace_step sd c st = Return st'" "\<forall>now. c \<noteq> CloseSpan i now"
    and "\<forall>m attrs now. c \<noteq> NewSpan i m attrs now"
  shows "span_has st' i m t (ts @ recorded i c)"
proof (cases c)
  case (NewSpan j m' attrs now)
  then show ?thesis
    using assms by (auto simp: span_has_def on_new_span_def map_of_attach map_add_def Let_def
        split: option.splits prod.splits)
next
  case (Record j vs)
  show ?thesis
  proof (cases "j = i")
    case True
    have "texts vs \<noteq> [] \<Longrightarrow> listed (ts @ texts vs) =
        (if listed ts \<noteq> [] then listed ts @ '', '' else listed ts) @ listed (texts vs)"
      using assms(1) by (intro listed_append) (auto simp: span_has_def)
    then show ?thesis
      using assms Record True
      by (cases "texts vs = []") (auto simp: span_has_def on_record_def Let_def map_of_attach)
  next
    case False
    then show ?thesis
      using assms Record
      by (auto simp: span_has_def on_record_def Let_def map_of_attach split: option.splits prod.splits if_splits)
  qed
next
  case (CloseSpan j now)
  then show ?thesis using assms by (auto simp: span_has_def map_of_removed Let_def)
qed (use assms in \<open>auto simp: span_has_def on_event_def Let_def\<close>)


text \<open>The calls that make up a run with one span opened in it, seen from that span.\<close>

lemma trace_run_append:
  "trace_run sd (xs @ ys) st =
     (case trace_run sd xs st of Panicked \<Rightarrow> Panicked | Return st1 \<Rightarrow> trace_run sd ys st1)"
  by (induction xs arbitrary: st) (auto split: may_panic.splits)

lemma well_scoped_append:
  "well_scoped A (xs @ ys) \<longleftrightarrow> well_scoped A xs \<and> well_scoped (fold (\<lambda>c B. living B c) xs A) ys"
  by (induction xs arbitrary: A) auto

lemma trace_run_ok:
  assumes "spans_ok A st" "well_scoped A cs"
  obtains st' where "trace_run sd cs st = Return st'" "spans_ok (fold (\<lambda>c B. living B c) cs A) st'"
  using assms
proof (induction cs arbitrary: A st thesis)
  case (Cons c cs)
  obtain st1 where st1: "trace_step sd c st = Return st1" "spans_ok (living A c) st1"
    using Cons.prems(2,3) by (auto intro: trace_step_ok [of A st c])
  obtain st' where "trace_run sd cs st1 = Return st'" "spans_ok (fold (\<lambda>c B. living B c) cs (living A c)) st'"
    using Cons.IH [where st = st1 and A = "living A c"] st1(2) Cons.prems(3) by auto
  then show ?case using Cons.prems(1) st1(1) by simp
qed simp

lemma trace_run_span:
  assumes "span_has st i m t ts" "spans_ok A st" "well_scoped A cs" "\<forall>now. CloseSpan i now \<notin> set cs"
    and "i \<in> A" "trace_run sd cs st = Return st'"
  shows "span_has st' i m t (ts @ concat (map (recorded i) cs)) \<and> i \<in> fold (\<lambda>c B. living B c) cs A"
  using assms
proof (induction cs arbitrary: st A ts)
  case (Cons c cs)
  obtain st1 where st1: "trace_step sd c st = Return st1" "spans_ok (living A c) st1"
    using Cons.prems(2,3) by (auto intro: trace_step_ok [of A st c])
  have "\<forall>m attrs now. c \<noteq> NewSpan i m attrs now" using Cons.prems(3,5) by auto
  then have "span_has st1 i m t (ts @ recorded i c)"
    using trace_step_span [OF Cons.prems(1) st1(1)] Cons.prems(4) by auto
  moreover have "i \<in> living A c" using Cons.prems(4,5) by (cases c) auto
  ultimately show ?case
    using Cons.IH [where st = st1 and A = "living A c" and ts = "ts @ recorded i c"] st1 Cons.prems by simp
qed simp

text \<open>
  C37: The log never panics, and a span is reported in full: when it ends, the line for its end gives
  its level, target and name, the time since its start, and every field that was given at its start
  or recorded for it later, in order and separated by commas, whatever else is traced in between.
\<close>

theorem span_reported_in_full:
  assumes "well_scoped {} (before @ NewSpan i m attrs t0 # during @ [CloseSpan i t1])"
    and "\<forall>now. CloseSpan i now \<notin> set during"
  shows "\<exists>st earlier. trace_run sd (before @ NewSpan i m attrs t0 # during @ [CloseSpan i t1])
      \<lparr>registry = [], logged = []\<rparr> = Return st \<and>
    logged st = earlier @ [(log_level_from (meta_level m), meta_target m,
      ''end: '' @ meta_name m @ '' (duration: '' @ sd (t1 - t0) @ '') { '' @
      join '', '' (texts attrs @ concat (map (recorded i) during)) @ '' }'')]"
proof -
  let ?A = "fold (\<lambda>c B. living B c) before {}"
  have "spans_ok {} \<lparr>registry = [], logged = []\<rparr>" by (simp add: spans_ok_def)
  then obtain st0 where st0: "trace_run sd before \<lparr>registry = [], logged = []\<rparr> = Return st0" "spans_ok ?A st0"
    using assms(1) by (auto simp: well_scoped_append intro: trace_run_ok [of "{}" _ before sd])
  have new: "legal ?A (NewSpan i m attrs t0)" "well_scoped (insert i ?A) during"
    using assms(1) by (auto simp: well_scoped_append)
  obtain st1 where st1: "trace_step sd (NewSpan i m attrs t0) st0 = Return st1" "spans_ok (insert i ?A) st1"
    using trace_step_ok [OF st0(2) new(1)] by auto
  have "map_of (registry st0) i = None" using new(1) st0(2) by (simp add: spans_ok_def)
  then have has: "span_has st1 i m t0 (texts attrs)"
    using st1(1) by (auto simp: span_has_def on_new_span_def map_of_attach map_add_def Let_def)
  obtain st2 where st2: "trace_run sd during st1 = Return st2"
    using trace_run_ok [OF st1(2) new(2)] by blast
  have "span_has st2 i m t0 (texts attrs @ concat (map (recorded i) during))"
    using trace_run_span [OF has st1(2) new(2) assms(2) _ st2] by simp
  then show ?thesis
    using st0(1) st1(1) st2
    by (auto simp: trace_run_append span_has_def on_close_def swift_log_def listed_def Let_def
        simp del: trace_step.simps(1))
qed

definition sample_meta :: metadata where
  "sample_meta = \<lparr>meta_name = ''sync'', meta_target = ''gossip_core'', meta_level = INFO\<rparr>"

theorem span_reported_in_full_witness:
  "\<exists>st earlier. trace_run show_nat
      [NewSpan 3 sample_meta [(''peer'', VStr ''b'')] 2, Event sample_meta [(''message'', VStr ''hi'')],
       Record 3 [(''n'', VU64 7)], CloseSpan 3 9] \<lparr>registry = [], logged = []\<rparr> = Return st \<and>
    logged st = earlier @ [(LInfo, ''gossip_core'',
      ''end: sync (duration: 7) { peer = '' @ [CHR 0x22] @ ''b'' @ [CHR 0x22] @ '', n = 7 }'')]"
proof -
  have "show_nat 7 = ''7''" by code_simp
  then show ?thesis
    using span_reported_in_full [of "[]" 3 sample_meta "[(''peer'', VStr ''b'')]" 2
      "[Event sample_meta [(''message'', VStr ''hi'')], Record 3 [(''n'', VU64 7)]]" 9 show_nat]
    by (simp add: sample_meta_def texts_Cons)
qed

end
