(* ===== verification/Conversation.thy ===== *)
theory Conversation
  imports Manager Tables
begin

text \<open>
  Two managers in one chat, connected to each other: what one sends, the other hears, in order. Both
  run the turns of their loops. What the document library promises about its sync messages is
  stated of the library alone; what the two managers make of it is shown here: nothing that either
  of them has is lost, once nothing is under way any more both report that they are synchronised
  and both show the same messages, and left alone they get there.
\<close>

section \<open>The promise of the library\<close>

text \<open>
  One end of an exchange of sync messages: its document and sync state, whether the library had
  nothing to send when it was last asked, and the messages on their way to it. Nothing is known to
  have been said of a document that was changed since.
\<close>

type_synonym ('d, 's, 'm) sync_end = "'d \<times> 's \<times> bool \<times> 'm list"

inductive sync_session ::
  "('d, 't, 'o, 'h, 's, 'm, 'l) automerge \<Rightarrow> ('d \<Rightarrow> 'c set) \<Rightarrow> ('d, 's, 'm) sync_end \<Rightarrow> ('d, 's, 'm) sync_end \<Rightarrow> bool"
  for A chg where
  session_start: "sync_session A chg (d1, am_sync_new A, False, []) (d2, am_sync_new A, False, [])"
| session_write: "sync_session A chg (d, s, g, q) e \<Longrightarrow> chg d \<subseteq> chg d' \<Longrightarrow> sync_session A chg (d', s, False, q) e"
| session_generate: "sync_session A chg (d, s, g, q) (d2, s2, g2, q2) \<Longrightarrow> am_generate_sync A d s = (m, s') \<Longrightarrow>
     sync_session A chg (d, s', m = None, q) (d2, s2, g2, q2 @ (case m of None \<Rightarrow> [] | Some x \<Rightarrow> [x]))"
| session_receive: "sync_session A chg (d, s, g, m # q) e \<Longrightarrow> am_receive_sync A d s m = (Ok (), d', s', l) \<Longrightarrow>
     sync_session A chg (d', s', False, q) e"
| session_swap: "sync_session A chg e1 e2 \<Longrightarrow> sync_session A chg e2 e1"

text \<open>
  The library ends an exchange only when it is complete: if it had nothing to send at both ends, and
  no message is on its way, both ends have the same changes.
\<close>

definition sync_laws :: "('d, 't, 'o, 'h, 's, 'm, 'l) automerge \<Rightarrow> ('d \<Rightarrow> 'c set) \<Rightarrow> bool" where
  "sync_laws A chg \<longleftrightarrow>
     (\<forall>d1 s1 d2 s2. sync_session A chg (d1, s1, True, []) (d2, s2, True, []) \<longrightarrow> chg d1 = chg d2)"

section \<open>Two managers\<close>

text \<open>The messages that a manager sent since the \<open>n\<close>-th, and what a message says.\<close>

definition sent_after :: "nat \<Rightarrow> ('id, 'd, 'h, 's) manager_actor \<Rightarrow> proto_message list" where
  "sent_after n a = map snd (drop n (outbox (mgr_conn a)))"

definition decode_sync ::
  "('id, 'd, 't, 'o, 'h, 's, 'm, 'l) chat_lib \<Rightarrow> proto_message \<Rightarrow> ('m option, string) result" where
  "decode_sync L msg =
     (case msg of
        Sync (Some bs) \<Rightarrow> map_ok Some (sync_message_try_into (lib_decode L) bs)
      | Sync None \<Rightarrow> Ok None)"

text \<open>
  A turn hears a message when no other branch of the select is ready. A turn goes well when the
  connection stays and nothing fails: no cancellation, no change of the connection, the channel to
  the peer is open, a message to be added is added, and the message that comes in is the next one
  that the peer sent and is received with success.
\<close>

definition hears :: "turn_env \<Rightarrow> ('id, 'd, 'h, 's) manager_actor \<Rightarrow> bool" where
  "hears env a \<longleftrightarrow>
     \<not> env_tick env \<and> \<not> sync_unseen a \<and> \<not> conn_unseen a \<and> subscribe_queue a = [] \<and> subscribe_senders a \<and>
     in_queue a = [] \<and> in_senders a \<and> env_incoming env \<noteq> None"

definition goes_well ::
  "('id::linorder, 'd, 't, 'o, 'h, 's, 'm, 'l) chat_lib \<Rightarrow> turn_env \<Rightarrow> proto_message list
     \<Rightarrow> ('id, 'd, 'h, 's) manager_actor \<Rightarrow> bool" where
  "goes_well L env inbox a \<longleftrightarrow>
     \<not> env_cancelled env \<and> env_send_open env \<and> \<not> conn_unseen a \<and>
     (case in_queue a of
        Single c t # _ \<Rightarrow>
          is_ok (fst (add_message (lib_am L) (env_sql env) (lib_show_id L) (env_now env) (env_new_msg_id env) c
            (mgr_doc a, mgr_pool a)))
      | PassAcceptedConnHandle h # _ \<Rightarrow> False
      | _ \<Rightarrow> True) \<and>
     (case env_incoming env of
        None \<Rightarrow> True
      | Some None \<Rightarrow> False
      | Some (Some msg) \<Rightarrow> inbox \<noteq> [] \<and> msg = hd inbox \<and>
          (case decode_sync L msg of
             Ok m \<Rightarrow> is_ok (fst (receive_sync_message (lib_am L) (env_sql env) (lib_show_id L) m (mgr_doc a, mgr_pool a)))
           | Err _ \<Rightarrow> False))"

text \<open>
  One side: a turn of its loop that goes well, or the application queues a request. The number says
  how many messages of the peer were heard.
\<close>

inductive side_move ::
  "('id::linorder, 'd, 't, 'o, 'h, 's, 'm, 'l) chat_lib \<Rightarrow> proto_message list \<Rightarrow> ('id, 'd, 'h, 's) manager_actor
     \<Rightarrow> nat \<Rightarrow> ('id, 'd, 'h, 's) manager_actor \<Rightarrow> bool" for L where
  side_turn: "manager_turn L env a = (MgrRunning, a') \<Longrightarrow> goes_well L env inbox a \<Longrightarrow>
     side_move L inbox a (if hears env a then 1 else 0) a'"
| side_request: "side_move L inbox a 0 (a\<lparr>in_queue := in_queue a @ [m]\<rparr>)"
| side_subscribe: "side_move L inbox a 0 (a\<lparr>subscribe_queue := subscribe_queue a @ [sub]\<rparr>)"

text \<open>The two managers and how many messages of the other each has heard.\<close>

record ('id, 'd, 'h, 's) conversation =
  left :: "('id, 'd, 'h, 's) manager_actor"
  right :: "('id, 'd, 'h, 's) manager_actor"
  left_heard :: nat
  right_heard :: nat

text \<open>Both have just handled the news that they are connected, whatever they did before.\<close>

definition connected :: "('id, 'd, 'h, 's) manager_actor \<Rightarrow> bool" where
  "connected a \<longleftrightarrow> (\<exists>h. state (mgr_conn a) = IConnected h \<and>
     watch_value (state_notifier (mgr_conn a)) = Connected (handle_id h))"

definition conv_init :: "('id::linorder, 'd, 't, 'o, 'h, 's, 'm, 'l) chat_lib \<Rightarrow> ('id, 'd, 'h, 's) conversation \<Rightarrow> bool" where
  "conv_init L c \<longleftrightarrow>
     (\<exists>a b env env'. connected a \<and> connected b \<and> env_send_open env \<and> env_send_open env' \<and>
        c = \<lparr>left = handle_conn_changed L env a, right = handle_conn_changed L env' b,
             left_heard = length (outbox (mgr_conn b)), right_heard = length (outbox (mgr_conn a))\<rparr>)"

abbreviation to_left :: "('id, 'd, 'h, 's) conversation \<Rightarrow> proto_message list" where
  "to_left c \<equiv> sent_after (left_heard c) (right c)"

abbreviation to_right :: "('id, 'd, 'h, 's) conversation \<Rightarrow> proto_message list" where
  "to_right c \<equiv> sent_after (right_heard c) (left c)"

inductive conv_move ::
  "('id::linorder, 'd, 't, 'o, 'h, 's, 'm, 'l) chat_lib \<Rightarrow> ('id, 'd, 'h, 's) conversation
     \<Rightarrow> ('id, 'd, 'h, 's) conversation \<Rightarrow> bool" for L where
  conv_left: "side_move L (to_left c) (left c) k a \<Longrightarrow>
     conv_move L c (c\<lparr>left := a, left_heard := left_heard c + k\<rparr>)"
| conv_right: "side_move L (to_right c) (right c) k b \<Longrightarrow>
     conv_move L c (c\<lparr>right := b, right_heard := right_heard c + k\<rparr>)"

definition nothing_under_way :: "('id, 'd, 'h, 's) conversation \<Rightarrow> bool" where
  "nothing_under_way c \<longleftrightarrow> to_left c = [] \<and> to_right c = []"

definition synced :: "('id, 'd, 'h, 's) manager_actor \<Rightarrow> bool" where
  "synced a \<longleftrightarrow> watch_value (sync_status_tx (mgr_doc a))"

section \<open>What a turn does\<close>

definition wire :: "('id, 'd, 't, 'o, 'h, 's, 'm, 'l) chat_lib \<Rightarrow> 'm option \<Rightarrow> proto_message" where
  "wire L m = Sync (map_option (sync_message_from (lib_encode L)) m)"

lemma decode_wire:
  assumes "\<And>m. lib_decode L (lib_encode L m) = Ok m"
  shows "decode_sync L (wire L m) = Ok m"
  using assms by (cases m) (simp_all add: decode_sync_def wire_def sync_message_roundtrip)

text \<open>
  The manager after the library was asked on the document \<open>d\<close> and the sync state \<open>s\<close>: what it had to
  say is published, and sent unless the manager keeps silent.
\<close>

definition asked ::
  "('id, 'd, 't, 'o, 'h, 's, 'm, 'l) chat_lib \<Rightarrow> ('id, 'd, 'h, 's) manager_actor \<Rightarrow> 'd \<Rightarrow> 's \<Rightarrow> bool
     \<Rightarrow> 'm option \<Rightarrow> ('id, 'd, 'h, 's) manager_actor \<Rightarrow> bool" where
  "asked L a d s keeps_silent m a' \<longleftrightarrow>
     am_generate_sync (lib_am L) d s = (m, sync_state (mgr_doc a')) \<and> doc (mgr_doc a') = d \<and>
     (synced a' \<longleftrightarrow> m = None) \<and>
     (\<exists>ch. mgr_conn a' = (mgr_conn a)\<lparr>outbox := outbox (mgr_conn a) @ (if keeps_silent then [] else [(ch, wire L m)])\<rparr>)"

lemma outgoing_sends:
  assumes "connected a" "env_send_open env"
  shows "\<exists>ch. handle_outgoing_sync_message L env m a =
    a\<lparr>mgr_conn := (mgr_conn a)\<lparr>outbox := outbox (mgr_conn a) @ [(ch, wire L m)]\<rparr>\<rparr>"
  using assms by (auto simp: connected_def handle_outgoing_sync_message_def send_message_def send_target_def
      send_finish_def wire_def)

lemma connected_cong: "mgr_conn a = mgr_conn b \<Longrightarrow> connected a \<longleftrightarrow> connected b"
  by (simp add: connected_def)

lemma asked_connected: "asked L a d s q m a' \<Longrightarrow> connected a' \<longleftrightarrow> connected a"
  by (auto simp: asked_def connected_def)

lemma asked_cong: "mgr_conn a = mgr_conn b \<Longrightarrow> asked L a d s q m a' \<longleftrightarrow> asked L b d s q m a'"
  by (simp add: asked_def)

lemma generate_parts:
  "generate_sync_message A r = (m, r') \<longleftrightarrow>
     (\<exists>s. am_generate_sync A (doc r) (sync_state r) = (m, s) \<and>
        r' = r\<lparr>sync_state := s, sync_status_tx := send_if_modified (m = None) (sync_status_tx r)\<rparr>)"
  by (auto simp: generate_sync_message_def split: prod.splits)

lemma sync_now_asks:
  assumes "connected a" "env_send_open env"
  shows "\<exists>m. asked L a (doc (mgr_doc a)) (sync_state (mgr_doc a)) False m (sync_now L env a)"
proof -
  obtain m r where g: "generate_sync_message (lib_am L) (mgr_doc a) = (m, r)" by fastforce
  obtain ch where "sync_now L env a =
      a\<lparr>mgr_doc := r, mgr_conn := (mgr_conn a)\<lparr>outbox := outbox (mgr_conn a) @ [(ch, wire L m)]\<rparr>\<rparr>"
    using outgoing_sends [of "a\<lparr>mgr_doc := r\<rparr>" env L m] assms
    by (auto simp: sync_now_def mgr_generate_sync_def g connected_def)
  then show ?thesis
    using g by (intro exI [of _ m]) (auto simp: asked_def synced_def generate_parts)
qed

lemma start_asks:
  assumes "connected a" "env_send_open env"
  shows "\<exists>m. asked L a (doc (mgr_doc a)) (am_sync_new (lib_am L)) False m (handle_conn_changed L env a)"
proof -
  obtain i where h: "watch_value (state_notifier (mgr_conn a)) = Connected i"
    using assms(1) unfolding connected_def by blast
  define b where "b = announce_state L (Connected i) (a\<lparr>conn_seen := watch_version (state_notifier (mgr_conn a))\<rparr>)"
  define b1 where "b1 = b\<lparr>mgr_doc := reset_sync_state (lib_am L) (mgr_doc b)\<rparr>"
  have b: "mgr_doc b = mgr_doc a" "mgr_conn b = mgr_conn a"
    by (auto simp: b_def announce_state_def call_ui_def split: option.splits)
  then have b1: "doc (mgr_doc b1) = doc (mgr_doc a)" "sync_state (mgr_doc b1) = am_sync_new (lib_am L)" "mgr_conn b1 = mgr_conn a"
    by (simp_all add: b1_def reset_sync_state_def)
  have "handle_conn_changed L env a = sync_now L env b1"
    by (simp add: handle_conn_changed_def handle_connection_state_change_def h b_def b1_def Let_def)
  then show ?thesis
    using sync_now_asks [of b1 env L] connected_cong [OF b1(3)] asked_cong [OF b1(3), of L] b1(1,2) assms by simp
qed

lemma persist_chat_parts:
  "persist_chat A env show_id (r, p) = (y, (r', p')) \<Longrightarrow>
     doc r' = doc r \<and> sync_state r' = sync_state r \<and> repo_chat_id r' = repo_chat_id r"
  by (auto simp: persist_chat_def Let_def split: if_splits prod.splits result.splits)

lemma add_message_asks:
  assumes "storage_laws A chg blob base" "add_message A env show_id now i c (r, p) = (Ok (msg, m), (r', p'))"
  shows "chg (doc r) \<subseteq> chg (doc r') \<and> am_generate_sync A (doc r') (sync_state r) = (m, sync_state r') \<and>
    (watch_value (sync_status_tx r') \<longleftrightarrow> m = None)"
proof -
  let ?me = "show_id (my_id (repo_chat_id r))"
  let ?msg = "\<lparr>msg_id = i, sender_node_id = ?me, content = c, created_at = now, updated_at = now\<rparr>"
  obtain x d where t: "transact A (io_bind (ensure_peer_list A ?me) (\<lambda>l. append_message A l ?msg)) (doc r) = (x, d)"
    by fastforce
  have d: "chg (doc r) \<subseteq> chg d" by (rule transact_grows [OF assms(1) keeps_store_message [OF assms(1)] t])
  obtain y r1 p1 where pc: "persist_chat A env show_id (r\<lparr>doc := d\<rparr>, p) = (y, (r1, p1))" by (metis prod.exhaust)
  obtain m1 r2 where g: "generate_sync_message A r1 = (m1, r2)" by fastforce
  have "x = Ok () \<and> y = Ok () \<and> m1 = m \<and> r2 = r'"
    using assms(2) t pc g by (cases x; cases y) (auto simp: add_message_def Let_def)
  then show ?thesis
    using d persist_chat_parts [OF pc] g by (auto simp: generate_parts)
qed

text \<open>Receiving hands the message to the library, if there is one, and asks it for an answer.\<close>

definition taken :: "('d, 't, 'o, 'h, 's, 'm, 'l) automerge \<Rightarrow> 'd \<Rightarrow> 's \<Rightarrow> 'm option \<Rightarrow> 'd \<Rightarrow> 's \<Rightarrow> bool" where
  "taken A d s m d' s' \<longleftrightarrow>
     (case m of None \<Rightarrow> d' = d \<and> s' = s | Some x \<Rightarrow> \<exists>l. am_receive_sync A d s x = (Ok (), d', s', l))"

lemma receive_asks:
  assumes "receive_sync_message A env show_id im (r, p) = (Ok (msgs, answer), (r', p'))"
  shows "\<exists>s m. taken A (doc r) (sync_state r) im (doc r') s \<and> am_generate_sync A (doc r') s = (m, sync_state r') \<and>
    (watch_value (sync_status_tx r') \<longleftrightarrow> m = None) \<and> answer = (if im = None \<and> m = None then None else Some m)"
proof -
  obtain r1 p1 where r1: "receive_changes A env show_id im (r, p) = (Ok msgs, (r1, p1))"
    and g: "(case generate_sync_message A r1 of (out, r2) \<Rightarrow>
      (Ok (msgs, if im = None \<and> out = None then None else Some out), (r2, p1))) = (Ok (msgs, answer), (r', p'))"
    using assms unfolding receive_sync_message_def io_bind_Ok_iff by (fastforce split: prod.splits)
  have "taken A (doc r) (sync_state r) im (doc r1) (sync_state r1)"
  proof (cases im)
    case None
    then show ?thesis using r1 by (simp add: taken_def receive_changes_def)
  next
    case (Some x)
    then show ?thesis
      using r1 by (auto simp: taken_def receive_changes_def io_bind_Ok_iff split: result.splits prod.splits
          dest!: persist_chat_parts)
  qed
  moreover obtain m r2 where m: "generate_sync_message A r1 = (m, r2)" by fastforce
  moreover have "r2 = r'" "answer = (if im = None \<and> m = None then None else Some m)" using g m by auto
  ultimately show ?thesis
    by (intro exI [of _ "sync_state r1"] exI [of _ m]) (auto simp: generate_parts)
qed

lemma speaking_asks:
  assumes "storage_laws (lib_am L) chg blob base" "connected a" "env_send_open env"
    and "handle_outgoing_message L env (Some (Single c t)) a = (st, a')"
    and "is_ok (fst (add_message (lib_am L) (env_sql env) (lib_show_id L) (env_now env) (env_new_msg_id env) c
       (mgr_doc a, mgr_pool a)))"
  shows "\<exists>d m. chg (doc (mgr_doc a)) \<subseteq> chg d \<and> asked L a d (sync_state (mgr_doc a)) False m a'"
proof -
  obtain msg m r p where add: "add_message (lib_am L) (env_sql env) (lib_show_id L) (env_now env) (env_new_msg_id env) c
      (mgr_doc a, mgr_pool a) = (Ok (msg, m), (r, p))"
    using assms(5) by (metis is_ok_iff prod.exhaust_sel)
  note P = add_message_asks [OF assms(1) add]
  obtain ch where sent: "handle_outgoing_sync_message L env m (a\<lparr>mgr_doc := r, mgr_pool := p\<rparr>) =
      a\<lparr>mgr_doc := r, mgr_pool := p, mgr_conn := (mgr_conn a)\<lparr>outbox := outbox (mgr_conn a) @ [(ch, wire L m)]\<rparr>\<rparr>"
    using outgoing_sends [of "a\<lparr>mgr_doc := r, mgr_pool := p\<rparr>" env L m] assms(2,3) by (auto simp: connected_def)
  have "mgr_doc a' = r \<and> mgr_conn a' = (mgr_conn a)\<lparr>outbox := outbox (mgr_conn a) @ [(ch, wire L m)]\<rparr>"
    using assms(4) by (auto simp: handle_outgoing_message_def with_repo_def add Let_def sent split: if_splits)
  then show ?thesis
    using P by (intro exI [of _ "doc r"] exI [of _ m]) (auto simp: asked_def synced_def)
qed

lemma hearing_asks:
  assumes "connected a" "env_send_open env" "decode_sync L msg = Ok im"
    and "handle_incomming_message L env msg a = a'"
    and "is_ok (fst (receive_sync_message (lib_am L) (env_sql env) (lib_show_id L) im (mgr_doc a, mgr_pool a)))"
  shows "\<exists>d s m. taken (lib_am L) (doc (mgr_doc a)) (sync_state (mgr_doc a)) im d s \<and>
    asked L a d s (im = None \<and> m = None) m a'"
proof -
  obtain msgs answer r p where rcv: "receive_sync_message (lib_am L) (env_sql env) (lib_show_id L) im
      (mgr_doc a, mgr_pool a) = (Ok (msgs, answer), (r, p))"
    using assms(5) by (metis is_ok_iff prod.exhaust_sel)
  obtain s m where P: "taken (lib_am L) (doc (mgr_doc a)) (sync_state (mgr_doc a)) im (doc r) s"
      "am_generate_sync (lib_am L) (doc r) s = (m, sync_state r)" "watch_value (sync_status_tx r) \<longleftrightarrow> m = None"
      "answer = (if im = None \<and> m = None then None else Some m)"
    using receive_asks [OF rcv] by blast
  obtain x where msg: "msg = Sync x" by (cases msg)
  have dec: "(case x of Some bs \<Rightarrow> map_ok Some (sync_message_try_into (lib_decode L) bs) | None \<Rightarrow> Ok None) = Ok im"
    using assms(3) by (simp add: decode_sync_def msg split: option.splits)
  define a1 where "a1 = deliver_messages msgs (a\<lparr>mgr_doc := r, mgr_pool := p, reset_doc_state := False\<rparr>)"
  have a1: "mgr_doc a1 = r" "mgr_conn a1 = mgr_conn a"
    by (simp_all add: a1_def deliver_messages_def call_ui_def split: option.splits)
  have "a' = (case answer of Some m \<Rightarrow> handle_outgoing_sync_message L env m a1 | None \<Rightarrow> a1)"
    using assms(4) dec by (cases answer) (auto simp: msg with_repo_def rcv a1_def Let_def)
  then have "\<exists>ch. mgr_doc a' = r \<and> mgr_conn a' = (mgr_conn a)\<lparr>outbox := outbox (mgr_conn a) @
      (if im = None \<and> m = None then [] else [(ch, wire L m)])\<rparr>"
    using P(4) a1 outgoing_sends [of a1 env L m] connected_cong [OF a1(2)] assms(1,2) by (auto split: if_splits)
  then show ?thesis
    using P by (intro exI [of _ "doc r"] exI [of _ s] exI [of _ m]) (auto simp: asked_def synced_def)
qed

text \<open>
  A turn that goes well adds a message, hears one, asks the library at the tick of the clock, or
  leaves the document and the connection alone.
\<close>

definition same_core :: "('id, 'd, 'h, 's) manager_actor \<Rightarrow> ('id, 'd, 'h, 's) manager_actor \<Rightarrow> bool" where
  "same_core a b \<longleftrightarrow> mgr_doc b = mgr_doc a \<and> mgr_pool b = mgr_pool a \<and> mgr_conn b = mgr_conn a \<and>
     conn_seen b = conn_seen a \<and> in_senders b = in_senders a \<and> subscribe_senders b = subscribe_senders a \<and>
     sync_seen b = sync_seen a"

lemma turn_cases:
  assumes "connected a" "goes_well L env inbox a" "manager_turn L env a = (MgrRunning, a')"
  obtains (ticks) "\<not> hears env a" "env_tick env" "a' = sync_now L env a"
  | (speaks) c t ms where "\<not> hears env a" "in_queue a = Single c t # ms"
      "handle_outgoing_message L env (Some (Single c t)) (a\<lparr>in_queue := ms\<rparr>) = (MgrRunning, a')"
      "is_ok (fst (add_message (lib_am L) (env_sql env) (lib_show_id L) (env_now env) (env_new_msg_id env) c
         (mgr_doc a, mgr_pool a)))"
  | (listens) msg rest m where "hears env a" "inbox = msg # rest" "decode_sync L msg = Ok m"
      "is_ok (fst (receive_sync_message (lib_am L) (env_sql env) (lib_show_id L) m (mgr_doc a, mgr_pool a)))"
      "a' = handle_incomming_message L env msg a"
  | (status) "\<not> hears env a" "sync_unseen a" "a' = handle_sync_status a"
  | (subscribes) m where "\<not> hears env a" "same_core a a'" "in_queue a' = in_queue a" "subscribe_queue a = m # subscribe_queue a'"
  | (reads) t ms where "\<not> hears env a" "same_core a a'" "in_queue a = All t # ms"
  | (waits) "\<not> hears env a" "a' = a" "work a = 0" "env_incoming env = None"
proof -
  obtain h where h: "state (mgr_conn a) = IConnected h" "watch_value (state_notifier (mgr_conn a)) = Connected (handle_id h)"
    using assms(1) unfolding connected_def by blast
  note w = assms(2) [unfolded goes_well_def]
  note seen = sync_unseen_def conn_unseen_def
  consider "env_tick env" | "\<not> env_tick env" "sync_unseen a"
    | "\<not> env_tick env" "\<not> sync_unseen a" "subscribe_queue a \<noteq> [] \<or> \<not> subscribe_senders a"
    | "\<not> env_tick env" "\<not> sync_unseen a" "subscribe_queue a = []" "subscribe_senders a" "in_queue a \<noteq> [] \<or> \<not> in_senders a"
    | "\<not> env_tick env" "\<not> sync_unseen a" "subscribe_queue a = []" "subscribe_senders a" "in_queue a = []" "in_senders a"
    by blast
  then show thesis
  proof cases
    case 1
    then show thesis
      using assms(3) w h(2) by (intro ticks) (simp_all add: manager_turn_def handle_tick_def hears_def)
  next
    case 2
    then show thesis
      using assms(3) w by (intro status) (simp_all add: manager_turn_def hears_def seen)
  next
    case 3
    obtain m ms where q: "subscribe_queue a = m # ms"
      using assms(3) w 3 by (cases "subscribe_queue a") (auto simp: manager_turn_def seen handle_subscription_def)
    then have "a' = snd (handle_subscription L env (Some m) (a\<lparr>subscribe_queue := ms\<rparr>))"
      using assms(3) w 3 by (auto simp: manager_turn_def seen split: prod.splits)
    then show thesis
      using 3 q by (intro subscribes [of m]) (auto simp: hears_def handle_subscription_def call_ui_def Let_def same_core_def)
  next
    case 4
    have turn: "(case in_queue a of m # ms \<Rightarrow> handle_outgoing_message L env (Some m) (a\<lparr>in_queue := ms\<rparr>)
        | [] \<Rightarrow> handle_outgoing_message L env None a) = (MgrRunning, a')"
      using assms(3) w 4 by (auto simp: manager_turn_def seen)
    then obtain m ms where q: "in_queue a = m # ms" "handle_outgoing_message L env (Some m) (a\<lparr>in_queue := ms\<rparr>) = (MgrRunning, a')"
      by (cases "in_queue a") (auto simp: handle_outgoing_message_def)
    have nh: "\<not> hears env a" using 4 by (auto simp: hears_def)
    show thesis
    proof (cases m)
      case (Single c t)
      then show thesis using speaks [OF nh _ _, of c t ms] q w by simp
    next
      case (All t)
      then show thesis
        using q nh by (intro reads [of t ms]) (auto simp: handle_outgoing_message_def same_core_def
            split: may_panic.splits if_splits)
    next
      case (PassAcceptedConnHandle hh)
      then show thesis using q(1) w by simp
    qed
  next
    case 5
    show thesis
    proof (cases "env_incoming env")
      case None
      then show thesis
        using assms(3) w 5 by (intro waits) (auto simp: manager_turn_def work_def seen hears_def)
    next
      case (Some inc)
      then obtain msg m where inc: "inc = Some msg" "inbox \<noteq> []" "msg = hd inbox" "decode_sync L msg = Ok m"
          "is_ok (fst (receive_sync_message (lib_am L) (env_sql env) (lib_show_id L) m (mgr_doc a, mgr_pool a)))"
        using w by (auto split: option.splits result.splits)
      have "a' = handle_incomming_message L env msg a"
        using assms(3) w 5 Some inc(1) h by (auto simp: manager_turn_def seen handle_receive_def receive_def
            receive_target_def receive_finish_def)
      moreover have "hears env a" using 5 w Some by (simp add: hears_def)
      ultimately show thesis
        using listens [of msg "tl inbox" m] inc by simp
    qed
  qed
qed

lemma status_core: "mgr_doc (handle_sync_status a) = mgr_doc a" "mgr_pool (handle_sync_status a) = mgr_pool a"
  "mgr_conn (handle_sync_status a) = mgr_conn a"
  by (simp_all add: handle_sync_status_def call_ui_def Let_def split: option.splits)

section \<open>The exchange\<close>

definition somes :: "'a option list \<Rightarrow> 'a list" where
  "somes q = concat (map (\<lambda>m. case m of None \<Rightarrow> [] | Some x \<Rightarrow> [x]) q)"

lemma somes_simps [simp]: "somes [] = []" "somes (None # q) = somes q" "somes (Some x # q) = x # somes q"
  "somes (q @ q') = somes q @ somes q'"
  by (simp_all add: somes_def)

definition sync_view :: "('id, 'd, 'h, 's) manager_actor \<Rightarrow> 'm option list \<Rightarrow> ('d, 's, 'm) sync_end" where
  "sync_view a q = (doc (mgr_doc a), sync_state (mgr_doc a), synced a, somes q)"

text \<open>
  While the manager \<open>a\<close> does not report that it is synchronised, something is under way: a sync
  message from it, or anything to it.
\<close>

definition owed :: "('id, 'd, 'h, 's) manager_actor \<Rightarrow> 'm option list \<Rightarrow> 'm option list \<Rightarrow> bool" where
  "owed a to_a to_b \<longleftrightarrow> synced a \<or> somes to_b \<noteq> [] \<or> to_a \<noteq> []"

definition pair_inv ::
  "('id::linorder, 'd, 't, 'o, 'h, 's, 'm, 'l) chat_lib \<Rightarrow> ('d \<Rightarrow> 'c set) \<Rightarrow> ('id, 'd, 'h, 's) manager_actor \<Rightarrow> nat
     \<Rightarrow> 'm option list \<Rightarrow> ('id, 'd, 'h, 's) manager_actor \<Rightarrow> nat \<Rightarrow> 'm option list \<Rightarrow> bool" where
  "pair_inv L chg a na qa b nb qb \<longleftrightarrow>
     sent_after na b = map (wire L) qa \<and> sent_after nb a = map (wire L) qb \<and>
     na \<le> length (outbox (mgr_conn b)) \<and> nb \<le> length (outbox (mgr_conn a)) \<and> connected a \<and> connected b \<and>
     sync_session (lib_am L) chg (sync_view a qa) (sync_view b qb) \<and> owed a qa qb \<and> owed b qb qa"

lemma pair_inv_swap: "pair_inv L chg a na qa b nb qb \<Longrightarrow> pair_inv L chg b nb qb a na qa"
  unfolding pair_inv_def by (blast intro: session_swap)

lemma pair_inv_cong:
  assumes "mgr_doc a = mgr_doc a'" "mgr_conn a = mgr_conn a'"
  shows "pair_inv L chg a na qa b nb qb \<longleftrightarrow> pair_inv L chg a' na qa b nb qb"
  using assms by (simp add: pair_inv_def sent_after_def connected_def sync_view_def owed_def synced_def)

text \<open>Asking the library keeps the exchange going, when silence is kept only on nothing for nothing.\<close>

lemma asked_inv:
  assumes "sent_after na b = map (wire L) qa" "sent_after nb a = map (wire L) qb"
    and "na \<le> length (outbox (mgr_conn b))" "nb \<le> length (outbox (mgr_conn a))" "connected a" "connected b"
    and "sync_session (lib_am L) chg (d, s, g, somes qa) (sync_view b qb)"
    and "asked L a d s quietly m a'" "quietly \<Longrightarrow> m = None \<and> owed b qb qa"
  shows "pair_inv L chg a' na qa b nb (qb @ (if quietly then [] else [m]))"
proof -
  let ?qb = "qb @ (if quietly then [] else [m])"
  obtain ch where ask: "am_generate_sync (lib_am L) d s = (m, sync_state (mgr_doc a'))" "doc (mgr_doc a') = d"
      "synced a' \<longleftrightarrow> m = None"
      "mgr_conn a' = (mgr_conn a)\<lparr>outbox := outbox (mgr_conn a) @ (if quietly then [] else [(ch, wire L m)])\<rparr>"
    using assms(8) unfolding asked_def by blast
  have "sent_after nb a' = map (wire L) ?qb"
    using assms(2,4) ask(4) by (auto simp: sent_after_def)
  moreover have "sync_session (lib_am L) chg (sync_view a' qa) (sync_view b ?qb)"
    using session_generate [OF assms(7) [unfolded sync_view_def] ask(1)] ask(2,3) assms(9)
    by (cases m) (auto simp: sync_view_def)
  moreover have "owed a' qa ?qb" "owed b ?qb qa"
    using ask(3) assms(9) by (auto simp: owed_def)
  ultimately show ?thesis
    using assms(1,3-6) ask(4) asked_connected [OF assms(8)] unfolding pair_inv_def by auto
qed

lemma sent_after_Cons:
  assumes "sent_after n a = msg # msgs"
  shows "sent_after (Suc n) a = msgs \<and> Suc n \<le> length (outbox (mgr_conn a))"
proof -
  have n: "n < length (outbox (mgr_conn a))"
    using assms by (cases "n < length (outbox (mgr_conn a))") (auto simp: sent_after_def)
  then show ?thesis
    using assms Cons_nth_drop_Suc [OF n, symmetric] by (simp add: sent_after_def)
qed

text \<open>Hearing: the next message is taken, the library is asked, and what it says is the answer.\<close>

lemma hearing_inv:
  assumes codec: "\<And>m. lib_decode L (lib_encode L m) = Ok m" and inv: "pair_inv L chg a na qa b nb qb"
    and well: "env_send_open env" "sent_after na b = msg # rest" "decode_sync L msg = Ok m"
      "is_ok (fst (receive_sync_message (lib_am L) (env_sql env) (lib_show_id L) m (mgr_doc a, mgr_pool a)))"
    and a': "a' = handle_incomming_message L env msg a"
  obtains qa' d s out where "qa = m # qa'" "taken (lib_am L) (doc (mgr_doc a)) (sync_state (mgr_doc a)) m d s"
    "asked L a d s (m = None \<and> out = None) out a'"
    "sync_session (lib_am L) chg (d, s, m = None \<and> synced a, somes qa') (sync_view b qb)"
    "pair_inv L chg a' (Suc na) qa' b nb (qb @ (if m = None \<and> out = None then [] else [out]))"
proof -
  note I = inv [unfolded pair_inv_def]
  obtain qa' where qa: "qa = m # qa'" "rest = map (wire L) qa'"
    using I well(2,3) decode_wire [OF codec] by (cases qa) auto
  obtain d s out where d: "taken (lib_am L) (doc (mgr_doc a)) (sync_state (mgr_doc a)) m d s"
      "asked L a d s (m = None \<and> out = None) out a'"
    using hearing_asks [OF _ well(1,3) a' [symmetric] well(4)] I by blast
  have s: "sync_session (lib_am L) chg (d, s, m = None \<and> synced a, somes qa') (sync_view b qb)"
    using I d(1) by (cases m) (auto simp: qa(1) sync_view_def taken_def dest: session_receive)
  have rest: "sent_after (Suc na) b = map (wire L) qa'" "Suc na \<le> length (outbox (mgr_conn b))"
    using sent_after_Cons [OF well(2)] qa(2) by auto
  have "owed b qb qa'" if "m = None" using I that by (simp add: owed_def qa(1))
  then have "pair_inv L chg a' (Suc na) qa' b nb (qb @ (if m = None \<and> out = None then [] else [out]))"
    using asked_inv [OF rest(1) _ rest(2) _ _ _ s d(2), of nb] I by blast
  then show thesis by (rule that [OF qa(1) d s])
qed

lemma speaking_inv:
  assumes "storage_laws (lib_am L) chg blob base" and inv: "pair_inv L chg a na qa b nb qb"
    and "chg (doc (mgr_doc a)) \<subseteq> chg d" "asked L a d (sync_state (mgr_doc a)) False m a'"
  shows "pair_inv L chg a' na qa b nb (qb @ [m])"
proof -
  note I = inv [unfolded pair_inv_def]
  have "sync_session (lib_am L) chg (d, sync_state (mgr_doc a), False, somes qa) (sync_view b qb)"
    by (rule session_write [where d = "doc (mgr_doc a)" and g = "synced a", OF _ assms(3)])
      (use I in \<open>simp add: sync_view_def [of a]\<close>)
  then show ?thesis
    using asked_inv [of na b L qa nb a qb chg d _ _ False m a'] I assms(4) by simp
qed

lemma side_move_inv:
  assumes L: "storage_laws (lib_am L) chg blob base" and codec: "\<And>m. lib_decode L (lib_encode L m) = Ok m"
    and inv: "pair_inv L chg a na qa b nb qb" and move: "side_move L (sent_after na b) a k a'"
  shows "\<exists>qa' qb'. pair_inv L chg a' (na + k) qa' b nb qb' \<and> chg (doc (mgr_doc a)) \<subseteq> chg (doc (mgr_doc a'))"
  using move
proof (cases rule: side_move.cases)
  case (side_turn env)
  have con: "connected a" using inv by (simp add: pair_inv_def)
  have send: "env_send_open env" using side_turn(3) by (simp add: goes_well_def)
  from con side_turn(3,2) show ?thesis
  proof (cases rule: turn_cases)
    case ticks
    then obtain m where "asked L a (doc (mgr_doc a)) (sync_state (mgr_doc a)) False m a'"
      using sync_now_asks [OF con send] by blast
    with speaking_inv [OF L inv subset_refl this] ticks(1) side_turn(1) show ?thesis
      by (auto simp: asked_def)
  next
    case (speaks c t ms)
    have "connected (a\<lparr>in_queue := ms\<rparr>)" using con by (simp add: connected_def)
    from speaking_asks [OF L this send speaks(3)] speaks(4)
    obtain d m where d: "chg (doc (mgr_doc a)) \<subseteq> chg d" "asked L a d (sync_state (mgr_doc a)) False m a'"
      by (auto simp: asked_def)
    with speaking_inv [OF L inv d] speaks(1) side_turn(1) show ?thesis
      by (auto simp: asked_def)
  next
    case (listens msg rest m)
    from hearing_inv [OF codec inv send listens(2-5)]
    obtain qa' d s qb' where "taken (lib_am L) (doc (mgr_doc a)) (sync_state (mgr_doc a)) m d s"
      "doc (mgr_doc a') = d" "pair_inv L chg a' (Suc na) qa' b nb qb'"
      unfolding asked_def by metis
    moreover have "chg (doc (mgr_doc a)) \<subseteq> chg d"
      using calculation(1) storage_receive [OF L] by (cases m) (force simp: taken_def)+
    ultimately show ?thesis using listens(1) side_turn(1) by auto
  next
    case status
    then show ?thesis
      using inv side_turn(1) pair_inv_cong [of a a' L chg na qa b nb qb] by (auto simp: status_core)
  next
    case (subscribes m)
    then show ?thesis
      using inv side_turn(1) pair_inv_cong [of a a' L chg na qa b nb qb] by (auto simp: same_core_def)
  next
    case (reads t ms)
    then show ?thesis
      using inv side_turn(1) pair_inv_cong [of a a' L chg na qa b nb qb] by (auto simp: same_core_def)
  next
    case waits
    then show ?thesis using inv side_turn(1) by auto
  qed
next
  case (side_request m)
  then show ?thesis using inv pair_inv_cong [of a a' L chg na qa b nb qb] by auto
next
  case (side_subscribe sub)
  then show ?thesis using inv pair_inv_cong [of a a' L chg na qa b nb qb] by auto
qed

definition conv_inv ::
  "('id::linorder, 'd, 't, 'o, 'h, 's, 'm, 'l) chat_lib \<Rightarrow> ('d \<Rightarrow> 'c set) \<Rightarrow> ('id, 'd, 'h, 's) conversation \<Rightarrow> bool" where
  "conv_inv L chg c \<longleftrightarrow> (\<exists>qa qb. pair_inv L chg (left c) (left_heard c) qa (right c) (right_heard c) qb)"

lemma conv_init_inv:
  assumes "conv_init L c"
  shows "conv_inv L chg c"
proof -
  obtain a b env env' where c: "connected a" "connected b" "env_send_open env" "env_send_open env'"
      "c = \<lparr>left = handle_conn_changed L env a, right = handle_conn_changed L env' b,
            left_heard = length (outbox (mgr_conn b)), right_heard = length (outbox (mgr_conn a))\<rparr>"
    using assms unfolding conv_init_def by blast
  obtain ma where ma: "asked L a (doc (mgr_doc a)) (am_sync_new (lib_am L)) False ma (left c)"
    using start_asks [OF c(1,3), of L] c(5) by auto
  obtain mb where mb: "asked L b (doc (mgr_doc b)) (am_sync_new (lib_am L)) False mb (right c)"
    using start_asks [OF c(2,4), of L] c(5) by auto
  let ?b = "b\<lparr>mgr_doc := (mgr_doc b)\<lparr>sync_state := am_sync_new (lib_am L), sync_status_tx := watch_channel False\<rparr>\<rparr>"
  have "pair_inv L chg (left c) (length (outbox (mgr_conn b))) [] ?b (length (outbox (mgr_conn a))) ([] @ [ma])"
    using asked_inv [where qa = "[]" and qb = "[]" and g = False and b = ?b and quietly = False, OF _ _ _ _ _ _ _ ma,
        of "length (outbox (mgr_conn b))" "length (outbox (mgr_conn a))" chg]
    using c(1,2) by (simp add: sent_after_def sync_view_def synced_def connected_def session_start)
  then have left: "sent_after (length (outbox (mgr_conn a))) (left c) = map (wire L) [ma]" "connected (left c)"
      "length (outbox (mgr_conn a)) \<le> length (outbox (mgr_conn (left c)))"
      "sync_session (lib_am L) chg (sync_view (left c) []) (doc (mgr_doc b), am_sync_new (lib_am L), False, somes [ma])"
    by (auto simp: pair_inv_def sent_after_def sync_view_def synced_def)
  have "pair_inv L chg (right c) (length (outbox (mgr_conn a))) [ma] (left c) (length (outbox (mgr_conn b))) ([] @ [mb])"
    using asked_inv [where quietly = False, OF left(1) _ left(3) _ c(2) left(2) session_swap [OF left(4)] mb,
        of "length (outbox (mgr_conn b))"] by (simp add: sent_after_def)
  then show ?thesis using pair_inv_swap c(5) by (fastforce simp: conv_inv_def)
qed

lemma conv_move_step:
  assumes "storage_laws (lib_am L) chg blob base" "\<forall>m. lib_decode L (lib_encode L m) = Ok m"
    and "conv_move L c c'" "conv_inv L chg c"
  shows "conv_inv L chg c' \<and> chg (doc (mgr_doc (left c))) \<subseteq> chg (doc (mgr_doc (left c'))) \<and>
    chg (doc (mgr_doc (right c))) \<subseteq> chg (doc (mgr_doc (right c')))"
proof -
  obtain qa qb where inv: "pair_inv L chg (left c) (left_heard c) qa (right c) (right_heard c) qb"
    using assms(4) unfolding conv_inv_def by blast
  from assms(3) show ?thesis
  proof cases
    case (conv_left k a)
    then obtain qa' qb' where "pair_inv L chg a (left_heard c + k) qa' (right c) (right_heard c) qb'"
        "chg (doc (mgr_doc (left c))) \<subseteq> chg (doc (mgr_doc a))"
      using side_move_inv [OF assms(1) _ inv] assms(2) by blast
    then show ?thesis using conv_left by (auto simp: conv_inv_def)
  next
    case (conv_right k b)
    then obtain qa' qb' where "pair_inv L chg b (right_heard c + k) qa' (left c) (left_heard c) qb'"
        "chg (doc (mgr_doc (right c))) \<subseteq> chg (doc (mgr_doc b))"
      using side_move_inv [OF assms(1) _ pair_inv_swap [OF inv]] assms(2) by blast
    then show ?thesis using conv_right pair_inv_swap by (auto simp: conv_inv_def) blast
  qed
qed

interpretation conv: invariant_system "conv_init L" "conv_move L"
  "\<lambda>c. storage_laws (lib_am L) chg blob base \<longrightarrow> (\<forall>m. lib_decode L (lib_encode L m) = Ok m) \<longrightarrow> conv_inv L chg c"
  for L :: "('id::linorder, 'd, 't, 'o, 'h, 's, 'm, 'l) chat_lib" and chg :: "'d \<Rightarrow> 'c set" and blob base
  by unfold_locales (use conv_init_inv conv_move_step in blast)+

lemma conv_grows:
  assumes "storage_laws (lib_am L) chg blob base" "\<forall>m. lib_decode L (lib_encode L m) = Ok m"
    and "(conv_move L)\<^sup>*\<^sup>* c c'" "conv_inv L chg c"
  shows "conv_inv L chg c' \<and> chg (doc (mgr_doc (left c))) \<subseteq> chg (doc (mgr_doc (left c'))) \<and>
    chg (doc (mgr_doc (right c))) \<subseteq> chg (doc (mgr_doc (right c')))"
  using assms(3,4)
proof (induction rule: rtranclp_induct)
  case (step c' c'')
  then show ?case using conv_move_step [OF assms(1,2) step(2)] by blast
qed simp

lemma quiet_converged:
  assumes "sync_laws (lib_am L) chg" "conv_inv L chg c" "nothing_under_way c"
  shows "synced (left c) \<and> synced (right c) \<and> chg (doc (mgr_doc (left c))) = chg (doc (mgr_doc (right c)))"
proof -
  have s: "sync_session (lib_am L) chg (sync_view (left c) []) (sync_view (right c) [])"
    and sy: "synced (left c)" "synced (right c)"
    using assms(2,3) by (auto simp: conv_inv_def pair_inv_def nothing_under_way_def owed_def)
  then show ?thesis
    using assms(1) s by (auto simp: sync_laws_def sync_view_def)
qed

text \<open>
  C2: Two connected managers that run their loops converge. As long as nothing fails and the
  connection stays, whatever is written and heard and in whatever order, nothing that either of
  them has is lost, and whenever no message is under way between them both report that they are
  synchronised, both have everything that either of them ever had, and both show the same messages
  on every page.
\<close>

theorem conversation_converges:
  assumes "storage_laws (lib_am L) chg blob base" "sync_laws (lib_am L) chg"
    and "\<forall>m. lib_decode L (lib_encode L m) = Ok m"
    and "reach (conv_init L) (conv_move L) c0" "(conv_move L)\<^sup>*\<^sup>* c0 c" "nothing_under_way c"
  shows "synced (left c) \<and> synced (right c) \<and> chg (doc (mgr_doc (left c))) = chg (doc (mgr_doc (right c))) \<and>
    chg (doc (mgr_doc (left c0))) \<union> chg (doc (mgr_doc (right c0))) \<subseteq> chg (doc (mgr_doc (left c))) \<and>
    (\<forall>b off lim. get_messages b (lib_am L) (mgr_doc (left c)) off lim = get_messages b (lib_am L) (mgr_doc (right c)) off lim)"
proof -
  have "conv_inv L chg c0" using conv.reach_inv [OF assms(4)] assms(1,3) by blast
  note G = conv_grows [OF assms(1,3,5) this]
  then show ?thesis
    using quiet_converged [OF assms(2) _ assms(6)] same_changes_same_messages [OF assms(1)] by blast
qed

section \<open>Left alone, the exchange ends\<close>

text \<open>
  Nobody asks anything of a manager any more: no request is queued, it has seen the state of its
  connection, and its chat is stored.
\<close>

definition idle :: "('id::linorder, 'd, 't, 'o, 'h, 's, 'm, 'l) chat_lib \<Rightarrow> ('id, 'd, 'h, 's) manager_actor \<Rightarrow> bool" where
  "idle L a \<longleftrightarrow> in_queue a = [] \<and> in_senders a \<and> subscribe_senders a \<and> \<not> conn_unseen a \<and>
     chat_row (chat_id_display (lib_show_id L) (repo_chat_id (mgr_doc a))) (mgr_pool a)"

text \<open>
  A turn of one side that is left alone and has something to do: its clock does not tick, and what
  comes in is what the peer has sent.
\<close>

inductive side_works ::
  "('id::linorder, 'd, 't, 'o, 'h, 's, 'm, 'l) chat_lib \<Rightarrow> proto_message list \<Rightarrow> ('id, 'd, 'h, 's) manager_actor
     \<Rightarrow> nat \<Rightarrow> ('id, 'd, 'h, 's) manager_actor \<Rightarrow> bool" for L where
  works_turn: "manager_turn L env a = (MgrRunning, a') \<Longrightarrow> goes_well L env inbox a \<Longrightarrow> \<not> env_tick env \<Longrightarrow>
     env_incoming env = (case inbox of [] \<Rightarrow> None | m # _ \<Rightarrow> Some (Some m)) \<Longrightarrow> work a > 0 \<or> inbox \<noteq> [] \<Longrightarrow>
     side_works L inbox a (if hears env a then 1 else 0) a'"

inductive conv_works ::
  "('id::linorder, 'd, 't, 'o, 'h, 's, 'm, 'l) chat_lib \<Rightarrow> ('id, 'd, 'h, 's) conversation
     \<Rightarrow> ('id, 'd, 'h, 's) conversation \<Rightarrow> bool" for L where
  works_left: "side_works L (to_left c) (left c) k a \<Longrightarrow>
     conv_works L c (c\<lparr>left := a, left_heard := left_heard c + k\<rparr>)"
| works_right: "side_works L (to_right c) (right c) k b \<Longrightarrow>
     conv_works L c (c\<lparr>right := b, right_heard := right_heard c + k\<rparr>)"

text \<open>The clock of one side ticks, and it sends what the library has to say, or that this is nothing.\<close>

inductive side_ticks ::
  "('id::linorder, 'd, 't, 'o, 'h, 's, 'm, 'l) chat_lib \<Rightarrow> proto_message list \<Rightarrow> ('id, 'd, 'h, 's) manager_actor
     \<Rightarrow> ('id, 'd, 'h, 's) manager_actor \<Rightarrow> bool" for L where
  ticks_turn: "manager_turn L env a = (MgrRunning, a') \<Longrightarrow> goes_well L env inbox a \<Longrightarrow> env_tick env \<Longrightarrow> side_ticks L inbox a a'"

inductive conv_ticks ::
  "('id::linorder, 'd, 't, 'o, 'h, 's, 'm, 'l) chat_lib \<Rightarrow> ('id, 'd, 'h, 's) conversation
     \<Rightarrow> ('id, 'd, 'h, 's) conversation \<Rightarrow> bool" for L where
  ticks_left: "side_ticks L (to_left c) (left c) a \<Longrightarrow> conv_ticks L c (c\<lparr>left := a\<rparr>)"
| ticks_right: "side_ticks L (to_right c) (right c) b \<Longrightarrow> conv_ticks L c (c\<lparr>right := b\<rparr>)"

text \<open>The messages of a manager that say something, and the ticks in the first steps of a run.\<close>

fun says_something :: "proto_message \<Rightarrow> bool" where
  "says_something (Sync m) = (m \<noteq> None)"

definition talk :: "('id, 'd, 'h, 's) manager_actor \<Rightarrow> nat" where
  "talk a = length (filter (says_something \<circ> snd) (outbox (mgr_conn a)))"

definition ticks_before ::
  "('id::linorder, 'd, 't, 'o, 'h, 's, 'm, 'l) chat_lib \<Rightarrow> (nat \<Rightarrow> ('id, 'd, 'h, 's) conversation) \<Rightarrow> nat \<Rightarrow> nat" where
  "ticks_before L f n = card {i. i < n \<and> conv_ticks L (f i) (f (Suc i))}"

text \<open>A manager can take in a message, on a database that works.\<close>

definition accepts ::
  "('id::linorder, 'd, 't, 'o, 'h, 's, 'm, 'l) chat_lib \<Rightarrow> proto_message \<Rightarrow> ('id, 'd, 'h, 's) manager_actor \<Rightarrow> bool" where
  "accepts L msg a \<longleftrightarrow>
     (case decode_sync L msg of
        Ok m \<Rightarrow> is_ok (fst (receive_sync_message (lib_am L) calm (lib_show_id L) m (mgr_doc a, mgr_pool a)))
      | Err _ \<Rightarrow> False)"

lemma side_works_moves: "side_works L inbox a k a' \<Longrightarrow> side_move L inbox a k a'"
  by (induction rule: side_works.induct) (rule side_turn)

lemma conv_works_moves: "conv_works L c c' \<Longrightarrow> conv_move L c c'"
  by (induction rule: conv_works.induct) (auto intro: conv_left conv_right side_works_moves)

text \<open>
  What is left to do as long as the library has nothing more to say: subscriptions to serve, messages
  under way (one that says something counts twice), and news of the sync status to report.
\<close>

definition weight :: "'a option list \<Rightarrow> nat" where
  "weight q = length q + length (somes q)"

definition to_do ::
  "('id, 'd, 'h, 's) manager_actor \<Rightarrow> 'm option list \<Rightarrow> ('id, 'd, 'h, 's) manager_actor \<Rightarrow> 'm option list \<Rightarrow> nat \<times> nat \<times> nat" where
  "to_do a qa b qb =
     (length (subscribe_queue a) + length (subscribe_queue b), weight qa + weight qb,
      (if sync_unseen a then 1 else 0) + (if sync_unseen b then 1 else 0))"

abbreviation less_to_do :: "((nat \<times> nat \<times> nat) \<times> (nat \<times> nat \<times> nat)) set" where
  "less_to_do \<equiv> less_than <*lex*> less_than <*lex*> less_than"

lemma asked_talk:
  "asked L a d s silent m a' \<Longrightarrow> talk a' = talk a + (if silent \<or> m = None then 0 else 1)"
  by (auto simp: asked_def talk_def wire_def)

lemma deliver_senders [simp]:
  "in_senders (deliver_messages ms a) = in_senders a" "subscribe_senders (deliver_messages ms a) = subscribe_senders a"
  by (simp_all add: deliver_messages_def split: option.splits)

lemma incomming_senders:
  assumes "decode_sync L msg = Ok m"
    and "receive_sync_message (lib_am L) (env_sql env) (lib_show_id L) m (mgr_doc a, mgr_pool a) = (Ok y, (r, p))"
  shows "in_queue (handle_incomming_message L env msg a) = in_queue a"
    "subscribe_queue (handle_incomming_message L env msg a) = subscribe_queue a"
    "in_senders (handle_incomming_message L env msg a) = in_senders a"
    "subscribe_senders (handle_incomming_message L env msg a) = subscribe_senders a"
    "conn_seen (handle_incomming_message L env msg a) = conn_seen a"
    "mgr_doc (handle_incomming_message L env msg a) = r" "mgr_pool (handle_incomming_message L env msg a) = p"
    "state_notifier (mgr_conn (handle_incomming_message L env msg a)) = state_notifier (mgr_conn a)"
proof -
  obtain x where msg: "msg = Sync x" by (cases msg)
  have dec: "(case x of Some bs \<Rightarrow> map_ok Some (sync_message_try_into (lib_decode L) bs) | None \<Rightarrow> Ok None) = Ok m"
    using assms(1) by (simp add: decode_sync_def msg split: option.splits)
  show "in_queue (handle_incomming_message L env msg a) = in_queue a"
    "subscribe_queue (handle_incomming_message L env msg a) = subscribe_queue a"
    "in_senders (handle_incomming_message L env msg a) = in_senders a"
    "subscribe_senders (handle_incomming_message L env msg a) = subscribe_senders a"
    "conn_seen (handle_incomming_message L env msg a) = conn_seen a"
    "mgr_doc (handle_incomming_message L env msg a) = r" "mgr_pool (handle_incomming_message L env msg a) = p"
    "state_notifier (mgr_conn (handle_incomming_message L env msg a)) = state_notifier (mgr_conn a)"
    using dec by (auto simp: msg with_repo_def assms(2) Let_def split: prod.splits option.splits)
qed

lemma receive_keeps_chat_id:
  assumes "receive_sync_message A env show_id m (r, p) = (Ok y, (r', p'))"
  shows "repo_chat_id r' = repo_chat_id r"
proof -
  obtain msgs r1 p1 where r1: "receive_changes A env show_id m (r, p) = (Ok msgs, (r1, p1))"
    and g: "snd (generate_sync_message A r1) = r'"
    using assms unfolding receive_sync_message_def io_bind_Ok_iff by (fastforce split: prod.splits)
  have "repo_chat_id r1 = repo_chat_id r"
    using r1 by (cases m) (auto simp: receive_changes_def result_simps split: prod.splits result.splits
        dest!: persist_chat_parts)
  then show ?thesis using g by (auto simp: generate_sync_message_def split: prod.splits)
qed

lemma hearing_keeps_idle:
  assumes "idle L a" "decode_sync L msg = Ok m"
    and "is_ok (fst (receive_sync_message (lib_am L) (env_sql env) (lib_show_id L) m (mgr_doc a, mgr_pool a)))"
  shows "idle L (handle_incomming_message L env msg a)"
proof -
  obtain y r p where r: "receive_sync_message (lib_am L) (env_sql env) (lib_show_id L) m (mgr_doc a, mgr_pool a) = (Ok y, (r, p))"
    using assms(3) by (metis is_ok_iff prod.exhaust_sel)
  note f = incomming_senders [OF assms(2) r]
  have "chat_row (chat_id_display (lib_show_id L) (repo_chat_id r)) p"
    using assms(1) rows.receive_sync_message_keeps [OF _ r] receive_keeps_chat_id [OF r]
    by (simp add: idle_def chat_row_def)
  then show ?thesis using assms(1) f by (simp add: idle_def conn_unseen_def)
qed

lemma heard_less:
  assumes codec: "\<And>m. lib_decode L (lib_encode L m) = Ok m"
    and inv: "pair_inv L chg a na qa b nb qb"
    and well: "env_send_open env" "sent_after na b = msg # rest" "decode_sync L msg = Ok m"
      "is_ok (fst (receive_sync_message (lib_am L) (env_sql env) (lib_show_id L) m (mgr_doc a, mgr_pool a)))"
    and a': "a' = handle_incomming_message L env msg a"
  shows "\<exists>qa' qb'. pair_inv L chg a' (Suc na) qa' b nb qb' \<and> talk a \<le> talk a' \<and>
    (talk a' = talk a \<longrightarrow> (to_do a' qa' b qb', to_do a qa b qb) \<in> less_to_do)"
proof -
  obtain qa' d s out where h: "qa = m # qa'" "asked L a d s (m = None \<and> out = None) out a'"
    "pair_inv L chg a' (Suc na) qa' b nb (qb @ (if m = None \<and> out = None then [] else [out]))"
    by (rule hearing_inv [OF codec inv well a'])
  let ?qb = "qb @ (if m = None \<and> out = None then [] else [out])"
  have sub: "subscribe_queue a' = subscribe_queue a"
    using well(3,4) incomming_senders(2) [of L msg m env a] by (fastforce simp: a' is_ok_iff prod_eq_iff)
  have "weight qa' + weight ?qb < weight qa + weight qb" if "out = None"
    using that by (cases m) (simp_all add: weight_def h(1))
  then have "(to_do a' qa' b ?qb, to_do a qa b qb) \<in> less_to_do" if "out = None"
    using that sub by (simp add: to_do_def)
  then show ?thesis using h(3) asked_talk [OF h(2)] by (intro exI [of _ qa'] exI [of _ ?qb]) (auto split: if_splits)
qed

lemma status_talk [simp]: "talk (handle_sync_status a) = talk a"
  by (simp add: talk_def status_core)

lemma side_works_less:
  assumes codec: "\<And>m. lib_decode L (lib_encode L m) = Ok m"
    and inv: "pair_inv L chg a na qa b nb qb" "idle L a" and move: "side_works L (sent_after na b) a k a'"
  shows "\<exists>qa' qb'. pair_inv L chg a' (na + k) qa' b nb qb' \<and> idle L a' \<and> talk a \<le> talk a' \<and>
    (talk a' = talk a \<longrightarrow> (to_do a' qa' b qb', to_do a qa b qb) \<in> less_to_do)"
  using move
proof cases
  case (works_turn env)
  have con: "connected a" using inv(1) by (simp add: pair_inv_def)
  have send: "env_send_open env" using works_turn(3) by (simp add: goes_well_def)
  from con works_turn(3,2) show ?thesis
  proof (cases rule: turn_cases)
    case (listens msg rest m)
    then show ?thesis
      using heard_less [OF codec inv(1) send listens(2-5)] hearing_keeps_idle [OF inv(2) listens(3,4)] works_turn(1)
      by auto
  next
    case status
    have a': "mgr_doc a' = mgr_doc a" "mgr_pool a' = mgr_pool a" "mgr_conn a' = mgr_conn a" "in_queue a' = in_queue a"
      "subscribe_queue a' = subscribe_queue a" "in_senders a' = in_senders a" "subscribe_senders a' = subscribe_senders a"
      "\<not> sync_unseen a'" "conn_unseen a' = conn_unseen a" "talk a' = talk a"
      using sync_status_quiet [of a] by (simp_all add: status(3) status_core)
    then have "(to_do a' qa b qb, to_do a qa b qb) \<in> less_to_do"
      using status(2) by (simp add: to_do_def)
    moreover have "idle L a'" using inv(2) a' by (simp add: idle_def)
    moreover have "pair_inv L chg a' na qa b nb qb"
      using inv(1) pair_inv_cong [of a a' L chg na qa b nb qb] a' by simp
    ultimately show ?thesis using status(1) works_turn(1) a'(10) by auto
  next
    case (subscribes m)
    then have "(to_do a' qa b qb, to_do a qa b qb) \<in> less_to_do" "talk a' = talk a"
      by (simp_all add: to_do_def talk_def same_core_def)
    moreover have "idle L a'"
      using inv(2) subscribes(2,3) by (simp add: idle_def same_core_def conn_unseen_def)
    moreover have "pair_inv L chg a' na qa b nb qb"
      using inv(1) pair_inv_cong [of a a' L chg na qa b nb qb] subscribes(2) by (simp add: same_core_def)
    ultimately show ?thesis using subscribes(1) works_turn(1) by auto
  next
    case waits
    then show ?thesis using works_turn(5,6) by (auto split: list.splits)
  qed (use works_turn(4) inv(2) in \<open>auto simp: idle_def\<close>)
qed

lemma side_ticks_inv:
  assumes S: "storage_laws (lib_am L) chg blob base"
    and inv: "pair_inv L chg a na qa b nb qb" "idle L a" and move: "side_ticks L inbox a a'"
  shows "\<exists>qb'. pair_inv L chg a' na qa b nb qb' \<and> idle L a' \<and> talk a \<le> talk a'"
  using move
proof cases
  case (ticks_turn env)
  have con: "connected a" using inv(1) by (simp add: pair_inv_def)
  obtain h where "watch_value (state_notifier (mgr_conn a)) = Connected h" using con by (auto simp: connected_def)
  then have a': "a' = sync_now L env a"
    using ticks_turn by (auto simp: manager_turn_def handle_tick_def goes_well_def)
  obtain m where m: "asked L a (doc (mgr_doc a)) (sync_state (mgr_doc a)) False m a'"
    using sync_now_asks [OF con] ticks_turn(2) a' by (auto simp: goes_well_def)
  have "repo_chat_id (mgr_doc a') = repo_chat_id (mgr_doc a)"
    using generate_sync_message_keeps by (auto simp: a' sync_now_def mgr_generate_sync_def split: prod.splits)
  moreover have "state_notifier (mgr_conn a') = state_notifier (mgr_conn a)" using m by (auto simp: asked_def)
  ultimately have "idle L a'" using inv(2) by (simp add: idle_def conn_unseen_def a')
  then show ?thesis
    using speaking_inv [OF S inv(1) subset_refl m] asked_talk [OF m] by auto
qed

lemma to_do_swap: "to_do a qa b qb = to_do b qb a qa"
  by (simp add: to_do_def)

definition conv_idle :: "('id::linorder, 'd, 't, 'o, 'h, 's, 'm, 'l) chat_lib \<Rightarrow> ('id, 'd, 'h, 's) conversation \<Rightarrow> bool" where
  "conv_idle L c \<longleftrightarrow> idle L (left c) \<and> idle L (right c)"

definition busy_inv ::
  "('id::linorder, 'd, 't, 'o, 'h, 's, 'm, 'l) chat_lib \<Rightarrow> ('d \<Rightarrow> 'c set) \<Rightarrow> ('id, 'd, 'h, 's) conversation
     \<Rightarrow> nat \<times> nat \<times> nat \<Rightarrow> bool" where
  "busy_inv L chg c t \<longleftrightarrow> conv_idle L c \<and>
     (\<exists>qa qb. pair_inv L chg (left c) (left_heard c) qa (right c) (right_heard c) qb \<and> t = to_do (left c) qa (right c) qb)"

abbreviation conv_talk :: "('id, 'd, 'h, 's) conversation \<Rightarrow> nat" where
  "conv_talk c \<equiv> talk (left c) + talk (right c)"

lemma conv_works_less:
  assumes codec: "\<And>m. lib_decode L (lib_encode L m) = Ok m"
    and "busy_inv L chg c t" "conv_works L c c'"
  shows "\<exists>t'. busy_inv L chg c' t' \<and> conv_talk c \<le> conv_talk c' \<and> (conv_talk c' = conv_talk c \<longrightarrow> (t', t) \<in> less_to_do)"
proof -
  obtain qa qb where inv: "pair_inv L chg (left c) (left_heard c) qa (right c) (right_heard c) qb"
      "idle L (left c)" "idle L (right c)" and t: "t = to_do (left c) qa (right c) qb"
    using assms(2) unfolding busy_inv_def conv_idle_def by blast
  from assms(3) show ?thesis
  proof cases
    case (works_left k a)
    with side_works_less [OF codec inv(1,2)]
    obtain qa' qb' where "pair_inv L chg a (left_heard c + k) qa' (right c) (right_heard c) qb'" "idle L a"
        "talk (left c) \<le> talk a" "talk a = talk (left c) \<longrightarrow> (to_do a qa' (right c) qb', t) \<in> less_to_do"
      unfolding t by blast
    then show ?thesis
      using works_left(1) inv(3)
      by (intro exI [of _ "to_do a qa' (right c) qb'"]) (auto simp: busy_inv_def conv_idle_def)
  next
    case (works_right k b)
    with side_works_less [OF codec pair_inv_swap [OF inv(1)] inv(3)]
    obtain qa' qb' where "pair_inv L chg b (right_heard c + k) qa' (left c) (left_heard c) qb'" "idle L b"
        "talk (right c) \<le> talk b" "talk b = talk (right c) \<longrightarrow> (to_do b qa' (left c) qb', t) \<in> less_to_do"
      unfolding t to_do_swap [of "left c"] by blast
    moreover from this have "pair_inv L chg (left c) (left_heard c) qb' b (right_heard c + k) qa'"
      by (blast intro: pair_inv_swap)
    ultimately show ?thesis
      using works_right(1) inv(2) to_do_swap [of b qa' "left c" qb']
      by (intro exI [of _ "to_do b qa' (left c) qb'"]) (auto simp: busy_inv_def conv_idle_def)
  qed
qed

lemma busy_exists:
  "pair_inv L chg (left c) (left_heard c) qa (right c) (right_heard c) qb \<Longrightarrow> conv_idle L c \<Longrightarrow> \<exists>t. busy_inv L chg c t"
  unfolding busy_inv_def by blast

lemma conv_ticks_inv:
  assumes S: "storage_laws (lib_am L) chg blob base" and "busy_inv L chg c t" "conv_ticks L c c'"
  shows "\<exists>t'. busy_inv L chg c' t' \<and> conv_talk c \<le> conv_talk c'"
proof -
  obtain qa qb where inv: "pair_inv L chg (left c) (left_heard c) qa (right c) (right_heard c) qb"
      "idle L (left c)" "idle L (right c)"
    using assms(2) unfolding busy_inv_def conv_idle_def by blast
  from assms(3) show ?thesis
  proof cases
    case (ticks_left a)
    obtain qb' where "pair_inv L chg a (left_heard c) qa (right c) (right_heard c) qb'" "idle L a" "talk (left c) \<le> talk a"
      using side_ticks_inv [OF S inv(1,2) ticks_left(2)] by blast
    then show ?thesis using busy_exists [of L chg c' qa qb'] inv(3) ticks_left(1) by (simp add: conv_idle_def)
  next
    case (ticks_right b)
    obtain qa' where "pair_inv L chg (left c) (left_heard c) qa' b (right_heard c) qb" "idle L b" "talk (right c) \<le> talk b"
      using side_ticks_inv [OF S pair_inv_swap [OF inv(1)] inv(3) ticks_right(2)] pair_inv_swap by blast
    then show ?thesis using busy_exists [of L chg c' qa' qb] inv(2) ticks_right(1) by (simp add: conv_idle_def)
  qed
qed

text \<open>So in a run that is endless the library talks for ever, or the clock ticks for ever.\<close>

lemma ticks_before_Suc: "ticks_before L f (Suc n) = ticks_before L f n + (if conv_ticks L (f n) (f (Suc n)) then 1 else 0)"
proof -
  have "{i. i < Suc n \<and> conv_ticks L (f i) (f (Suc i))} =
      {i. i < n \<and> conv_ticks L (f i) (f (Suc i))} \<union> (if conv_ticks L (f n) (f (Suc n)) then {n} else {})"
    by (auto simp: less_Suc_eq)
  then show ?thesis by (simp add: ticks_before_def)
qed

lemma endless_run_talks:
  assumes S: "storage_laws (lib_am L) chg blob base" and codec: "\<And>m. lib_decode L (lib_encode L m) = Ok m"
    and start: "busy_inv L chg (f 0) t" and run: "\<And>n. conv_works L (f n) (f (Suc n)) \<or> conv_ticks L (f n) (f (Suc n))"
  shows "\<exists>n. N < conv_talk (f n) + ticks_before L f n"
proof (rule ccontr)
  assume "\<not> ?thesis"
  then have bound: "conv_talk (f n) + ticks_before L f n \<le> N" for n by (meson not_less)
  have wf: "wf (less_than <*lex*> less_to_do)" by (intro wf_lex_prod wf_less_than)
  have "x = (N - (conv_talk (f n) + ticks_before L f n), t) \<Longrightarrow> busy_inv L chg (f n) t \<Longrightarrow> False" for x n t
    using wf
  proof (induction x arbitrary: n t rule: wf_induct_rule)
    case (less x)
    obtain t' where t': "busy_inv L chg (f (Suc n)) t'" "conv_talk (f n) \<le> conv_talk (f (Suc n))"
      "\<not> conv_ticks L (f n) (f (Suc n)) \<Longrightarrow> conv_talk (f (Suc n)) = conv_talk (f n) \<Longrightarrow> (t', t) \<in> less_to_do"
      using run [of n] conv_works_less [OF codec less(3)] conv_ticks_inv [OF S less(3)] by blast
    have "((N - (conv_talk (f (Suc n)) + ticks_before L f (Suc n)), t'), x) \<in> less_than <*lex*> less_to_do"
      using t'(2,3) bound [of "Suc n"] less(2) by (auto simp: ticks_before_Suc split: if_splits)
    then show False using less(1) t'(1) by blast
  qed
  then show False using start by blast
qed

text \<open>With a working database, the next message can be heard when it is accepted.\<close>

lemma side_ready:
  assumes inv: "idle L a" and some: "inbox \<noteq> []" and ok: "accepts L (hd inbox) a"
  shows "\<exists>a'. manager_turn L (sample_turn\<lparr>env_incoming := Some (Some (hd inbox))\<rparr>) a = (MgrRunning, a') \<and>
    goes_well L (sample_turn\<lparr>env_incoming := Some (Some (hd inbox))\<rparr>) inbox a"
proof -
  let ?env = "sample_turn\<lparr>env_incoming := Some (Some (hd inbox))\<rparr>"
  have "goes_well L ?env inbox a"
    using inv some ok by (auto simp: goes_well_def sample_turn_def idle_def accepts_def split: result.splits)
  moreover have "\<exists>a'. manager_turn L ?env a = (MgrRunning, a')"
    using inv by (cases "subscribe_queue a")
      (auto simp: manager_turn_def sample_turn_def idle_def handle_subscription_def Let_def conn_unseen_def)
  ultimately show ?thesis by blast
qed

lemma side_can_work:
  assumes "idle L a" "inbox \<noteq> []" "accepts L (hd inbox) a"
  shows "\<exists>k a'. side_works L inbox a k a'"
proof -
  obtain a' where a': "manager_turn L (sample_turn\<lparr>env_incoming := Some (Some (hd inbox))\<rparr>) a = (MgrRunning, a')"
    "goes_well L (sample_turn\<lparr>env_incoming := Some (Some (hd inbox))\<rparr>) inbox a"
    using side_ready [OF assms] by blast
  have "side_works L inbox a (if hears (sample_turn\<lparr>env_incoming := Some (Some (hd inbox))\<rparr>) a then 1 else 0) a'"
    by (rule works_turn [OF a']) (use assms(2) in \<open>simp_all add: sample_turn_def split: list.splits\<close>)
  then show ?thesis by blast
qed

lemma works_steps_inv:
  assumes "\<And>m. lib_decode L (lib_encode L m) = Ok m" "(conv_works L)\<^sup>*\<^sup>* c c'" "busy_inv L chg c t"
  shows "(conv_move L)\<^sup>*\<^sup>* c c' \<and> (\<exists>t'. busy_inv L chg c' t')"
  using assms(2,3)
proof (induction rule: rtranclp_induct)
  case (step c' c'')
  then show ?case
    using conv_works_less [OF assms(1)] conv_works_moves [OF step(2)] by (meson rtranclp.rtrancl_into_rtrancl)
qed blast

text \<open>
  C3: Left alone, two connected managers do not keep each other busy. When they have no more requests and
  nothing fails, they can go on for ever, in whatever order they take their turns, only if the library
  has ever more to say or the clock ticks again and again: that there is nothing to say is not answered
  for ever. And where they have nothing to do until the next tick of the clock, either the next message
  under way is refused, or no message is under way, both report that they are synchronised, and both
  have everything that either of them had.
\<close>

theorem conversation_settles:
  assumes "storage_laws (lib_am L) chg blob base" "sync_laws (lib_am L) chg"
    and "\<forall>m. lib_decode L (lib_encode L m) = Ok m"
    and "reach (conv_init L) (conv_move L) c" "conv_idle L c"
  shows "(\<forall>f N. f 0 = c \<longrightarrow> (\<forall>n. conv_works L (f n) (f (Suc n)) \<or> conv_ticks L (f n) (f (Suc n))) \<longrightarrow>
       (\<exists>n. N < talk (left (f n)) + talk (right (f n)) + ticks_before L f n)) \<and>
    (\<forall>c'. (conv_works L)\<^sup>*\<^sup>* c c' \<and> \<not> (\<exists>c''. conv_works L c' c'') \<longrightarrow>
       to_left c' \<noteq> [] \<and> \<not> accepts L (hd (to_left c')) (left c') \<or>
       to_right c' \<noteq> [] \<and> \<not> accepts L (hd (to_right c')) (right c') \<or>
       nothing_under_way c' \<and> synced (left c') \<and> synced (right c') \<and>
       chg (doc (mgr_doc (left c'))) = chg (doc (mgr_doc (right c'))) \<and>
       chg (doc (mgr_doc (left c))) \<union> chg (doc (mgr_doc (right c))) \<subseteq> chg (doc (mgr_doc (left c'))))"
proof -
  have codec: "\<And>m. lib_decode L (lib_encode L m) = Ok m" using assms(3) by blast
  have inv: "conv_inv L chg c" using conv.reach_inv [OF assms(4)] assms(1,3) by blast
  then obtain t where t: "busy_inv L chg c t"
    using assms(5) unfolding busy_inv_def conv_inv_def by blast
  have stop: "nothing_under_way c' \<and> synced (left c') \<and> synced (right c') \<and>
       chg (doc (mgr_doc (left c'))) = chg (doc (mgr_doc (right c'))) \<and>
       chg (doc (mgr_doc (left c))) \<union> chg (doc (mgr_doc (right c))) \<subseteq> chg (doc (mgr_doc (left c')))"
    if c': "(conv_works L)\<^sup>*\<^sup>* c c'" "\<not> (\<exists>c''. conv_works L c' c'')"
      and ok: "to_left c' \<noteq> [] \<Longrightarrow> accepts L (hd (to_left c')) (left c')" "to_right c' \<noteq> [] \<Longrightarrow> accepts L (hd (to_right c')) (right c')" for c'
  proof -
    obtain t' where moves: "(conv_move L)\<^sup>*\<^sup>* c c'" and t': "busy_inv L chg c' t'"
      using works_steps_inv [OF codec c'(1) t] by blast
    have idle: "idle L (left c')" "idle L (right c')" using t' by (simp_all add: busy_inv_def conv_idle_def)
    have "nothing_under_way c'"
      using side_can_work [OF idle(1) _ ok(1)] side_can_work [OF idle(2) _ ok(2)] c'(2)
      unfolding nothing_under_way_def by (metis conv_works.intros)
    then show ?thesis
      using conv_grows [OF assms(1,3) moves inv] quiet_converged [OF assms(2)] by blast
  qed
  have "\<exists>n. N < talk (left (f n)) + talk (right (f n)) + ticks_before L f n"
    if "f 0 = c" "\<forall>n. conv_works L (f n) (f (Suc n)) \<or> conv_ticks L (f n) (f (Suc n))" for f N
    using endless_run_talks [OF assms(1) codec, where f = f and t = t and N = N] t that by simp
  then show ?thesis using stop by blast
qed

section \<open>A library that keeps the promise\<close>

text \<open>
  A library whose sync message is the whole document, sent when it differs from the one sent before.
\<close>

definition whole_doc_am :: "(bytes, bytes \<times> bytes, unit, bytes, bytes option, bytes, unit) automerge" where
  "whole_doc_am =
     \<lparr>am_root = (), am_new = [], am_load = Ok, am_save = am_save bytes_am, am_save_after = am_save_after bytes_am,
      am_load_incremental = am_load_incremental bytes_am, am_get_heads = am_get_heads bytes_am,
      am_keys = am_keys bytes_am, am_get = am_get bytes_am, am_length = am_length bytes_am,
      am_hydrate_prop = am_hydrate_prop bytes_am, tx_begin = tx_begin bytes_am, tx_commit = tx_commit bytes_am,
      tx_get = tx_get bytes_am, tx_length = tx_length bytes_am, tx_put_object = tx_put_object bytes_am,
      tx_insert_object = tx_insert_object bytes_am, tx_put = tx_put bytes_am,
      tx_reconcile_init = tx_reconcile_init bytes_am, am_sync_new = None,
      am_receive_sync = (\<lambda>d s m. (Ok (), d @ filter (\<lambda>x. x \<notin> set d) m, s, ())),
      am_make_patches = (\<lambda>_ _. []),
      am_generate_sync = (\<lambda>d s. if s = Some d then (None, s) else (Some d, Some d))\<rparr>"

lemma whole_doc_storage: "storage_laws whole_doc_am set set fst"
proof -
  have "set d = set d' \<longrightarrow> (\<lambda>i j. Ok (byte_message (sort (remdups d) ! j))) =
      (\<lambda>i j. Ok (byte_message (sort (remdups d') ! j)))" for d d' :: bytes
    using sort_remdups_cong [of d d'] by auto
  moreover have "set d = set d' \<longrightarrow> (\<lambda>i. length (remdups d)) = (\<lambda>i. length (remdups d'))" for d d' :: bytes
    using length_remdups_cong [of d d'] by auto
  ultimately show ?thesis
    unfolding storage_laws_def whole_doc_am_def bytes_am_def
    by (auto simp: byte_put_base filter_empty_conv)
qed

fun whole_doc_inv :: "(bytes, bytes option, bytes) sync_end \<Rightarrow> (bytes, bytes option, bytes) sync_end \<Rightarrow> bool" where
  "whole_doc_inv (d1, s1, g1, q1) (d2, s2, g2, q2) \<longleftrightarrow>
     (g1 \<longrightarrow> s1 = Some d1) \<and> (g2 \<longrightarrow> s2 = Some d2) \<and>
     (\<forall>x. s1 = Some x \<longrightarrow> set x \<subseteq> set d2 \<or> x \<in> set q2) \<and> (\<forall>x. s2 = Some x \<longrightarrow> set x \<subseteq> set d1 \<or> x \<in> set q1)"

lemma whole_doc_session: "sync_session whole_doc_am set e1 e2 \<Longrightarrow> whole_doc_inv e1 e2"
proof (induction rule: sync_session.induct)
  case (session_write d s g q e d')
  then show ?case by (cases e) (simp, blast)
next
  case (session_generate d s g q d2 s2 g2 q2 m s')
  then show ?case by (auto simp: whole_doc_am_def split: if_splits)
next
  case (session_receive d s g m q e d' s' l)
  then show ?case by (cases e) (auto simp: whole_doc_am_def)
next
  case (session_swap e1 e2)
  then show ?case by (cases e1; cases e2) auto
qed (simp add: whole_doc_am_def)

lemma whole_doc_sync: "sync_laws whole_doc_am set"
  unfolding sync_laws_def by (auto dest!: whole_doc_session)

definition conv_lib :: "(nat, bytes, bytes \<times> bytes, unit, bytes, bytes option, bytes, unit) chat_lib" where
  "conv_lib = \<lparr>lib_am = whole_doc_am, lib_encode = (\<lambda>m. m), lib_decode = Ok,
     lib_show_id = sample_show, lib_uuid_text = (\<lambda>_. ''u''), lib_build = Debug\<rparr>"

lemmas conv_lib_laws = whole_doc_storage whole_doc_sync

text \<open>A conversation in which the left side writes and everything is heard.\<close>

datatype conv_event = LeftRequest | LeftTurn | RightTurn

definition peer_manager :: "nat \<Rightarrow> nat \<Rightarrow> (nat, bytes, bytes, bytes option) manager_actor" where
  "peer_manager me other =
     new_manager \<lparr>repo_chat_id = \<lparr>my_id = me, chat_remote_id = other\<rparr>, doc = [], sync_state = None,
       last_saved_heads = [[]], sync_status_tx = watch_channel False\<rparr> first_pool (new_connected me sample_handle)"

definition play_turn :: "proto_message list \<Rightarrow> (nat, bytes, bytes, bytes option) manager_actor
     \<Rightarrow> (nat \<times> (nat, bytes, bytes, bytes option) manager_actor) option" where
  "play_turn inbox a =
     (let env = sample_turn\<lparr>env_incoming := (case inbox of [] \<Rightarrow> None | m # _ \<Rightarrow> Some (Some m))\<rparr> in
      if goes_well conv_lib env inbox a
      then (case manager_turn conv_lib env a of
              (MgrRunning, a') \<Rightarrow> Some (if hears env a then 1 else 0, a') | _ \<Rightarrow> None)
      else None)"

fun conv_play :: "conv_event list \<Rightarrow> (nat, bytes, bytes, bytes option) conversation
     \<Rightarrow> (nat, bytes, bytes, bytes option) conversation option" where
  "conv_play [] c = Some c"
| "conv_play (LeftRequest # es) c =
     conv_play es (c\<lparr>left := (left c)\<lparr>in_queue := in_queue (left c) @ [Single (Text ''hi'') 5]\<rparr>\<rparr>)"
| "conv_play (LeftTurn # es) c =
     (case play_turn (to_left c) (left c) of
        Some (k, a) \<Rightarrow> conv_play es (c\<lparr>left := a, left_heard := left_heard c + k\<rparr>) | None \<Rightarrow> None)"
| "conv_play (RightTurn # es) c =
     (case play_turn (to_right c) (right c) of
        Some (k, b) \<Rightarrow> conv_play es (c\<lparr>right := b, right_heard := right_heard c + k\<rparr>) | None \<Rightarrow> None)"

lemma play_turn_move:
  assumes "play_turn inbox a = Some (k, a')"
  shows "side_move conv_lib inbox a k a'"
proof -
  obtain env where "goes_well conv_lib env inbox a" "manager_turn conv_lib env a = (MgrRunning, a')"
      "k = (if hears env a then 1 else 0)"
    using assms by (fastforce simp: play_turn_def Let_def split: if_splits prod.splits mgr_status.splits)
  then show ?thesis using side_turn by blast
qed

lemma conv_play_moves: "conv_play es c = Some c' \<Longrightarrow> (conv_move conv_lib)\<^sup>*\<^sup>* c c'"
proof (induction es c rule: conv_play.induct)
  case (2 es c)
  have "conv_move conv_lib c
      (c\<lparr>left := (left c)\<lparr>in_queue := in_queue (left c) @ [Single (Text ''hi'') 5]\<rparr>, left_heard := left_heard c + 0\<rparr>)"
    by (intro conv_left side_request)
  then show ?case using 2 by (auto intro: converse_rtranclp_into_rtranclp)
next
  case (3 es c)
  then obtain k a where a: "play_turn (to_left c) (left c) = Some (k, a)"
      "conv_play es (c\<lparr>left := a, left_heard := left_heard c + k\<rparr>) = Some c'"
    by (auto split: option.splits)
  show ?case
    using 3(1) [OF a(1) refl a(2)] conv_left [OF play_turn_move [OF a(1)]] by (rule converse_rtranclp_into_rtranclp [rotated])
next
  case (4 es c)
  then obtain k b where b: "play_turn (to_right c) (right c) = Some (k, b)"
      "conv_play es (c\<lparr>right := b, right_heard := right_heard c + k\<rparr>) = Some c'"
    by (auto split: option.splits)
  show ?case
    using 4(1) [OF b(1) refl b(2)] conv_right [OF play_turn_move [OF b(1)]] by (rule converse_rtranclp_into_rtranclp [rotated])
qed simp

definition sample_conv_start :: "(nat, bytes, bytes, bytes option) conversation" where
  "sample_conv_start =
     \<lparr>left = handle_conn_changed conv_lib sample_turn (peer_manager 3 5),
      right = handle_conn_changed conv_lib sample_turn (peer_manager 5 3),
      left_heard = length (outbox (mgr_conn (peer_manager 5 3))),
      right_heard = length (outbox (mgr_conn (peer_manager 3 5)))\<rparr>"

lemma sample_conv_reach: "reach (conv_init conv_lib) (conv_move conv_lib) sample_conv_start"
  unfolding sample_conv_start_def
  by (rule reach_init, unfold conv_init_def)
    (intro exI [of _ "peer_manager 3 5"] exI [of _ "peer_manager 5 3"] exI [of _ sample_turn],
     simp add: peer_manager_def new_manager_def new_connected_def sample_turn_def connected_def)

lemma conv_lib_codec: "\<forall>m. lib_decode conv_lib (lib_encode conv_lib m) = Ok m"
  by (simp add: conv_lib_def)

definition sample_events :: "conv_event list" where
  "sample_events = LeftRequest # concat (replicate 8 [LeftTurn, RightTurn])"

definition sample_conv :: "(nat, bytes, bytes, bytes option) conversation" where
  "sample_conv = the (conv_play sample_events sample_conv_start)"

theorem conversation_converges_witness:
  "synced (left sample_conv) \<and> synced (right sample_conv) \<and> set (doc (mgr_doc (right sample_conv))) = {7} \<and>
   (\<forall>b off lim. get_messages b whole_doc_am (mgr_doc (left sample_conv)) off lim =
      get_messages b whole_doc_am (mgr_doc (right sample_conv)) off lim)"
proof -
  have "conv_play sample_events sample_conv_start \<noteq> None"
    by code_simp
  then have "conv_play sample_events sample_conv_start = Some sample_conv"
    unfolding sample_conv_def by (simp del: conv_play.simps)
  then have moves: "(conv_move conv_lib)\<^sup>*\<^sup>* sample_conv_start sample_conv"
    by (rule conv_play_moves)
  have quiet: "nothing_under_way sample_conv" by code_simp
  have "set (doc (mgr_doc (right sample_conv))) = {7}" by code_simp
  moreover have "lib_am conv_lib = whole_doc_am" by (simp add: conv_lib_def)
  ultimately show ?thesis
    using conversation_converges [OF _ _ conv_lib_codec sample_conv_reach moves quiet, of set set fst]
      conv_lib_laws by simp
qed

text \<open>Both sides take turns as long as there is something to do.\<close>

definition has_work :: "proto_message list \<Rightarrow> (nat, bytes, bytes, bytes option) manager_actor \<Rightarrow> bool" where
  "has_work inbox a \<longleftrightarrow> work a > 0 \<or> inbox \<noteq> []"

fun settle :: "nat \<Rightarrow> (nat, bytes, bytes, bytes option) conversation \<Rightarrow> (nat, bytes, bytes, bytes option) conversation" where
  "settle 0 c = c"
| "settle (Suc n) c =
     (if has_work (to_left c) (left c)
      then (case play_turn (to_left c) (left c) of
              Some (k, a) \<Rightarrow> settle n (c\<lparr>left := a, left_heard := left_heard c + k\<rparr>) | None \<Rightarrow> c)
      else if has_work (to_right c) (right c)
      then (case play_turn (to_right c) (right c) of
              Some (k, b) \<Rightarrow> settle n (c\<lparr>right := b, right_heard := right_heard c + k\<rparr>) | None \<Rightarrow> c)
      else c)"

lemma play_turn_works:
  assumes "play_turn inbox a = Some (k, a')" "has_work inbox a"
  shows "side_works conv_lib inbox a k a'"
proof -
  let ?env = "sample_turn\<lparr>env_incoming := (case inbox of [] \<Rightarrow> None | m # _ \<Rightarrow> Some (Some m))\<rparr>"
  have "goes_well conv_lib ?env inbox a" "manager_turn conv_lib ?env a = (MgrRunning, a')" "k = (if hears ?env a then 1 else 0)"
    using assms(1) by (auto simp: play_turn_def Let_def split: if_splits prod.splits mgr_status.splits)
  then show ?thesis using works_turn [of conv_lib ?env a a' inbox] assms(2) by (simp add: has_work_def sample_turn_def)
qed

lemma settle_works: "(conv_works conv_lib)\<^sup>*\<^sup>* c (settle n c)"
proof (induction n arbitrary: c)
  case (Suc n)
  show ?case
    using works_left [OF play_turn_works [of "to_left c" "left c"]] works_right [OF play_turn_works [of "to_right c" "right c"]]
    by (auto split: option.splits intro: converse_rtranclp_into_rtranclp [OF _ Suc])
qed simp

theorem conversation_settles_witness:
  "nothing_under_way (settle 9 sample_conv_start) \<and> synced (left (settle 9 sample_conv_start)) \<and> synced (right (settle 9 sample_conv_start)) \<and>
   set (doc (mgr_doc (left (settle 9 sample_conv_start)))) = set (doc (mgr_doc (right (settle 9 sample_conv_start))))"
proof -
  have am: "lib_am conv_lib = whole_doc_am" by (simp add: conv_lib_def)
  have "in_queue (left sample_conv_start) = []" "in_queue (right sample_conv_start) = []" by code_simp+
  moreover have "in_senders (left sample_conv_start) \<and> in_senders (right sample_conv_start)"
    "subscribe_senders (left sample_conv_start) \<and> subscribe_senders (right sample_conv_start)" by code_simp+
  moreover have "\<not> conn_unseen (left sample_conv_start)" "\<not> conn_unseen (right sample_conv_start)" by code_simp+
  moreover have "chat_row (chat_id_display (lib_show_id conv_lib) (repo_chat_id (mgr_doc (left sample_conv_start))))
      (mgr_pool (left sample_conv_start))"
    "chat_row (chat_id_display (lib_show_id conv_lib) (repo_chat_id (mgr_doc (right sample_conv_start))))
      (mgr_pool (right sample_conv_start))" by code_simp+
  ultimately have idle: "conv_idle conv_lib sample_conv_start"
    by (simp add: conv_idle_def idle_def)
  have stop: "\<not> has_work (to_left (settle 9 sample_conv_start)) (left (settle 9 sample_conv_start))"
    "\<not> has_work (to_right (settle 9 sample_conv_start)) (right (settle 9 sample_conv_start))" by code_simp+
  then have "\<not> conv_works conv_lib (settle 9 sample_conv_start) c" for c
    by (auto simp: has_work_def elim!: conv_works.cases side_works.cases)
  moreover have "to_left (settle 9 sample_conv_start) = []" "to_right (settle 9 sample_conv_start) = []"
    using stop by (simp_all add: has_work_def del: settle.simps)
  moreover have "storage_laws (lib_am conv_lib) set set fst" "sync_laws (lib_am conv_lib) set" using conv_lib_laws am by simp_all
  note T = conversation_settles [OF this conv_lib_codec sample_conv_reach idle]
  ultimately show ?thesis
    using T [THEN conjunct2, rule_format, of "settle 9 sample_conv_start"] settle_works [of sample_conv_start 9]
    by (simp del: settle.simps)
qed

end
