(* ===== verification/Receiver.thy ===== *)
theory Receiver
  imports Conversation
begin

text \<open>
  The receiver of \<^verbatim>\<open>src/manager.rs\<close> (\<^verbatim>\<open>TestChatManagerStateReceiver\<close>), which is how an
  application follows a chat: it starts with all messages, merges the messages that are delivered,
  by their id, and keeps what it was told of the connection and of the synchronisation. Shown here:
  it never falls behind the document.
\<close>

section \<open>The receiver\<close>

record state_receiver =
  all_msgs :: "chat_message list"
  sync_status_watcher :: "bool watch"
  conn_state_watcher :: "uniffi_chat_connection_state watch"
  msg_update :: "unit watch"

definition new_receiver :: "chat_message list \<Rightarrow> state_receiver" where
  "new_receiver all_messages =
     \<lparr>all_msgs = all_messages, sync_status_watcher = watch_channel False,
      conn_state_watcher = watch_channel UDisconnected, msg_update = watch_channel ()\<rparr>"

definition push_new :: "chat_message \<Rightarrow> chat_message list \<Rightarrow> chat_message list" where
  "push_new m current_msgs =
     (if list_ex (\<lambda>x. msg_id x = msg_id m) current_msgs then current_msgs else current_msgs @ [m])"

definition process_messages :: "chat_message list \<Rightarrow> state_receiver \<Rightarrow> state_receiver" where
  "process_messages msgs w =
     w\<lparr>all_msgs := sort_key message_key (fold push_new msgs (all_msgs w)), msg_update := send_modify () (msg_update w)\<rparr>"

definition process_connection_state :: "uniffi_chat_connection_state \<Rightarrow> state_receiver \<Rightarrow> state_receiver" where
  "process_connection_state new_state w =
     w\<lparr>conn_state_watcher := send_modify
         (if watch_value (conn_state_watcher w) \<noteq> new_state then new_state else watch_value (conn_state_watcher w))
         (conn_state_watcher w)\<rparr>"

definition process_sync_status :: "bool \<Rightarrow> state_receiver \<Rightarrow> state_receiver" where
  "process_sync_status is_synced w =
     w\<lparr>sync_status_watcher := send_modify
         (if watch_value (sync_status_watcher w) \<noteq> is_synced then is_synced else watch_value (sync_status_watcher w))
         (sync_status_watcher w)\<rparr>"

text \<open>The calls of a manager, as the receiver \<open>k\<close> gets them.\<close>

fun take_call :: "nat \<Rightarrow> ui_call \<Rightarrow> state_receiver \<Rightarrow> state_receiver" where
  "take_call k (ProcessMessages j msgs) w = (if j = k then process_messages msgs w else w)"
| "take_call k (ProcessConnectionState j st) w = (if j = k then process_connection_state st w else w)"
| "take_call k (ProcessSyncStatus j b) w = (if j = k then process_sync_status b w else w)"

section \<open>Merging\<close>

lemma set_push_new:
  assumes "inj_on msg_id S" "set ms \<subseteq> S" "set u \<subseteq> S"
  shows "set (fold push_new ms u) = set u \<union> set ms"
  using assms
proof (induction ms arbitrary: u)
  case (Cons m ms)
  have "set (push_new m u) = insert m (set u)"
    using Cons.prems by (auto simp: push_new_def list_ex_iff inj_on_def)
  then show ?case using Cons by simp
qed simp

lemma distinct_push_new: "distinct (map msg_id u) \<Longrightarrow> distinct (map msg_id (fold push_new ms u))"
proof (induction ms arbitrary: u)
  case (Cons m ms)
  have "distinct (map msg_id (push_new m u))"
    using Cons.prems by (auto simp: push_new_def list_ex_iff)
  then show ?case using Cons by simp
qed simp

lemma distinct_sort_key [simp]: "distinct (map f (sort_key k xs)) \<longleftrightarrow> distinct (map f xs)"
  by (metis mset_map mset_sort mset_eq_imp_distinct_iff)

text \<open>Lists of messages with different ids that are in order are determined by their elements.\<close>

lemma ordered_messages_unique:
  assumes "sorted (map message_key xs)" "sorted (map message_key ys)" "distinct (map msg_id xs)" "distinct (map msg_id ys)"
    and "set xs = set ys"
  shows "xs = ys"
proof -
  have inj: "inj_on message_key (set xs)"
    using assms(3) by (auto simp: inj_on_def message_key_def distinct_map)
  have "distinct (map message_key zs)" if "distinct (map msg_id zs)" for zs
    using that by (auto simp: distinct_map inj_on_def message_key_def)
  then have "map message_key xs = map message_key ys"
    using assms by (intro sorted_distinct_set_unique) auto
  then show ?thesis
    using inj assms(5) by (simp add: inj_on_map_eq_map)
qed

section \<open>What a sync message brings\<close>

text \<open>
  A document has grown: it is a chat document, and every list of messages has kept its messages. The
  patches name what is new: the place of every new message, and no place that does not exist.
\<close>

definition grows :: "'o \<Rightarrow> 'o objects \<Rightarrow> 'o objects \<Rightarrow> bool" where
  "grows root old new \<longleftrightarrow>
     chat_objects root new \<and>
     (\<forall>p ms. peer_view root old p = Some ms \<longrightarrow> set ms \<subseteq> set (case_option [] id (peer_view root new p)))"

definition named_by :: "'o patch list \<Rightarrow> 'o \<Rightarrow> 'o objects \<Rightarrow> 'o objects \<Rightarrow> bool" where
  "named_by patches root old new \<longleftrightarrow>
     (\<forall>p ms' i. peer_view root new p = Some ms' \<longrightarrow> i < length ms' \<longrightarrow>
        ms' ! i \<in> set (case_option [] id (peer_view root old p)) \<or>
        (\<exists>pt\<in>set patches. \<exists>x y rest. patch_path pt = (x, PropMap (peer_list_key p)) # (y, PropSeq i) # rest)) \<and>
     (\<forall>pt\<in>set patches. \<forall>p ms' x y i rest.
        patch_path pt = (x, PropMap (peer_list_key p)) # (y, PropSeq i) # rest \<longrightarrow>
        peer_view root new p = Some ms' \<longrightarrow> i < length ms')"

text \<open>
  The library: when taking in a message makes the document grow, the patches name what is new. Whether
  the document grows depends on who made the message: a message only adds, at the document where it is
  taken in, when that is so.
\<close>

definition patch_laws :: "('d, 't, 'o, 'h, 's, 'm, 'l) automerge \<Rightarrow> ('d \<Rightarrow> 'o objects) \<Rightarrow> bool" where
  "patch_laws A g \<longleftrightarrow>
     (\<forall>d s m d' s' l. am_receive_sync A d s m = (Ok (), d', s', l) \<longrightarrow> chat_objects (am_root A) (g d) \<longrightarrow>
        grows (am_root A) (g d) (g d') \<longrightarrow> named_by (am_make_patches A d' l) (am_root A) (g d) (g d'))"

definition only_adds :: "('d, 't, 'o, 'h, 's, 'm, 'l) automerge \<Rightarrow> ('d \<Rightarrow> 'o objects) \<Rightarrow> 'd \<Rightarrow> 's \<Rightarrow> 'm \<Rightarrow> bool" where
  "only_adds A g d s m \<longleftrightarrow>
     (\<forall>d' s' l. am_receive_sync A d s m = (Ok (), d', s', l) \<longrightarrow> grows (am_root A) (g d) (g d'))"

text \<open>The messages of a chat document.\<close>

definition doc_messages :: "('d, 't, 'o, 'h, 's, 'm, 'l) automerge \<Rightarrow> ('d \<Rightarrow> 'o objects) \<Rightarrow> 'd \<Rightarrow> chat_message set" where
  "doc_messages A g d = {m. \<exists>p ms. peer_view (am_root A) (g d) p = Some ms \<and> m \<in> set ms}"

lemma doc_messagesI: "peer_view (am_root A) (g d) p = Some ms \<Longrightarrow> m \<in> set ms \<Longrightarrow> m \<in> doc_messages A g d"
  unfolding doc_messages_def by blast

lemma set_view_messages:
  assumes "finite (dom v)"
  shows "set_mset (view_messages v) = {m. \<exists>p ms. v p = Some ms \<and> m \<in> set ms}"
proof -
  have "set_mset (\<Sum>p\<in>S. mset (the (v p))) = (\<Union>p\<in>S. set (the (v p)))" if "finite S" for S
    using that by induction auto
  then have "set_mset (view_messages v) = (\<Union>p\<in>dom v. set (the (v p)))"
    using assms by (simp add: view_messages_def)
  then show ?thesis by auto (metis domI option.sel)
qed

lemma all_messages_of_doc:
  assumes "doc_laws A h g" "chat_objects (am_root A) (g (doc r))"
    and "size (view_messages (peer_view (am_root A) (g (doc r)))) < usize_max"
  obtains us where "get_all_messages b A r = Return (Ok us)" "sorted (map message_key us)"
    "set us = doc_messages A g (doc r)" "mset us = view_messages (peer_view (am_root A) (g (doc r)))"
proof -
  obtain yss where yss: "repo_holds A r yss" "mset (concat yss) = view_messages (peer_view (am_root A) (g (doc r)))"
    "finite (dom (peer_view (am_root A) (g (doc r))))"
    by (rule repo_holds_view [OF assms(1,2)])
  have "length (concat yss) < usize_max"
    using assms(3) arg_cong [OF yss(2), of size] by simp
  moreover have "set (concat yss) = doc_messages A g (doc r)"
    using arg_cong [OF yss(2), of set_mset] set_view_messages [OF yss(3)] unfolding doc_messages_def by (metis set_mset_mset)
  ultimately show thesis
    using that [of "sort_key message_key (concat yss)"] all_messages_sorted [OF yss(1), of b] yss(2) by simp
qed

lemma hydrate_view:
  assumes "doc_laws A h g" "chat_objects (am_root A) (g d)" "peer_view (am_root A) (g d) p = Some ms" "i < length ms"
  shows "\<exists>l. get_peer_list A d p = Ok (Some l) \<and> am_hydrate_prop A d (list_inner l) i = Ok (ms ! i)"
proof -
  obtain f where root: "g d (am_root A) = Some (MapNode f)" using assms(2) by (rule chat_objects_root)
  obtain v l where p: "f (peer_list_key p) = Some (v, l)" "ms = map (the \<circ> read_message_object (g d) \<circ> snd) (list_entries (g d l))"
    using assms(3) by (auto simp: peer_view_def root)
  obtain xs where xs: "g d l = Some (ListNode xs)" "\<forall>x\<in>set xs. read_message_object (g d) (snd x) \<noteq> None"
    using chat_objects_list [OF assms(2) root p(1)] by blast
  have "i < length xs" using assms(4) p(2) xs(1) by simp
  then have "am_hydrate_prop A d l i = Ok (ms ! i)"
    using assms(1) xs p(2) \<open>i < length xs\<close> unfolding doc_laws_def by fastforce
  moreover have "get_peer_list A d p = Ok (Some (MessageListId l))"
    using assms(1) root p(1) by (simp add: get_peer_list_def doc_laws_def Let_def)
  ultimately show ?thesis by (intro exI [of _ "MessageListId l"]) simp
qed

lemma patch_reads:
  assumes "doc_laws A h g" "chat_objects (am_root A) (g (doc r))"
    and "peer_view (am_root A) (g (doc r)) p = Some ms" "i < length ms"
  shows "patch_message A r ((x, PropMap (peer_list_key p)) # (y, PropSeq i) # rest) = Ok [ms ! i]"
  using hydrate_view [OF assms] by (auto simp: hydrate_message_at_index_def peer_list_key_def starts_with_iff)

lemma patch_reads_message:
  assumes L: "doc_laws A h g" and C: "chat_objects (am_root A) (g (doc r))"
    and range: "\<And>p ms x y i rest. path = (x, PropMap (peer_list_key p)) # (y, PropSeq i) # rest \<Longrightarrow>
      peer_view (am_root A) (g (doc r)) p = Some ms \<Longrightarrow> i < length ms"
    and "patch_message A r path = Ok xs"
  shows "set xs \<subseteq> doc_messages A g (doc r)"
  using assms(4)
proof (cases "(A, r, path)" rule: patch_message.cases)
  case (1 A' r' x key y i rest)
  show ?thesis
  proof (cases "starts_with key LIST_PREFIX")
    case True
    then obtain p where key: "key = peer_list_key p" by (auto simp: starts_with_iff peer_list_key_def)
    show ?thesis
    proof (cases "peer_view (am_root A) (g (doc r)) p")
      case None
      obtain f where root: "g (doc r) (am_root A) = Some (MapNode f)" using C by (rule chat_objects_root)
      have "get_peer_list A (doc r) p = Ok None"
        using L None root by (simp add: get_peer_list_def doc_laws_def Let_def peer_view_def)
      then show ?thesis
        using assms(4) 1 key by (simp add: peer_list_key_def starts_with_iff)
    next
      case (Some ms)
      then have i: "i < length ms" using range 1 key by blast
      then have "xs = [ms ! i]"
        using patch_reads [OF L C Some i, of x y rest] assms(4) 1 key by (simp del: patch_message.simps)
      then show ?thesis using doc_messagesI [of A g "doc r", OF Some nth_mem [OF i]] by simp
    qed
  next
    case False
    then show ?thesis using assms(4) 1 by simp
  qed
qed simp_all

lemma map_Ok_elem: "map f xs = map Ok ys \<Longrightarrow> y \<in> set ys \<longleftrightarrow> (\<exists>x\<in>set xs. f x = Ok y)"
  by (metis (no_types, lifting) image_iff list.set_map result.inject(1))

lemma grows_kept:
  assumes "grows root old new" "peer_view root old p = Some ms" "m \<in> set ms"
  shows "\<exists>ms'. peer_view root new p = Some ms' \<and> m \<in> set ms'"
proof -
  have "m \<in> set (case_option [] id (peer_view root new p))"
    using assms unfolding grows_def by blast
  then show ?thesis by (cases "peer_view root new p") auto
qed

lemma named_new:
  assumes "named_by patches root old new" "peer_view root new p = Some ms'" "i < length ms'"
  shows "ms' ! i \<in> set (case_option [] id (peer_view root old p)) \<or>
    (\<exists>pt\<in>set patches. \<exists>x y rest. patch_path pt = (x, PropMap (peer_list_key p)) # (y, PropSeq i) # rest)"
  using assms unfolding named_by_def by blast

lemma named_range:
  assumes "named_by patches root old new" "pt \<in> set patches"
    and "patch_path pt = (x, PropMap (peer_list_key p)) # (y, PropSeq i) # rest" "peer_view root new p = Some ms'"
  shows "i < length ms'"
  using assms unfolding named_by_def by blast

lemma extracted_messages:
  assumes L: "doc_laws A h g" and P: "patch_laws A g" and C: "chat_objects (am_root A) (g d)" and M: "only_adds A g d s m"
    and rcv: "am_receive_sync A d s m = (Ok (), doc r, s', l)"
    and ext: "extract_new_messages_from_patches A r (am_make_patches A (doc r) l) = Ok ms"
  shows "chat_objects (am_root A) (g (doc r)) \<and> doc_messages A g d \<subseteq> doc_messages A g (doc r) \<and>
    set ms \<subseteq> doc_messages A g (doc r) \<and> doc_messages A g (doc r) \<subseteq> doc_messages A g d \<union> set ms"
proof -
  have G: "grows (am_root A) (g d) (g (doc r))" using M rcv unfolding only_adds_def by blast
  then have N: "named_by (am_make_patches A (doc r) l) (am_root A) (g d) (g (doc r))"
    using P rcv C unfolding patch_laws_def by blast
  have C': "chat_objects (am_root A) (g (doc r))" using G by (simp add: grows_def)
  have grow: "doc_messages A g d \<subseteq> doc_messages A g (doc r)"
    using grows_kept [OF G] unfolding doc_messages_def by blast
  let ?pts = "am_make_patches A (doc r) l"
  obtain yss where yss: "map (\<lambda>pt. patch_message A r (patch_path pt)) ?pts = map Ok yss" "set ms = set (concat yss)"
    using ext unfolding extract_new_messages_from_patches_def map_ok_Ok_iff collect_results_Ok_iff by auto
  note yss_set = map_Ok_elem [OF yss(1)]
  have "set ys \<subseteq> doc_messages A g (doc r)" if mem: "ys \<in> set yss" for ys
  proof -
    obtain pt where pt: "pt \<in> set ?pts" "patch_message A r (patch_path pt) = Ok ys"
      using mem unfolding yss_set by blast
    show ?thesis
      by (rule patch_reads_message [OF L C' _ pt(2)]) (rule named_range [OF N pt(1)])
  qed
  then have "set ms \<subseteq> doc_messages A g (doc r)" unfolding yss(2) by auto
  moreover have "x \<in> doc_messages A g d \<union> set ms" if "x \<in> doc_messages A g (doc r)" for x
  proof -
    obtain p ms' i where x: "peer_view (am_root A) (g (doc r)) p = Some ms'" "i < length ms'" "x = ms' ! i"
      using \<open>x \<in> doc_messages A g (doc r)\<close> by (auto simp: doc_messages_def in_set_conv_nth)
    from named_new [OF N x(1,2)] consider "x \<in> set (case_option [] id (peer_view (am_root A) (g d) p))"
      | pt a b rest where "pt \<in> set ?pts" "patch_path pt = (a, PropMap (peer_list_key p)) # (b, PropSeq i) # rest"
      unfolding x(3) by blast
    then show ?thesis
    proof cases
      case 1
      then show ?thesis by (cases "peer_view (am_root A) (g d) p") (auto simp: doc_messages_def)
    next
      case 2
      then have "patch_message A r (patch_path pt) = Ok [x]"
        using patch_reads [OF L C' x(1,2), of a b rest] x(3) by simp
      then have "[x] \<in> set yss" unfolding yss_set using 2(1) by blast
      then show ?thesis using yss(2) by (force intro: UnI2)
    qed
  qed
  ultimately show ?thesis using C' grow by blast
qed

text \<open>
  What the two operations of the repository that change the document bring: the messages that are
  handed out are exactly the news.
\<close>

definition brings ::
  "('d, 't, 'o, 'h, 's, 'm, 'l) automerge \<Rightarrow> ('d \<Rightarrow> 'o objects) \<Rightarrow> 'd \<Rightarrow> 'd \<Rightarrow> chat_message set \<Rightarrow> bool" where
  "brings A g d d' S \<longleftrightarrow> chat_objects (am_root A) (g d') \<and> doc_messages A g d' = doc_messages A g d \<union> S"

lemma persist_doc: "persist_chat A env show_id (r, p) = (y, (r', p')) \<Longrightarrow> doc r' = doc r"
  by (auto simp: persist_chat_def Let_def split: if_splits prod.splits result.splits)

lemma received_messages:
  assumes "doc_laws A h g" "patch_laws A g" "chat_objects (am_root A) (g (doc r))"
    and "receive_sync_message A env show_id m (r, p) = (Ok (ms, answer), (r', p'))"
    and "\<And>x. m = Some x \<Longrightarrow> only_adds A g (doc r) (sync_state r) x"
  shows "brings A g (doc r) (doc r') (set ms)"
proof -
  obtain r1 p1 where r1: "receive_changes A env show_id m (r, p) = (Ok ms, (r1, p1))" "doc r' = doc r1"
    using assms(4) generate_sync_message_keeps
    unfolding receive_sync_message_def io_bind_Ok_iff by (fastforce split: prod.splits)
  show ?thesis
  proof (cases m)
    case None
    then show ?thesis using r1 assms(3) by (auto simp: brings_def receive_changes_def io_return_def)
  next
    case (Some x)
    obtain d s l r2 p2 u where run: "am_receive_sync A (doc r) (sync_state r) x = (Ok (), d, s, l)"
      "persist_chat A env show_id (r\<lparr>doc := d, sync_state := s\<rparr>, p) = (Ok u, (r1, p1))"
      "extract_new_messages_from_patches A r1 (am_make_patches A (doc r1) l) = Ok ms"
      using r1(1) Some by (fastforce simp: receive_changes_def io_bind_Ok_iff split: prod.splits result.splits)
    then have "doc r1 = d" using persist_doc by fastforce
    then show ?thesis
      using extracted_messages [OF assms(1,2,3) assms(5) [OF Some], of r1 s l ms] run r1(2)
      unfolding brings_def by auto
  qed
qed

lemma doc_messages_update:
  assumes "peer_view (am_root A) (g d') = (peer_view (am_root A) (g d))
       (p \<mapsto> case_option [] id (peer_view (am_root A) (g d) p) @ [m])"
  shows "doc_messages A g d' = doc_messages A g d \<union> {m}"
proof -
  let ?u = "\<lambda>v q. set (case_option [] id (v q))"
  have all: "doc_messages A g e = (\<Union>q. ?u (peer_view (am_root A) (g e)) q)" for e
    by (auto simp: doc_messages_def split: option.splits) metis+
  have "(\<Union>q. ?u (v(p \<mapsto> case_option [] id (v p) @ [m])) q) = insert m (\<Union>q. ?u v q)" for v :: "string \<rightharpoonup> chat_message list"
    by (auto simp: if_distrib cong: if_cong split: if_splits)
  then show ?thesis unfolding all assms by blast
qed

lemma added_messages:
  assumes "tx_laws A h" "doc_laws A h g" "chat_objects (am_root A) (g (doc r))"
    and "add_message A env show_id now i c (r, p) = (Ok (x, sm), (r', p'))"
  shows "brings A g (doc r) (doc r') {x}"
proof -
  let ?me = "show_id (my_id (repo_chat_id r))"
  let ?m = "\<lparr>msg_id = i, sender_node_id = ?me, content = c, created_at = now, updated_at = now\<rparr>"
  obtain d' where d': "transact A (io_bind (ensure_peer_list A ?me) (\<lambda>l. append_message A l ?m)) (doc r)
      = (Ok (), d')" "chat_objects (am_root A) (g d')"
    "peer_view (am_root A) (g d') = (peer_view (am_root A) (g (doc r)))
       (?me \<mapsto> case_option [] id (peer_view (am_root A) (g (doc r)) ?me) @ [?m])"
    by (rule store_message_view [OF assms(1-3)])
  then show ?thesis
    using add_message_doc [OF assms(4) d'(1)] doc_messages_update [OF d'(3)] by (simp add: brings_def)
qed

section \<open>Following a manager\<close>

text \<open>
  What an application sees of its manager: the calls to its receiver, and the answers to its
  requests. A message that it sent itself comes back as an answer, and is merged the same way.
\<close>

fun take_event :: "nat \<Rightarrow> ui_call + reply \<Rightarrow> state_receiver \<Rightarrow> state_receiver" where
  "take_event k (Inl c) w = take_call k c w"
| "take_event k (Inr (ReplySingle t (Ok m))) w = process_messages [m] w"
| "take_event k (Inr _) w = w"

fun told :: "nat \<Rightarrow> ui_call + reply \<Rightarrow> chat_message set" where
  "told k (Inl (ProcessMessages j ms)) = (if j = k then set ms else {})"
| "told k (Inr (ReplySingle t (Ok m))) = {m}"
| "told k _ = {}"

definition in_order :: "state_receiver \<Rightarrow> bool" where
  "in_order w \<longleftrightarrow> sorted (map message_key (all_msgs w)) \<and> distinct (map msg_id (all_msgs w))"

lemma process_messages_in_order: "distinct (map msg_id (all_msgs w)) \<Longrightarrow> in_order (process_messages ms w)"
  by (simp add: in_order_def process_messages_def distinct_push_new)

lemma set_process_messages:
  assumes "inj_on msg_id S" "set ms \<subseteq> S" "set (all_msgs w) \<subseteq> S"
  shows "set (all_msgs (process_messages ms w)) = set (all_msgs w) \<union> set ms"
  using set_push_new [OF assms] by (simp add: process_messages_def)

lemma other_calls [simp]:
  "all_msgs (process_connection_state st w) = all_msgs w" "all_msgs (process_sync_status b w) = all_msgs w"
  by (simp_all add: process_connection_state_def process_sync_status_def)

lemma take_event_set:
  assumes "inj_on msg_id S" "told k e \<subseteq> S" "set (all_msgs w) \<subseteq> S" "in_order w"
  shows "set (all_msgs (take_event k e w)) = set (all_msgs w) \<union> told k e \<and> in_order (take_event k e w)"
proof -
  have keep: "in_order (process_messages ms w)" for ms
    using assms(4) process_messages_in_order by (simp add: in_order_def)
  have same: "in_order (process_connection_state st w)" "in_order (process_sync_status b w)" for st b
    using assms(4) by (simp_all add: in_order_def)
  show ?thesis
    using assms keep same set_process_messages [OF assms(1) _ assms(3)]
    by (cases "(k, e)" rule: told.cases) auto
qed

lemma take_events_set:
  assumes "inj_on msg_id S" "\<Union> (told k ` set evs) \<subseteq> S" "set (all_msgs w) \<subseteq> S" "in_order w"
  shows "set (all_msgs (fold (take_event k) evs w)) = set (all_msgs w) \<union> \<Union> (told k ` set evs) \<and>
    in_order (fold (take_event k) evs w)"
  using assms(2-)
proof (induction evs arbitrary: w)
  case (Cons e evs)
  have "set (all_msgs (take_event k e w)) = set (all_msgs w) \<union> told k e" "in_order (take_event k e w)"
    using take_event_set [OF assms(1), of k e w] Cons.prems by auto
  then show ?case using Cons.IH [of "take_event k e w"] Cons.prems by auto
qed simp

text \<open>
  The manager \<open>b\<close> that came out of \<open>a\<close> has told the receiver \<open>k\<close> and its callers exactly what is
  new in the document.
\<close>

definition tells ::
  "('d, 't, 'o, 'h, 's, 'm, 'l) automerge \<Rightarrow> ('d \<Rightarrow> 'o objects) \<Rightarrow> nat
     \<Rightarrow> ('id, 'd, 'h, 's) manager_actor \<Rightarrow> ('id, 'd, 'h, 's) manager_actor \<Rightarrow> bool" where
  "tells A g k a b \<longleftrightarrow>
     (\<exists>cs rs. ui_calls b = ui_calls a @ cs \<and> replies b = replies a @ rs \<and>
        brings A g (doc (mgr_doc a)) (doc (mgr_doc b)) (\<Union> (told k ` (Inl ` set cs \<union> Inr ` set rs))))"

lemma tells_chat: "tells A g k a b \<Longrightarrow> chat_objects (am_root A) (g (doc (mgr_doc b)))"
  by (auto simp: tells_def brings_def)

lemma tells_trans:
  assumes "tells A g k a b" "tells A g k b c"
  shows "tells A g k a c"
proof -
  obtain cs rs where 1: "ui_calls b = ui_calls a @ cs" "replies b = replies a @ rs"
    "brings A g (doc (mgr_doc a)) (doc (mgr_doc b)) (\<Union> (told k ` (Inl ` set cs \<union> Inr ` set rs)))"
    using assms(1) unfolding tells_def by blast
  obtain cs' rs' where 2: "ui_calls c = ui_calls b @ cs'" "replies c = replies b @ rs'"
    "brings A g (doc (mgr_doc b)) (doc (mgr_doc c)) (\<Union> (told k ` (Inl ` set cs' \<union> Inr ` set rs')))"
    using assms(2) unfolding tells_def by blast
  show ?thesis
    unfolding tells_def using 1 2 by (intro exI [of _ "cs @ cs'"] exI [of _ "rs @ rs'"]) (auto simp: brings_def)
qed

text \<open>Most handlers leave the document alone and hand out no message.\<close>

lemma tells_nothing:
  assumes "chat_objects (am_root A) (g (doc (mgr_doc a)))" "doc (mgr_doc b) = doc (mgr_doc a)"
    and "ui_calls b = ui_calls a @ cs" "replies b = replies a @ rs"
    and "\<forall>c\<in>set cs. told k (Inl c) = {}" "\<forall>r\<in>set rs. told k (Inr r) = {}"
  shows "tells A g k a b"
  unfolding tells_def brings_def using assms by (intro exI [of _ cs] exI [of _ rs]) auto

lemma tells_same:
  "chat_objects (am_root A) (g (doc (mgr_doc a))) \<Longrightarrow> doc (mgr_doc b) = doc (mgr_doc a) \<Longrightarrow>
     ui_calls b = ui_calls a \<Longrightarrow> replies b = replies a \<Longrightarrow> tells A g k a b"
  by (rule tells_nothing [where cs = "[]" and rs = "[]"]) simp_all

lemma sync_now_doc [simp]: "doc (mgr_doc (sync_now L env a)) = doc (mgr_doc a)"
  using generate_sync_message_keeps by (auto simp: sync_now_def mgr_generate_sync_def split: prod.splits)

lemma tick_tells:
  "chat_objects (am_root A) (g (doc (mgr_doc a))) \<Longrightarrow> tells A g k a (handle_tick L env a)"
  by (rule tells_same) (auto simp: handle_tick_def split: chat_connection_state.splits)

lemma sync_status_tells:
  assumes "chat_objects (am_root A) (g (doc (mgr_doc a)))"
  shows "tells A g k a (handle_sync_status a)"
  by (rule tells_nothing [where rs = "[]"
        and cs = "case msg_receiver a of Some j \<Rightarrow> [ProcessSyncStatus j (watch_value (sync_status_tx (mgr_doc a)))] | None \<Rightarrow> []"])
    (use assms in \<open>auto simp: handle_sync_status_def Let_def split: option.splits\<close>)

lemma conn_changed_tells:
  assumes "chat_objects (am_root A) (g (doc (mgr_doc a)))"
  shows "tells A g k a (handle_conn_changed L env a)"
  by (rule tells_nothing [where rs = "[]"
        and cs = "case msg_receiver a of Some j \<Rightarrow> [ProcessConnectionState j
          (uniffi_state_from (lib_uuid_text L) (watch_value (state_notifier (mgr_conn a))))] | None \<Rightarrow> []"])
    (use assms in \<open>auto simp: handle_conn_changed_def handle_connection_state_change_def announce_state_def Let_def
        reset_sync_state_def split: option.splits chat_connection_state.splits\<close>)

lemma subscription_tells:
  assumes "chat_objects (am_root A) (g (doc (mgr_doc a)))"
  shows "tells A g k a (snd (handle_subscription L env (Some m) a))"
  by (rule tells_nothing [where rs = "if env_reply_open env then [ReplySubscribe (sub_tx m)] else []"
        and cs = "[ProcessSyncStatus (sub_receiver m) (watch_value (sync_status_tx (mgr_doc a))),
          ProcessConnectionState (sub_receiver m)
            (uniffi_state_from (lib_uuid_text L) (watch_value (state_notifier (mgr_conn a))))]"])
    (use assms in \<open>auto simp: handle_subscription_def Let_def\<close>)

text \<open>The two handlers that change the document.\<close>

lemma outgoing_tells:
  assumes L: "tx_laws (lib_am L) h" "doc_laws (lib_am L) h g"
    and C: "chat_objects (am_root (lib_am L)) (g (doc (mgr_doc a)))"
    and run: "handle_outgoing_message L env (Some m) a = (MgrRunning, b)"
    and ok: "\<And>c t. m = Single c t \<Longrightarrow> is_ok (fst (add_message (lib_am L) (env_sql env) (lib_show_id L) (env_now env)
      (env_new_msg_id env) c (mgr_doc a, mgr_pool a)))"
  shows "tells (lib_am L) g k a b"
proof (cases m)
  case (Single c t)
  obtain x sm r' p' where add: "add_message (lib_am L) (env_sql env) (lib_show_id L) (env_now env)
      (env_new_msg_id env) c (mgr_doc a, mgr_pool a) = (Ok (x, sm), (r', p'))"
    using ok [OF Single] by (metis is_ok.elims(2) prod.exhaust_sel)
  then have "ui_calls b = ui_calls a @ []" "replies b = replies a @ [ReplySingle t (Ok x)]" "mgr_doc b = r'"
    using run Single by (auto simp: handle_outgoing_message_def with_repo_def Let_def split: if_splits)
  then show ?thesis
    unfolding tells_def using added_messages [OF L C add]
    by (intro exI [of _ "[]"] exI [of _ "[ReplySingle t (Ok x)]"]) simp
next
  case (All t)
  then obtain res where "b = a\<lparr>replies := replies a @ [ReplyAll t res]\<rparr>"
    using run by (auto simp: handle_outgoing_message_def split: may_panic.splits if_splits)
  then show ?thesis
    by (intro tells_nothing [where cs = "[]" and rs = "[ReplyAll t res]"]) (use C in simp_all)
next
  case (PassAcceptedConnHandle hd)
  then show ?thesis using run C by (intro tells_same) (auto simp: handle_outgoing_message_def)
qed

lemma incomming_tells:
  assumes L: "doc_laws (lib_am L) h g" "patch_laws (lib_am L) g"
    and F: "\<And>x. decode_sync L msg = Ok (Some x) \<Longrightarrow> only_adds (lib_am L) g (doc (mgr_doc a)) (sync_state (mgr_doc a)) x"
    and C: "chat_objects (am_root (lib_am L)) (g (doc (mgr_doc a)))" and k: "msg_receiver a = Some k"
    and ok: "\<And>m. decode_sync L msg = Ok m \<Longrightarrow> is_ok (fst (receive_sync_message (lib_am L) (env_sql env)
      (lib_show_id L) m (mgr_doc a, mgr_pool a)))"
  shows "tells (lib_am L) g k a (handle_incomming_message L env msg a)"
proof (cases "decode_sync L msg")
  case (Err e)
  then have "handle_incomming_message L env msg a = a"
    by (cases msg) (auto simp: decode_sync_def split: option.splits)
  then show ?thesis using C by (simp add: tells_same)
next
  case (Ok m)
  obtain ms ans r' p' where rcv: "receive_sync_message (lib_am L) (env_sql env) (lib_show_id L) m
      (mgr_doc a, mgr_pool a) = (Ok (ms, ans), (r', p'))"
    using ok [OF Ok] by (metis is_ok.elims(2) prod.exhaust_sel)
  let ?cs = "if ms = [] then [] else [ProcessMessages k ms]"
  have "ui_calls (handle_incomming_message L env msg a) = ui_calls a @ ?cs \<and>
      mgr_doc (handle_incomming_message L env msg a) = r'"
    using Ok rcv k
    by (cases msg) (auto simp: decode_sync_def with_repo_def deliver_messages_def Let_def split: option.splits)
  then show ?thesis
    unfolding tells_def using received_messages [OF L C rcv] F Ok
    by (intro exI [of _ ?cs] exI [of _ "[]"]) auto
qed

lemma receive_tells:
  assumes L: "doc_laws (lib_am L) h g" "patch_laws (lib_am L) g"
    and F: "\<And>msg x. incoming = Some msg \<Longrightarrow> decode_sync L msg = Ok (Some x) \<Longrightarrow>
      only_adds (lib_am L) g (doc (mgr_doc a)) (sync_state (mgr_doc a)) x"
    and C: "chat_objects (am_root (lib_am L)) (g (doc (mgr_doc a)))" and k: "msg_receiver a = Some k"
    and ok: "\<And>msg m. incoming = Some msg \<Longrightarrow> decode_sync L msg = Ok m \<Longrightarrow>
      is_ok (fst (receive_sync_message (lib_am L) (env_sql env) (lib_show_id L) m (mgr_doc a, mgr_pool a)))"
  shows "tells (lib_am L) g k a (handle_receive L env incoming a)"
proof -
  obtain x c where r: "receive incoming (mgr_conn a) = (x, c)" by fastforce
  let ?a = "a\<lparr>mgr_conn := c\<rparr>"
  have same: "tells (lib_am L) g k a ?a" using C by (intro tells_same) simp_all
  show ?thesis
  proof (cases x)
    case None
    then show ?thesis using same r by (simp add: handle_receive_def)
  next
    case (Some msg)
    then have "incoming = Some msg"
      using r by (auto simp: receive_def receive_finish_def split: option.splits if_splits)
    then have "tells (lib_am L) g k ?a (handle_incomming_message L env msg ?a)"
      using ok C k F by (intro incomming_tells [OF L]) simp_all
    then show ?thesis using tells_trans [OF same] r Some by (simp add: handle_receive_def)
  qed
qed

text \<open>
  Nothing fails in a turn: a message that is to be added is stored, and a sync message that can be
  decoded is taken in.
\<close>

definition nothing_fails ::
  "('id::linorder, 'd, 't, 'o, 'h, 's, 'm, 'l) chat_lib \<Rightarrow> turn_env \<Rightarrow> ('id, 'd, 'h, 's) manager_actor \<Rightarrow> bool" where
  "nothing_fails L env a \<longleftrightarrow>
     (case in_queue a of
        Single c t # _ \<Rightarrow>
          is_ok (fst (add_message (lib_am L) (env_sql env) (lib_show_id L) (env_now env) (env_new_msg_id env) c
            (mgr_doc a, mgr_pool a)))
      | _ \<Rightarrow> True) \<and>
     (case env_incoming env of
        Some (Some msg) \<Rightarrow>
          (case decode_sync L msg of
             Ok m \<Rightarrow> is_ok (fst (receive_sync_message (lib_am L) (env_sql env) (lib_show_id L) m (mgr_doc a, mgr_pool a)))
           | Err _ \<Rightarrow> True)
      | _ \<Rightarrow> True)"

text \<open>The peer is friendly: what is heard of it only adds to the document.\<close>

definition friendly ::
  "('id, 'd, 't, 'o, 'h, 's, 'm, 'l) chat_lib \<Rightarrow> ('d \<Rightarrow> 'o objects) \<Rightarrow> turn_env \<Rightarrow> ('id, 'd, 'h, 's) manager_actor \<Rightarrow> bool" where
  "friendly L g env a \<longleftrightarrow>
     (\<forall>msg m. env_incoming env = Some (Some msg) \<longrightarrow> decode_sync L msg = Ok (Some m) \<longrightarrow>
        only_adds (lib_am L) g (doc (mgr_doc a)) (sync_state (mgr_doc a)) m)"

lemma tells_queue:
  assumes "tells A g k (a\<lparr>in_queue := q, subscribe_queue := q'\<rparr>) b"
  shows "tells A g k a b"
  using assms by (simp add: tells_def)

lemma turn_tells:
  assumes L: "tx_laws (lib_am L) h" "doc_laws (lib_am L) h g" "patch_laws (lib_am L) g"
    and C: "chat_objects (am_root (lib_am L)) (g (doc (mgr_doc a)))" and k: "env_incoming env \<noteq> None \<Longrightarrow> msg_receiver a = Some k"
    and run: "manager_turn L env a = (MgrRunning, b)" and ok: "nothing_fails L env a" "friendly L g env a"
  shows "tells (lib_am L) g k a b"
proof -
  have sub: "tells (lib_am L) g k a (snd (handle_subscription L env (Some m) (a\<lparr>subscribe_queue := q\<rparr>)))" for m q
    using subscription_tells [of "lib_am L" g "a\<lparr>subscribe_queue := q\<rparr>" k L env m] C
    by (intro tells_queue [where a = a and q = "in_queue a" and q' = q]) simp
  have out: "tells (lib_am L) g k a b"
    if "in_queue a = m # ms" "handle_outgoing_message L env (Some m) (a\<lparr>in_queue := ms\<rparr>) = (MgrRunning, b)" for m ms
    by (rule tells_queue [where a = a and q = ms and q' = "subscribe_queue a"], rule outgoing_tells [OF L(1,2), of _ env m])
      (use that C ok(1) in \<open>auto simp: nothing_fails_def\<close>)
  have rcv: "tells (lib_am L) g k a (handle_receive L env incoming a)" if "env_incoming env = Some incoming" for incoming
    using that ok k by (intro receive_tells [OF L(2,3) _ C]) (auto simp: nothing_fails_def friendly_def)
  have rest: "tells (lib_am L) g k a (handle_tick L env a)" "tells (lib_am L) g k a (handle_sync_status a)"
    "tells (lib_am L) g k a (handle_conn_changed L env a)" "tells (lib_am L) g k a a"
    using C by (simp_all add: tick_tells sync_status_tells conn_changed_tells tells_same)
  show ?thesis
    using run sub out rcv rest
    by (auto simp: manager_turn_def handle_outgoing_message_def [of L env None] handle_subscription_def [of L env None]
        case_prod_unfold split: if_splits list.splits option.splits)
qed

text \<open>
  The manager with a subscribed receiver: turns in which nothing fails and the peer only adds to the
  document, the tasks of the connection in the background, and requests of the application.
\<close>

inductive follow_move ::
  "('id::linorder, 'd, 't, 'o, 'h, 's, 'm, 'l) chat_lib \<Rightarrow> ('d \<Rightarrow> 'o objects) \<Rightarrow> nat \<Rightarrow> ('id, 'd, 'h, 's) manager_actor
     \<Rightarrow> ('id, 'd, 'h, 's) manager_actor \<Rightarrow> bool" for L g k where
  follow_turn: "msg_receiver a = Some k \<Longrightarrow> nothing_fails L env a \<Longrightarrow> friendly L g env a \<Longrightarrow>
     foreign (chat_id_display (lib_show_id L) (repo_chat_id (mgr_doc a))) (env_sql env) \<Longrightarrow>
     manager_turn L env a = (MgrRunning, b) \<Longrightarrow> follow_move L g k a b"
| follow_background: "conn_step (mgr_conn a) e c \<Longrightarrow> background e \<Longrightarrow> follow_move L g k a (a\<lparr>mgr_conn := c\<rparr>)"
| follow_request: "follow_move L g k a (a\<lparr>in_queue := in_queue a @ [m]\<rparr>)"
| follow_subscribe: "follow_move L g k a (a\<lparr>subscribe_queue := subscribe_queue a @ [sub]\<rparr>)"

lemma follow_is_move: "follow_move L g k a b \<Longrightarrow> mgr_move L a b"
  by (induction rule: follow_move.induct) (metis mgr_turn snd_conv, auto intro: mgr_move.intros)

lemma follow_tells:
  assumes L: "tx_laws (lib_am L) h" "doc_laws (lib_am L) h g" "patch_laws (lib_am L) g"
    and C: "chat_objects (am_root (lib_am L)) (g (doc (mgr_doc a)))" and steps: "(follow_move L g k)\<^sup>*\<^sup>* a b"
  shows "tells (lib_am L) g k a b"
  using steps
proof (induction rule: rtranclp_induct)
  case base
  then show ?case using C by (simp add: tells_same)
next
  case (step b c)
  note chat = tells_chat [OF step.IH]
  have "tells (lib_am L) g k b c"
    using step.hyps(2)
    by (cases rule: follow_move.cases) (use chat in \<open>auto intro: turn_tells [OF L chat] tells_same\<close>)
  then show ?case using tells_trans [OF step.IH] by blast
qed

text \<open>The order in which calls and answers are seen does not matter for what was told.\<close>

lemma events_calls:
  assumes "evs \<in> shuffles (map Inl cs) (map Inr rs)"
  shows "map projl (filter isl evs) = cs" "set evs = Inl ` set cs \<union> Inr ` set rs"
proof -
  have "filter isl evs \<in> shuffles (filter isl (map Inl cs)) (filter isl (map Inr rs))"
    using assms filter_shuffles [of isl "map Inl cs" "map Inr rs"] by blast
  then have "filter isl evs = map Inl cs" by (simp add: comp_def)
  then show "map projl (filter isl evs) = cs" by (simp add: comp_def)
  show "set evs = Inl ` set cs \<union> Inr ` set rs" using set_shuffles [OF assms] by simp
qed

lemma take_event_watchers:
  "Some (watch_value (conn_state_watcher (take_event k e w))) =
     (case e of Inl c \<Rightarrow> told_state k c (Some (watch_value (conn_state_watcher w)))
      | Inr _ \<Rightarrow> Some (watch_value (conn_state_watcher w)))"
  "Some (watch_value (sync_status_watcher (take_event k e w))) =
     (case e of Inl c \<Rightarrow> told_sync k c (Some (watch_value (sync_status_watcher w)))
      | Inr _ \<Rightarrow> Some (watch_value (sync_status_watcher w)))"
  by (cases "(k, e)" rule: told.cases;
      simp add: process_messages_def process_connection_state_def process_sync_status_def send_modify_def)+

lemma take_events_watchers:
  "fold (told_state k) (map projl (filter isl evs)) (Some (watch_value (conn_state_watcher w))) =
     Some (watch_value (conn_state_watcher (fold (take_event k) evs w)))"
  "fold (told_sync k) (map projl (filter isl evs)) (Some (watch_value (sync_status_watcher w))) =
     Some (watch_value (sync_status_watcher (fold (take_event k) evs w)))"
proof (induction evs arbitrary: w)
  case (Cons e evs)
  { case 1 show ?case using Cons(1) [of "take_event k e w"] take_event_watchers(1) [of k e w] by (cases e) simp_all }
  { case 2 show ?case using Cons(2) [of "take_event k e w"] take_event_watchers(2) [of k e w] by (cases e) simp_all }
qed simp_all

lemma shown_append:
  "shown_state k (cs @ cs') = fold (told_state k) cs' (shown_state k cs)"
  "shown_sync k (cs @ cs') = fold (told_sync k) cs' (shown_sync k cs)"
  by (simp_all add: shown_state_def shown_sync_def)

text \<open>A receiver that has all messages and has taken the calls so far.\<close>

definition up_to_date ::
  "build \<Rightarrow> ('id, 'd, 't, 'o, 'h, 's, 'm, 'l) chat_lib \<Rightarrow> nat \<Rightarrow> ('id, 'd, 'h, 's) manager_actor \<Rightarrow> state_receiver \<Rightarrow> bool" where
  "up_to_date v L k a w \<longleftrightarrow>
     get_all_messages v (lib_am L) (mgr_doc a) = Return (Ok (all_msgs w)) \<and>
     shown_state k (ui_calls a) = Some (watch_value (conn_state_watcher w)) \<and>
     shown_sync k (ui_calls a) = Some (watch_value (sync_status_watcher w))"

lemma stays_up_to_date:
  assumes L: "tx_laws (lib_am L) h" "doc_laws (lib_am L) h g" "patch_laws (lib_am L) g"
    and C: "chat_objects (am_root (lib_am L)) (g (doc (mgr_doc a)))" and steps: "(follow_move L g k)\<^sup>*\<^sup>* a b"
    and size: "size (view_messages (peer_view (am_root (lib_am L)) (g (doc (mgr_doc a))))) < usize_max"
      "size (view_messages (peer_view (am_root (lib_am L)) (g (doc (mgr_doc b))))) < usize_max"
    and w: "up_to_date v L k a w" "distinct (map msg_id (all_msgs w))"
    and vs: "get_all_messages v (lib_am L) (mgr_doc b) = Return (Ok vs)" "distinct (map msg_id vs)"
    and evs: "evs \<in> shuffles (map Inl (drop (length (ui_calls a)) (ui_calls b)))
      (map Inr (drop (length (replies a)) (replies b)))"
  shows "up_to_date v L k b (fold (take_event k) evs w)"
proof -
  let ?A = "lib_am L" and ?w = "fold (take_event k) evs w"
  obtain cs rs where t: "ui_calls b = ui_calls a @ cs" "replies b = replies a @ rs"
    "chat_objects (am_root ?A) (g (doc (mgr_doc b)))"
    "doc_messages ?A g (doc (mgr_doc b)) =
       doc_messages ?A g (doc (mgr_doc a)) \<union> \<Union> (told k ` (Inl ` set cs \<union> Inr ` set rs))"
    using follow_tells [OF L C steps] unfolding tells_def brings_def by blast
  have ev: "map projl (filter isl evs) = cs" "set evs = Inl ` set cs \<union> Inr ` set rs"
    using events_calls [OF evs] t(1,2) by simp_all
  have us: "sorted (map message_key (all_msgs w))" "set (all_msgs w) = doc_messages ?A g (doc (mgr_doc a))"
    using all_messages_of_doc [OF L(2) C size(1), of v] w(1) by (auto simp: up_to_date_def)
  have vs': "sorted (map message_key vs)" "set vs = doc_messages ?A g (doc (mgr_doc b))"
    using all_messages_of_doc [OF L(2) t(3) size(2), of v] vs(1) by auto
  have all: "set vs = set (all_msgs w) \<union> \<Union> (told k ` set evs)" using vs'(2) us(2) t(4) ev(2) by simp
  have "inj_on msg_id (set vs)" using vs(2) by (simp add: distinct_map)
  then have "set (all_msgs ?w) = set vs" "in_order ?w"
    using take_events_set [of "set vs" k evs w] all us(1) w(2) by (simp_all add: in_order_def)
  then have "all_msgs ?w = vs"
    using vs'(1) vs(2) by (intro ordered_messages_unique) (simp_all add: in_order_def)
  then show ?thesis
    using vs(1) w(1) take_events_watchers [of k evs w] ev(1) by (simp add: up_to_date_def shown_append t(1))
qed

text \<open>
  C11: A receiver that is subscribed and merges what it is handed never falls behind: as long as
  nothing fails and the sync messages of the peer only add messages to the chat, after any number of turns of the manager, sync messages, own messages, changes of the
  connection and requests in between, and in whatever order calls and answers are seen, it shows
  exactly the messages of the document, each once and in order, and once the manager has no unseen
  change, the published connection state and sync status.
\<close>

theorem receiver_never_falls_behind:
  assumes "tx_laws (lib_am L) h" "doc_laws (lib_am L) h g" "patch_laws (lib_am L) g"
    and "reach (mgr_init L) (mgr_move L) a" "chat_objects (am_root (lib_am L)) (g (doc (mgr_doc a)))"
    and "(follow_move L g k)\<^sup>*\<^sup>* a b" "msg_receiver b = Some k"
    and "size (view_messages (peer_view (am_root (lib_am L)) (g (doc (mgr_doc a))))) < usize_max"
      "size (view_messages (peer_view (am_root (lib_am L)) (g (doc (mgr_doc b))))) < usize_max"
    and "up_to_date v L k a w" "distinct (map msg_id (all_msgs w))"
    and "get_all_messages v (lib_am L) (mgr_doc b) = Return (Ok vs)" "distinct (map msg_id vs)"
    and "evs \<in> shuffles (map Inl (drop (length (ui_calls a)) (ui_calls b)))
      (map Inr (drop (length (replies a)) (replies b)))"
  shows "all_msgs (fold (take_event k) evs w) = vs \<and>
    (\<not> conn_unseen b \<longrightarrow> watch_value (conn_state_watcher (fold (take_event k) evs w)) =
       uniffi_state_from (lib_uuid_text L) (watch_value (state_notifier (mgr_conn b)))) \<and>
    (\<not> sync_unseen b \<longrightarrow> watch_value (sync_status_watcher (fold (take_event k) evs w)) =
       watch_value (sync_status_tx (mgr_doc b)))"
proof -
  have "(mgr_move L)\<^sup>*\<^sup>* a b" by (rule mono_rtranclp [rule_format, OF _ assms(6)]) (rule follow_is_move)
  then have inv: "ui_inv L b" by (rule mgr_ui.reach_inv [OF reach_steps [OF _ assms(4)]])
  have "up_to_date v L k b (fold (take_event k) evs w)"
    by (rule stays_up_to_date [OF assms(1-3,5,6,8-14)])
  then show ?thesis using inv assms(7,12) unfolding ui_inv_def up_to_date_def by simp
qed

section \<open>A library that hands over single messages\<close>

definition post_am :: "(ref_doc, ref_doc, nat, unit, unit, string \<times> chat_message, string) automerge" where
  "post_am =
     \<lparr>am_root = 0, am_new = [(0, RefMap [])],
      am_load = (\<lambda>_. Ok [(0, RefMap [])]), am_save = (\<lambda>_. []), am_save_after = (\<lambda>_ _. []),
      am_load_incremental = (\<lambda>_ _. Err ''unsupported''), am_get_heads = (\<lambda>_. []),
      am_keys = ref_keys, am_get = (\<lambda>d i k. Ok (map_entries (ref_objects d i) k)),
      am_length = ref_length, am_hydrate_prop = ref_hydrate,
      tx_begin = (\<lambda>d. d), tx_commit = (\<lambda>t. t),
      tx_get = (\<lambda>d i k. Ok (map_entries (ref_objects d i) k)), tx_length = ref_length,
      tx_put_object = ref_put_object, tx_insert_object = ref_insert_object, tx_put = ref_put,
      tx_reconcile_init = (\<lambda>c. ref_put 0 ''chat_id'' (ScalarStr c)),
      am_sync_new = (),
      am_receive_sync = (\<lambda>d s (p, m).
        case transact ref_am (io_bind (ensure_peer_list ref_am p) (\<lambda>l. append_message ref_am l m)) d of
          (Ok _, d') \<Rightarrow> (Ok (), d', s, p) | (Err e, d') \<Rightarrow> (Err ''not a chat'', d', s, p)),
      am_make_patches = (\<lambda>d p. case peer_view 0 (ref_objects d) p of
        Some ms \<Rightarrow> [\<lparr>patch_path = [(0, PropMap (peer_list_key p)), (0, PropSeq (length ms - 1))]\<rparr>] | None \<Rightarrow> []),
      am_generate_sync = (\<lambda>d s. (None, s))\<rparr>"

lemma post_am_tx_laws: "tx_laws post_am ref_objects"
  using ref_am_tx_laws by (simp add: tx_laws_def ref_am_def post_am_def)

lemma post_am_doc_laws: "doc_laws post_am ref_objects ref_objects"
  using ref_am_doc_laws
  by (simp add: doc_laws_def ref_am_def post_am_def del: ref_keys.simps ref_length.simps ref_hydrate.simps)

lemma post_am_receive:
  assumes rcv: "am_receive_sync post_am d s m = (Ok (), d', s', l)"
    and C: "chat_objects (am_root post_am) (ref_objects d)"
  shows "grows (am_root post_am) (ref_objects d) (ref_objects d')"
    "named_by (am_make_patches post_am d' l) (am_root post_am) (ref_objects d) (ref_objects d')"
proof -
  obtain p x where m: "m = (p, x)" by fastforce
  have root: "am_root post_am = 0" "am_root ref_am = 0" by (simp_all add: post_am_def ref_am_def)
  let ?v = "peer_view 0 (ref_objects d)"
  obtain e where e: "transact ref_am (io_bind (ensure_peer_list ref_am p) (\<lambda>l. append_message ref_am l x)) d = (Ok (), e)"
    "chat_objects 0 (ref_objects e)" "peer_view 0 (ref_objects e) = ?v(p \<mapsto> case_option [] id (?v p) @ [x])"
    by (rule store_message_view [OF ref_am_tx_laws ref_am_doc_laws, of d]) (use C root in simp_all)
  have "d' = e" "l = p" using rcv e(1) by (simp_all add: post_am_def m)
  then have pts: "am_make_patches post_am d' l =
      [\<lparr>patch_path = [(0, PropMap (peer_list_key p)), (0, PropSeq (length (case_option [] id (?v p))))]\<rparr>]"
    by (simp add: post_am_def e(3))
  show "grows (am_root post_am) (ref_objects d) (ref_objects d')"
    using e(2,3) \<open>d' = e\<close> root by (auto simp: grows_def split: if_splits option.splits)
  show "named_by (am_make_patches post_am d' l) (am_root post_am) (ref_objects d) (ref_objects d')"
    using e(2,3) \<open>d' = e\<close> root pts by (auto simp: named_by_def nth_append less_Suc_eq split: if_splits option.splits)
qed

lemma post_am_patch_laws: "patch_laws post_am ref_objects"
  unfolding patch_laws_def by (blast intro: post_am_receive(2))

definition post_lib :: "(nat, ref_doc, ref_doc, nat, unit, unit, string \<times> chat_message, string) chat_lib" where
  "post_lib = \<lparr>lib_am = post_am, lib_encode = (\<lambda>_. []), lib_decode = (\<lambda>_. Ok (''b'', sample_message ''z'' ''b'' 5)),
     lib_show_id = sample_show, lib_uuid_text = (\<lambda>_. ''u''), lib_build = Debug\<rparr>"

definition post_start :: "((nat, ref_doc, unit, unit) chat_repository, lib_error) result \<times> pool" where
  "post_start = new_repository post_am calm sample_show \<lparr>my_id = 3, chat_remote_id = 5\<rparr> empty_pool"

definition post_repo :: "(nat, ref_doc, unit, unit) chat_repository" where
  "post_repo = (case fst post_start of Ok r \<Rightarrow> r)"

text \<open>A manager whose receiver has just been subscribed.\<close>

definition post_manager :: "(nat, ref_doc, unit, unit) manager_actor" where
  "post_manager =
     (let a = manager_start post_lib sample_turn (new_manager post_repo (snd post_start) (new_connected 3 sample_handle))
      in snd (manager_turn post_lib sample_turn (snd (manager_turn post_lib sample_turn
           (a\<lparr>subscribe_queue := subscribe_queue a @ [\<lparr>sub_receiver = 4, sub_tx = 30\<rparr>]\<rparr>)))))"

lemma post_manager_reach: "reach (mgr_init post_lib) (mgr_move post_lib) post_manager"
proof -
  have lib: "lib_am post_lib = post_am" "lib_show_id post_lib = sample_show" by (simp_all add: post_lib_def)
  have "is_ok (fst post_start)" by code_simp
  then have "new_repository post_am calm sample_show \<lparr>my_id = 3, chat_remote_id = 5\<rparr> empty_pool = (Ok post_repo, snd post_start)"
    by (cases "fst post_start") (auto simp: post_repo_def simp flip: post_start_def intro: prod_eqI)
  then have "repo_init post_am sample_show (post_repo, snd post_start)"
    by (rule repo_init.intros [OF calm_foreign(1) empty_pool_fresh])
  then have "mgr_init post_lib (manager_start post_lib sample_turn
      (new_manager post_repo (snd post_start) (new_connected 3 sample_handle)))"
    by (intro mgr_init.intros) (auto simp: conn_init_def lib intro: reach_init)
  then have start: "reach (mgr_init post_lib) (mgr_move post_lib) (manager_start post_lib sample_turn
      (new_manager post_repo (snd post_start) (new_connected 3 sample_handle)))"
    by (rule reach_init)
  show ?thesis
    unfolding post_manager_def Let_def
    by (rule reach_step [OF reach_step [OF reach_step [OF start mgr_subscribe]
          mgr_turn [OF sample_turn_foreign]] mgr_turn [OF sample_turn_foreign]])
qed

text \<open>Then a message of the peer comes in, and a message is sent.\<close>

definition post_turn :: turn_env where
  "post_turn = sample_turn\<lparr>env_incoming := Some (Some (Sync (Some (SyncMessage []))))\<rparr>"

definition post_heard :: "(nat, ref_doc, unit, unit) manager_actor" where
  "post_heard = snd (manager_turn post_lib post_turn post_manager)"

definition post_spoken :: "(nat, ref_doc, unit, unit) manager_actor" where
  "post_spoken = snd (manager_turn post_lib sample_turn (post_heard\<lparr>in_queue := in_queue post_heard @ [Single (Text ''hi'') 21]\<rparr>))"

lemma repo_holds_unique:
  assumes "repo_holds A r yss" "repo_holds A r zss"
  shows "yss = zss"
proof -
  obtain ls where ls: "get_all_peer_lists A (doc r) = Ok ls"
    "map (\<lambda>l. map (am_hydrate_prop A (doc r) (list_inner l)) [0..<list_len A (doc r) l]) ls = map (map Ok) yss"
    using assms(1) unfolding repo_holds_def by blast
  then have "map (map (Ok :: chat_message \<Rightarrow> (chat_message, string) result)) zss = map (map Ok) yss"
    using assms(2) unfolding repo_holds_def by auto
  moreover have "inj (map (map (Ok :: chat_message \<Rightarrow> (chat_message, string) result)))"
    by (intro list.inj_map inj_onI) simp
  ultimately show ?thesis by (simp add: inj_eq)
qed

lemma post_calls:
  "drop (length (ui_calls post_manager)) (ui_calls post_spoken) = [ProcessMessages 4 [sample_message ''z'' ''b'' 5]]"
  "drop (length (replies post_manager)) (replies post_spoken) = [ReplySingle 21 (Ok (sample_message ''i'' ''aaa'' 7))]"
  by code_simp+

lemma post_holds:
  "repo_holds post_am (mgr_doc post_manager) []"
  "repo_holds post_am (mgr_doc post_spoken)
     [[sample_message ''i'' ''aaa'' 7], [sample_message ''z'' ''b'' 5]]"
proof -
  have "get_all_peer_lists post_am (doc (mgr_doc post_manager)) = Ok []" by code_simp
  then show "repo_holds post_am (mgr_doc post_manager) []" by (simp add: repo_holds_def)
  have "get_all_peer_lists post_am (doc (mgr_doc post_spoken)) = Ok [MessageListId 4, MessageListId 1]"
    by code_simp
  moreover have "map (\<lambda>l. map (am_hydrate_prop post_am (doc (mgr_doc post_spoken)) (list_inner l))
      [0..<list_len post_am (doc (mgr_doc post_spoken)) l]) [MessageListId 4, MessageListId 1] =
      map (map Ok) [[sample_message ''i'' ''aaa'' 7], [sample_message ''z'' ''b'' 5]]"
    by code_simp
  ultimately show "repo_holds post_am (mgr_doc post_spoken)
     [[sample_message ''i'' ''aaa'' 7], [sample_message ''z'' ''b'' 5]]"
    unfolding repo_holds_def by blast
qed

lemma post_chat: "chat_objects (am_root post_am) (ref_objects (doc (mgr_doc post_manager)))"
proof -
  have "am_root post_am = 0" "doc (mgr_doc post_manager) = [(0, RefMap [(''chat_id'', Scalar (ScalarStr ''aaa_aaaaa''), 0)]), (0, RefMap [])]"
    by code_simp+
  then show ?thesis by (intro chat_objectsI) (auto simp: peer_list_key_def LIST_PREFIX_def)
qed

lemma post_friendly: "friendly post_lib ref_objects env post_manager"
  using post_am_receive(1) [OF _ post_chat] by (simp add: friendly_def only_adds_def post_lib_def)

lemma quietly_friendly: "friendly L g sample_turn a"
  by (simp add: friendly_def sample_turn_def)

lemma post_moves: "(follow_move post_lib ref_objects 4)\<^sup>*\<^sup>* post_manager post_spoken"
proof -
  let ?c = "post_heard\<lparr>in_queue := in_queue post_heard @ [Single (Text ''hi'') 21]\<rparr>"
  have "msg_receiver post_manager = Some 4" "msg_receiver ?c = Some 4"
    "nothing_fails post_lib post_turn post_manager" "nothing_fails post_lib sample_turn ?c"
    "fst (manager_turn post_lib post_turn post_manager) = MgrRunning"
    "fst (manager_turn post_lib sample_turn ?c) = MgrRunning"
    by code_simp+
  moreover have "foreign cid (env_sql post_turn)" for cid
    using sample_turn_foreign by (simp add: post_turn_def)
  ultimately have "follow_move post_lib ref_objects 4 post_manager post_heard" "follow_move post_lib ref_objects 4 ?c post_spoken"
    using sample_turn_foreign post_friendly quietly_friendly
    by (auto intro!: follow_turn simp: post_heard_def post_spoken_def prod_eq_iff)
  then show ?thesis
    using follow_request [of post_lib ref_objects 4 post_heard "Single (Text ''hi'') 21"]
    by (meson converse_rtranclp_into_rtranclp r_into_rtranclp)
qed

lemma view_size:
  assumes "doc_laws A h g" "chat_objects (am_root A) (g (doc r))" "repo_holds A r yss"
  shows "size (view_messages (peer_view (am_root A) (g (doc r)))) = length (concat yss)"
  by (rule repo_holds_view [OF assms(1,2)]) (metis assms(3) repo_holds_unique size_mset)

theorem receiver_never_falls_behind_witness:
  "all_msgs (fold (take_event 4) [Inl (ProcessMessages 4 [sample_message ''z'' ''b'' 5]),
       Inr (ReplySingle 21 (Ok (sample_message ''i'' ''aaa'' 7)))]
       (fold (take_call 4) (ui_calls post_manager) (new_receiver []))) =
     [sample_message ''z'' ''b'' 5, sample_message ''i'' ''aaa'' 7] \<and>
   get_all_messages Debug post_am (mgr_doc post_spoken) =
     Return (Ok [sample_message ''z'' ''b'' 5, sample_message ''i'' ''aaa'' 7])"
proof -
  let ?w = "fold (take_call 4) (ui_calls post_manager) (new_receiver [])"
  let ?vs = "[sample_message ''z'' ''b'' 5, sample_message ''i'' ''aaa'' 7]"
  have lib: "lib_am post_lib = post_am" by (simp add: post_lib_def)
  note laws = post_am_tx_laws post_am_doc_laws post_am_patch_laws
  note C = post_chat
  have C': "chat_objects (am_root post_am) (ref_objects (doc (mgr_doc post_spoken)))"
    using follow_tells [OF laws [folded lib] C [folded lib] post_moves] tells_chat lib by metis
  have size: "length (concat yss) < usize_max" if "length (concat yss) \<le> 2" for yss :: "chat_message list list"
    using that by (simp add: usize_max_def)
  have "sort_key message_key (concat [[sample_message ''i'' ''aaa'' 7], [sample_message ''z'' ''b'' 5]]) = ?vs"
    by code_simp
  then have vs: "get_all_messages Debug post_am (mgr_doc post_spoken) = Return (Ok ?vs)"
    using all_messages_sorted [OF post_holds(2) size, of Debug] by simp
  have "get_all_messages Debug post_am (mgr_doc post_manager) = Return (Ok [])"
    using all_messages_sorted [OF post_holds(1) size, of Debug] by simp
  moreover have "all_msgs ?w = []" "shown_state 4 (ui_calls post_manager) = Some (watch_value (conn_state_watcher ?w))"
    "shown_sync 4 (ui_calls post_manager) = Some (watch_value (sync_status_watcher ?w))"
    by code_simp+
  ultimately have up: "up_to_date Debug post_lib 4 post_manager ?w" "distinct (map msg_id (all_msgs ?w))"
    by (simp_all add: up_to_date_def lib)
  have k: "msg_receiver post_spoken = Some 4" by code_simp
  have evs: "[Inl (ProcessMessages 4 [sample_message ''z'' ''b'' 5]), Inr (ReplySingle 21 (Ok (sample_message ''i'' ''aaa'' 7)))]
      \<in> shuffles (map Inl (drop (length (ui_calls post_manager)) (ui_calls post_spoken)))
          (map Inr (drop (length (replies post_manager)) (replies post_spoken)))"
    unfolding post_calls list.map by simp
  have "distinct (map msg_id ?vs)" by (simp add: sample_message_def)
  then show ?thesis
    using receiver_never_falls_behind [OF _ _ _ post_manager_reach _ post_moves k _ _ up _ _ evs, of ref_objects ?vs]
      laws C vs view_size [OF laws(2) C post_holds(1)] view_size [OF laws(2) C' post_holds(2)] size
    by (simp add: lib usize_max_def)
qed

end
