(* ===== verification/Scenarios.thy ===== *)
theory Scenarios
  imports Receiver Text "HOL-Library.Countable" "HOL-Library.Sublist"
begin

text \<open>
  The tests of \<^verbatim>\<open>src/persistence.rs\<close> as programs over the model of the repository. A test that
  runs against a real library and database shows that it passes there; here the tests are shown to
  pass for every document library that keeps its promises and every working database.
\<close>

section \<open>Running a test\<close>

text \<open>
  A test works on a pool of connections, may return an error with the question mark operator, and
  panics when an assertion fails.
\<close>

type_synonym 'a scenario = "pool \<Rightarrow> ('a, lib_error) result may_panic \<times> pool"

definition finish :: "'a \<Rightarrow> 'a scenario" where
  "finish x p = (Return (Ok x), p)"

definition and_next :: "'a scenario \<Rightarrow> ('a \<Rightarrow> 'b scenario) \<Rightarrow> 'b scenario" where
  "and_next m f p =
     (case m p of
        (Return (Ok x), q) \<Rightarrow> f x q
      | (Return (Err e), q) \<Rightarrow> (Return (Err e), q)
      | (Panicked, q) \<Rightarrow> (Panicked, q))"

definition call :: "(pool, 'a, lib_error) io \<Rightarrow> 'a scenario" where
  "call m p = (case m p of (x, q) \<Rightarrow> (Return x, q))"

definition call_on ::
  "('r \<times> pool, 'a, lib_error) io \<Rightarrow> 'r \<Rightarrow> ('a \<times> 'r) scenario" where
  "call_on m r p = (case m (r, p) of (x, r', q) \<Rightarrow> (Return (map_ok (\<lambda>y. (y, r')) x), q))"

definition read_off :: "('a, lib_error) result may_panic \<Rightarrow> 'a scenario" where
  "read_off x p = (x, p)"

definition assert_that :: "bool \<Rightarrow> unit scenario" where
  "assert_that b p = (if b then Return (Ok ()) else Panicked, p)"

definition text_at :: "chat_message list \<Rightarrow> nat \<Rightarrow> string \<Rightarrow> bool" where
  "text_at ms i s \<longleftrightarrow> i < length ms \<and> content (ms ! i) = Text s"

text \<open>The tables after the migrations, and the count of the rows of a log.\<close>

definition test_db :: pool where
  "test_db = \<lparr>pool_db = \<lparr>chats = [], chat_log = [], log_sequence = 0\<rparr>, pool_tick = 0\<rparr>"

definition count_log :: "string \<Rightarrow> db \<Rightarrow> (nat, lib_error) result \<times> db" where
  "count_log cid d = (Ok (length (filter (\<lambda>r. row_chat_id r = cid) (chat_log d))), d)"

section \<open>The tests\<close>

text \<open>
  The \<open>i\<close>-th message is added at the time \<open>clock i\<close> and gets the identifier \<open>ids i\<close>.
\<close>

fun add_texts ::
  "('id::linorder, 'd, 't, 'o, 'h, 's, 'm, 'l) chat_lib \<Rightarrow> sql_env \<Rightarrow> (nat \<Rightarrow> i64) \<Rightarrow> (nat \<Rightarrow> string)
     \<Rightarrow> (nat \<Rightarrow> string) \<Rightarrow> nat list \<Rightarrow> ('id, 'd, 'h, 's) chat_repository
     \<Rightarrow> ('id, 'd, 'h, 's) chat_repository scenario" where
  "add_texts L env clock ids text [] repo = finish repo"
| "add_texts L env clock ids text (i # is) repo =
     and_next (call_on (add_message (lib_am L) env (lib_show_id L) (clock i) (ids i) (Text (text i))) repo)
       (\<lambda>(_, repo). add_texts L env clock ids text is repo)"

definition test_persistence_restore ::
  "('id::linorder, 'd, 't, 'o, 'h, 's, 'm, 'l) chat_lib \<Rightarrow> sql_env \<Rightarrow> (nat \<Rightarrow> i64) \<Rightarrow> (nat \<Rightarrow> string)
     \<Rightarrow> 'id chat_id \<Rightarrow> unit scenario" where
  "test_persistence_restore L env clock ids chat_id =
     and_next (call (new_repository (lib_am L) env (lib_show_id L) chat_id)) (\<lambda>repo.
     and_next (call_on (add_message (lib_am L) env (lib_show_id L) (clock 0) (ids 0) (Text ''Hello Persistence'')) repo)
       (\<lambda>(_, repo).
     and_next (read_off (get_all_messages (lib_build L) (lib_am L) repo)) (\<lambda>msgs.
     and_next (assert_that (length msgs = 1)) (\<lambda>_.
     and_next (call (new_repository (lib_am L) env (lib_show_id L) chat_id)) (\<lambda>repo_restored.
     and_next (read_off (get_all_messages (lib_build L) (lib_am L) repo_restored)) (\<lambda>msgs.
     and_next (assert_that (length msgs = 1)) (\<lambda>_.
     and_next (assert_that (text_at msgs 0 ''Hello Persistence'')) finish)))))))"

definition test_incremental_logging ::
  "('id::linorder, 'd, 't, 'o, 'h, 's, 'm, 'l) chat_lib \<Rightarrow> sql_env \<Rightarrow> (nat \<Rightarrow> i64) \<Rightarrow> (nat \<Rightarrow> string)
     \<Rightarrow> 'id chat_id \<Rightarrow> unit scenario" where
  "test_incremental_logging L env clock ids chat_id =
     and_next (call (new_repository (lib_am L) env (lib_show_id L) chat_id)) (\<lambda>repo.
     (let limit = 3 in
     and_next (add_texts L env clock ids (\<lambda>i. ''Msg '' @ show_nat i) [0..<limit] repo) (\<lambda>_.
     and_next (call (exec env (count_log (chat_id_display (lib_show_id L) chat_id)))) (\<lambda>log_count.
     assert_that (log_count = limit)))))"

definition test_compaction_trigger ::
  "('id::linorder, 'd, 't, 'o, 'h, 's, 'm, 'l) chat_lib \<Rightarrow> sql_env \<Rightarrow> (nat \<Rightarrow> i64) \<Rightarrow> (nat \<Rightarrow> string)
     \<Rightarrow> 'id chat_id \<Rightarrow> unit scenario" where
  "test_compaction_trigger L env clock ids chat_id =
     (let limit = CHAT_LOGS_LIMIT + CHAT_LOGS_LIMIT div 2; chat_id_str = chat_id_display (lib_show_id L) chat_id in
     and_next (call (new_repository (lib_am L) env (lib_show_id L) chat_id)) (\<lambda>repo.
     and_next (add_texts L env clock ids (\<lambda>i. ''Compaction Check '' @ show_nat i) [0..<limit] repo) (\<lambda>_.
     and_next (call (exec env (count_log chat_id_str))) (\<lambda>log_count.
     and_next (assert_that (log_count = limit)) (\<lambda>_.
     and_next (call (new_repository (lib_am L) env (lib_show_id L) chat_id)) (\<lambda>repo_reloaded.
     and_next (call (exec env (count_log chat_id_str))) (\<lambda>log_count_after.
     and_next (assert_that (log_count_after = 0)) (\<lambda>_.
     and_next (read_off (get_all_messages (lib_build L) (lib_am L) repo_reloaded)) (\<lambda>all_msgs.
     assert_that (length all_msgs = limit))))))))))"

text \<open>
  Two tasks open the same chat. Each works on the database as it finds it and meets the writes of the
  other, and of whoever else, between its own statements.
\<close>

definition test_race_condition_simulation ::
  "('id::linorder, 'd, 't, 'o, 'h, 's, 'm, 'l) chat_lib \<Rightarrow> sql_env \<Rightarrow> sql_env \<Rightarrow> 'id chat_id \<Rightarrow> pool
     \<Rightarrow> (unit, lib_error) result may_panic" where
  "test_race_condition_simulation L env1 env2 chat_id pool =
     (let repo1 = fst (new_repository (lib_am L) env1 (lib_show_id L) chat_id pool);
          repo2 = fst (new_repository (lib_am L) env2 (lib_show_id L) chat_id pool)
      in if is_ok repo1 \<and> is_ok repo2 then Return (Ok ()) else Panicked)"

definition test_pagination_logic ::
  "('id::linorder, 'd, 't, 'o, 'h, 's, 'm, 'l) chat_lib \<Rightarrow> sql_env \<Rightarrow> (nat \<Rightarrow> i64) \<Rightarrow> (nat \<Rightarrow> string)
     \<Rightarrow> 'id chat_id \<Rightarrow> unit scenario" where
  "test_pagination_logic L env clock ids chat_id =
     and_next (call (new_repository (lib_am L) env (lib_show_id L) chat_id)) (\<lambda>repo.
     and_next (add_texts L env clock ids (\<lambda>i. ''Msg '' @ show_nat i) [0..<305] repo) (\<lambda>repo.
     and_next (read_off (get_messages (lib_build L) (lib_am L) repo 0 1)) (\<lambda>latest.
     and_next (assert_that (length latest = 1)) (\<lambda>_.
     and_next (assert_that (text_at latest 0 ''Msg 304'')) (\<lambda>_.
     and_next (read_off (get_messages (lib_build L) (lib_am L) repo 1 5)) (\<lambda>prev.
     and_next (assert_that (length prev = 5)) (\<lambda>_.
     and_next (assert_that (text_at prev 0 ''Msg 299'')) (\<lambda>_.
     and_next (assert_that (text_at prev 4 ''Msg 303'')) (\<lambda>_.
     and_next (read_off (get_messages (lib_build L) (lib_am L) repo 0 100)) (\<lambda>page.
     and_next (assert_that (length page = 100)) (\<lambda>_.
     and_next (assert_that (text_at page 0 ''Msg 205'')) (\<lambda>_.
     and_next (assert_that (text_at page 99 ''Msg 304'')) (\<lambda>_.
     and_next (read_off (get_messages (lib_build L) (lib_am L) repo 300 10)) (\<lambda>oldest.
     and_next (assert_that (length oldest = 5)) (\<lambda>_.
     assert_that (text_at oldest 0 ''Msg 0''))))))))))))))))"

lemma finish_apply [simp]: "finish x p = (Return (Ok x), p)"
  by (simp add: finish_def)

lemma and_next_ok [simp]: "m p = (Return (Ok x), q) \<Longrightarrow> and_next m f p = f x q"
  by (simp add: and_next_def)

lemma call_apply [simp]: "m p = (x, q) \<Longrightarrow> call m p = (Return x, q)"
  by (simp add: call_def)

lemma call_on_ok [simp]: "m (r, p) = (Ok y, r', q) \<Longrightarrow> call_on m r p = (Return (Ok (y, r')), q)"
  by (simp add: call_on_def)

lemma read_off_apply [simp]: "read_off x p = (x, p)"
  by (simp add: read_off_def)

lemma assert_that_apply [simp]: "b \<Longrightarrow> assert_that b p = (Return (Ok ()), p)"
  by (simp add: assert_that_def)

section \<open>A history of messages\<close>

text \<open>
  What is relied on for a new document: it has an empty root, and writing the initial data puts the
  chat's name there.
\<close>

definition init_laws ::
  "('d, 't, 'o, 'h, 's, 'm, 'l) automerge \<Rightarrow> ('t \<Rightarrow> 'o objects) \<Rightarrow> ('d \<Rightarrow> 'o objects) \<Rightarrow> bool" where
  "init_laws A h g \<longleftrightarrow>
     g (am_new A) (am_root A) = Some (MapNode Map.empty) \<and>
     (\<forall>t f cid. h t (am_root A) = Some (MapNode f) \<longrightarrow>
        (\<exists>w t'. tx_reconcile_init A cid t = (Ok (), t') \<and>
           h t' = (h t)(am_root A \<mapsto> MapNode (f(''chat_id'' \<mapsto> (Scalar (ScalarStr cid), w))))))"

definition text_message ::
  "string \<Rightarrow> (nat \<Rightarrow> i64) \<Rightarrow> (nat \<Rightarrow> string) \<Rightarrow> (nat \<Rightarrow> string) \<Rightarrow> nat \<Rightarrow> chat_message" where
  "text_message me clock ids text i =
     \<lparr>msg_id = ids i, sender_node_id = me, content = Text (text i), created_at = clock i, updated_at = clock i\<rparr>"

text \<open>
  A repository with the messages \<open>ms\<close> of its own, all of them stored, and \<open>n\<close> rows in its log.
\<close>

definition has_history ::
  "('d, 't, 'o, 'h, 's, 'm, 'l) automerge \<Rightarrow> ('d \<Rightarrow> 'c set) \<Rightarrow> (bytes \<Rightarrow> 'c set) \<Rightarrow> ('d \<Rightarrow> 'o objects)
     \<Rightarrow> ('id::linorder \<Rightarrow> string) \<Rightarrow> 'id chat_id \<Rightarrow> chat_message list \<Rightarrow> nat
     \<Rightarrow> ('id, 'd, 'h, 's) chat_repository \<Rightarrow> pool \<Rightarrow> bool" where
  "has_history A chg blob g show_id c ms n r p \<longleftrightarrow>
     repo_chat_id r = c \<and> last_saved_heads r = am_get_heads A (doc r) \<and>
     db_holds A chg blob (chat_id_display show_id c) (pool_db p) (chg (doc r)) \<and>
     chat_objects (am_root A) (g (doc r)) \<and>
     peer_view (am_root A) (g (doc r)) = (if ms = [] then Map.empty else [show_id (my_id c) \<mapsto> ms]) \<and>
     length (chat_rows (chat_id_display show_id c) (pool_db p)) = n"


text \<open>The initial document is a chat document without messages.\<close>

lemma init_doc:
  assumes L: "doc_laws A h g" "init_laws A h g"
  obtains d where "transact A (io_map_err Automerge (tx_reconcile_init A cid)) (am_new A) = (Ok (), d)"
    "chat_objects (am_root A) (g d)" "peer_view (am_root A) (g d) = Map.empty"
proof -
  let ?root = "am_root A" and ?t = "tx_begin A (am_new A)"
  have beg: "h ?t ?root = Some (MapNode Map.empty)" and com: "\<And>t. g (tx_commit A t) = h t"
    using L by (simp_all add: doc_laws_def init_laws_def)
  obtain w t where t: "tx_reconcile_init A cid ?t = (Ok (), t)"
    "h t = (h ?t)(?root \<mapsto> MapNode [''chat_id'' \<mapsto> (Scalar (ScalarStr cid), w)])"
    using L(2) beg unfolding init_laws_def by meson
  then have root: "g (tx_commit A t) ?root = Some (MapNode [''chat_id'' \<mapsto> (Scalar (ScalarStr cid), w)])"
    by (simp add: com)
  have key: "peer_list_key q \<noteq> ''chat_id''" for q by (simp add: peer_list_key_def LIST_PREFIX_def)
  show thesis
  proof (rule that)
    show "transact A (io_map_err Automerge (tx_reconcile_init A cid)) (am_new A) = (Ok (), tx_commit A t)"
      using t(1) by (simp add: transact_def io_map_err_def)
    show "chat_objects ?root (g (tx_commit A t))"
      by (rule chat_objectsI [of "g (tx_commit A t)" ?root, OF root]) (simp_all add: key)
    show "peer_view ?root (g (tx_commit A t)) = Map.empty"
      by (simp add: fun_eq_iff peer_view_def root key)
  qed
qed

lemma new_chat:
  assumes L: "doc_laws A h g" "init_laws A h g" and F: "foreign (chat_id_display show_id c) env" "\<forall>n. fault env n = None"
    and fresh: "fresh_chat (chat_id_display show_id c) (pool_db p)"
  obtains r p' where "new_repository A env show_id c p = (Ok r, p')" "has_history A chg blob g show_id c [] 0 r p'"
    "transact A (io_map_err Automerge (tx_reconcile_init A (chat_id_display show_id c))) (am_new A) = (Ok (), doc r)"
proof -
  let ?cid = "chat_id_display show_id c"
  let ?d = "\<lambda>p. fold apply_write (others env (pool_tick p)) (pool_db p)"
  let ?q = "\<lparr>pool_db = ?d p, pool_tick = Suc (pool_tick p)\<rparr>"
  obtain d where d: "transact A (io_map_err Automerge (tx_reconcile_init A ?cid)) (am_new A) = (Ok (), d)"
    "chat_objects (am_root A) (g d)" "peer_view (am_root A) (g d) = Map.empty"
    by (rule init_doc [OF L])
  have fq: "fresh_chat ?cid (?d p)" "fresh_chat ?cid (?d ?q)"
    using fresh F(1) by (simp_all add: fresh_chat_def foreign_def apply_foreign_writes)
  have sel: "exec env (select_document ?cid) p = (Ok None, ?q)"
    using F(2) fq(1) by (simp add: exec_def select_document_def fresh_chat_def)
  let ?d2 = "(?d ?q)\<lparr>chats := chats (?d ?q) @ [(?cid, am_save A d)]\<rparr>"
  let ?p = "\<lparr>pool_db = ?d2, pool_tick = Suc (pool_tick ?q)\<rparr>"
  have "?cid \<notin> fst ` set (chats (?d ?q))"
    using fq(2) by (simp add: fresh_chat_def map_of_eq_None_iff)
  then have "insert_or_ignore_chat ?cid (am_save A d) (?d ?q) = (Ok 1, ?d2)"
    by (simp only: insert_or_ignore_chat_def if_False)
  then have "create_snapshot A env ?cid ?q = (Ok (Some (d, am_get_heads A d)), ?p)"
    using F(2) d(1) by (simp add: create_snapshot_def io_bind_def exec_def)
  then obtain r where r: "new_repository A env show_id c p = (Ok r, ?p)" "doc r = d" "repo_chat_id r = c"
      "last_saved_heads r = am_get_heads A d"
    by (auto simp: new_repository_def get_persisted_doc_state_def numeral_2_eq_2 io_bind_def sel)
  moreover have "db_holds A chg blob ?cid (pool_db ?p) (chg d)" "chat_rows ?cid (pool_db ?p) = []"
    using fq(2) by (auto simp: db_holds_def fresh_chat_def chat_rows_def map_add_def)
  ultimately have "has_history A chg blob g show_id c [] 0 r ?p"
    using d(2,3) by (simp add: has_history_def)
  then show thesis using r(1,2) d(1) that by blast
qed

lemma new_history:
  assumes "doc_laws A h g" "init_laws A h g" "foreign (chat_id_display show_id c) env" "\<forall>n. fault env n = None"
    and "fresh_chat (chat_id_display show_id c) (pool_db p)"
  obtains r p' where "new_repository A env show_id c p = (Ok r, p')" "has_history A chg blob g show_id c [] 0 r p'"
  by (rule new_chat [OF assms]) (rule that)

lemma history_inv: "has_history A chg blob g show_id c ms n r p \<Longrightarrow> repo_inv A chg blob show_id (r, p)"
  by (auto simp: has_history_def repo_inv_def)

text \<open>Documents with the same changes hold the same messages; so a new message is a change.\<close>

lemma same_changes_hold:
  assumes "storage_laws A chg blob base" "chg (doc r) = chg (doc r')" "repo_holds A r yss"
  shows "repo_holds A r' yss"
  using assms(3) by (simp add: repo_holds_def list_len_def same_changes_read [OF assms(1,2)])

lemma new_message_is_change:
  fixes A :: "('d, 't, 'o, 'h, 's, 'm, 'l) automerge"
  assumes L: "storage_laws A chg blob base" "doc_laws A h g"
    and C: "chat_objects (am_root A) (g d)" "chat_objects (am_root A) (g d')"
    and v: "peer_view (am_root A) (g d') =
      (peer_view (am_root A) (g d))(p \<mapsto> case_option [] id (peer_view (am_root A) (g d) p) @ [m])"
  shows "chg d \<noteq> chg d'"
proof
  assume same: "chg d = chg d'"
  define r :: "(nat, 'd, 'h, 's) chat_repository" where "r = undefined\<lparr>doc := d\<rparr>"
  let ?r' = "r\<lparr>doc := d'\<rparr>"
  have doc: "doc r = d" by (simp add: r_def)
  obtain yss where yss: "repo_holds A r yss" "mset (concat yss) = view_messages (peer_view (am_root A) (g d))"
    "finite (dom (peer_view (am_root A) (g d)))"
    by (rule repo_holds_view [OF L(2), of r]) (use C(1) doc in simp_all)
  obtain yss' where yss': "repo_holds A ?r' yss'" "mset (concat yss') = view_messages (peer_view (am_root A) (g d'))"
    by (rule repo_holds_view [OF L(2), of ?r']) (use C(2) in simp_all)
  have "repo_holds A ?r' yss" using same_changes_hold [OF L(1) _ yss(1), of ?r'] same doc by simp
  then have "mset (concat yss) = add_mset m (mset (concat yss))"
    using repo_holds_unique [OF yss'(1)] yss yss'(2) view_messages_update [OF yss(3)] v by metis
  then show False by simp
qed

lemma persist_logs:
  assumes F: "foreign cid env" "\<forall>n. fault env n = None" and cid: "cid = chat_id_display show_id (repo_chat_id r)"
    and hold: "db_holds A chg blob cid (pool_db p) C" and new: "am_save_after A (doc r) (last_saved_heads r) \<noteq> []"
  obtains p' where "persist_chat A env show_id (r, p) = (Ok (), (r\<lparr>last_saved_heads := am_get_heads A (doc r)\<rparr>, p'))"
    "length (chat_rows cid (pool_db p')) = Suc (length (chat_rows cid (pool_db p)))"
proof -
  let ?bs = "am_save_after A (doc r) (last_saved_heads r)"
  let ?d = "fold apply_write (others env (pool_tick p)) (pool_db p)"
  have "db_holds A chg blob cid ?d C" using hold db_holds_foreign [OF F(1)] by blast
  then have "cid \<in> fst ` set (chats ?d)" unfolding db_holds_def by (metis domI dom_map_of_conv_image_fst)
  then obtain d' where ins: "insert_log cid ?bs ?d = (Ok (), d')"
    "length (chat_rows cid d') = Suc (length (chat_rows cid ?d))"
    by (simp add: insert_log_def chat_rows_def)
  moreover have "persist_chat A env show_id (r, p) =
      (Ok (), (r\<lparr>last_saved_heads := am_get_heads A (doc r)\<rparr>, \<lparr>pool_db = d', pool_tick = Suc (pool_tick p)\<rparr>))"
    using new F(2) ins(1) cid by (simp add: persist_chat_def exec_def Let_def)
  moreover have "chat_rows cid ?d = chat_rows cid (pool_db p)"
    using F(1) by (simp add: apply_foreign_writes foreign_def)
  ultimately show thesis using that by fastforce
qed

lemma add_history:
  assumes L: "storage_laws A chg blob base" "tx_laws A h" "doc_laws A h g"
    and F: "foreign (chat_id_display show_id c) env" "\<forall>n. fault env n = None"
    and H: "has_history A chg blob g show_id c ms n r p"
    and m: "m = \<lparr>msg_id = i, sender_node_id = show_id (my_id c), content = x, created_at = now, updated_at = now\<rparr>"
  obtains sm r' p' where "add_message A env show_id now i x (r, p) = (Ok (m, sm), (r', p'))"
    "has_history A chg blob g show_id c (ms @ [m]) (Suc n) r' p'"
proof -
  let ?cid = "chat_id_display show_id c" and ?v = "\<lambda>d. peer_view (am_root A) (g d)" and ?me = "show_id (my_id c)"
  note H' = H [unfolded has_history_def]
  obtain d where d: "transact A (io_bind (ensure_peer_list A ?me) (\<lambda>l. append_message A l m)) (doc r) = (Ok (), d)"
    "chat_objects (am_root A) (g d)" "?v d = (?v (doc r))(?me \<mapsto> case_option [] id (?v (doc r) ?me) @ [m])"
    by (rule store_message_view [OF L(2,3), of "doc r"]) (use H' in auto)
  let ?r = "r\<lparr>doc := d\<rparr>"
  have grows: "chg (doc r) \<subseteq> chg d" by (rule transact_grows [OF L(1) keeps_store_message [OF L(1)] d(1)])
  have "chg (doc r) \<noteq> chg d"
    using new_message_is_change [OF L(1,3) _ d(2,3)] H' by blast
  then have new: "am_save_after A (doc ?r) (last_saved_heads ?r) \<noteq> []"
    using storage_save_after [OF L(1) grows] H' by simp
  obtain p' where p': "persist_chat A env show_id (?r, p) = (Ok (), (?r\<lparr>last_saved_heads := am_get_heads A d\<rparr>, p'))"
    "length (chat_rows ?cid (pool_db p')) = Suc n"
    by (rule persist_logs [OF F _ _ new]) (use H' in auto)
  have inv: "repo_inv A chg blob show_id (?r, p)" by (rule repo_inv_grow_doc [OF history_inv [OF H] grows])
  have "db_holds A chg blob ?cid (pool_db p') (chg d)"
    using persist_chat_stores(3) [OF L(1) inv _ p'(1)] F(1) H' by simp
  moreover obtain sm r2 where g: "generate_sync_message A (?r\<lparr>last_saved_heads := am_get_heads A d\<rparr>) = (sm, r2)" by fastforce
  ultimately have "has_history A chg blob g show_id c (ms @ [m]) (Suc n) r2 p'"
    using generate_sync_message_keeps [OF g] H' d(2,3) p'(2) by (auto simp: has_history_def split: if_splits)
  moreover have "add_message A env show_id now i x (r, p) = (Ok (m, sm), (r2, p'))"
    using H' d(1) p'(1) g by (simp add: add_message_def Let_def m)
  ultimately show thesis using that by blast
qed

lemma add_texts_history:
  assumes L: "storage_laws (lib_am L) chg blob base" "tx_laws (lib_am L) h" "doc_laws (lib_am L) h g"
    and F: "foreign (chat_id_display (lib_show_id L) c) env" "\<forall>n. fault env n = None"
    and H: "has_history (lib_am L) chg blob g (lib_show_id L) c ms n r p"
  obtains r' p' where "add_texts L env clock ids text is r p = (Return (Ok r'), p')"
    "has_history (lib_am L) chg blob g (lib_show_id L) c
       (ms @ map (text_message (lib_show_id L (my_id c)) clock ids text) is) (n + length is) r' p'"
  using H
proof (induction "is" arbitrary: ms n r p thesis)
  case (Cons i "is")
  let ?m = "text_message (lib_show_id L (my_id c)) clock ids text i"
  obtain sm r1 p1 where add: "add_message (lib_am L) env (lib_show_id L) (clock i) (ids i) (Text (text i)) (r, p) =
      (Ok (?m, sm), (r1, p1))" "has_history (lib_am L) chg blob g (lib_show_id L) c (ms @ [?m]) (Suc n) r1 p1"
    by (rule add_history [OF L F Cons.prems(2) text_message_def])
  obtain r' p' where "add_texts L env clock ids text is r1 p1 = (Return (Ok r'), p')"
    "has_history (lib_am L) chg blob g (lib_show_id L) c
       ((ms @ [?m]) @ map (text_message (lib_show_id L (my_id c)) clock ids text) is) (Suc n + length is) r' p'"
    by (rule Cons.IH [OF _ add(2)])
  then show ?case using Cons.prems(1) add(1) by simp
qed simp

lemma reload_history:
  assumes L: "storage_laws A chg blob base"
    and F: "foreign (chat_id_display show_id c) env" "\<forall>n. fault env n = None"
    and H: "has_history A chg blob g show_id c ms n r p"
  obtains r' p' where "new_repository A env show_id c p = (Ok r', p')" "chg (doc r') = chg (doc r)"
    "length (chat_rows (chat_id_display show_id c) (pool_db p')) = rows_left n"
proof -
  note H' = H [unfolded has_history_def]
  have hold: "db_holds A chg blob (chat_id_display show_id c) (pool_db p) (chg (doc r))" using H' by blast
  obtain x p' where run: "new_repository A env show_id c p = (x, p')" by fastforce
  then obtain r' where r': "x = Ok r'" "chg (doc r') = chg (doc r)"
    using reload_holds [OF L F(1) hold run] F(2) by blast
  then obtain y where y: "get_persisted_doc_state A env show_id c p = (Ok y, p')"
    using run by (auto simp: new_repository_def io_bind_Ok_iff)
  show thesis
    using get_persisted_rows [OF F(1) hold y] H' run r' that by blast
qed

lemma distinct_set_singleton: "distinct xs \<Longrightarrow> set xs = {x} \<Longrightarrow> xs = [x]"
proof (cases xs)
  case (Cons y ys)
  moreover assume "distinct xs" "set xs = {x}"
  ultimately show ?thesis by (cases ys) (auto simp: subset_singleton_iff)
qed simp

text \<open>So the messages are read back in the order in which they were added.\<close>

lemma history_holds:
  assumes L: "doc_laws A h g" and H: "has_history A chg blob g show_id c ms n r p"
  shows "repo_holds A r (if ms = [] then [] else [ms])"
proof -
  note H' = H [unfolded has_history_def]
  obtain ls where ls: "get_all_peer_lists A (doc r) = Ok ls"
    "map (\<lambda>l. map (\<lambda>i. am_hydrate_prop A (doc r) (list_inner l) i) [0..<list_len A (doc r) l]) ls =
       map (\<lambda>p. map Ok (the (peer_view (am_root A) (g (doc r)) p))) (doc_peers A (doc r))"
    "distinct (doc_peers A (doc r))" "set (doc_peers A (doc r)) = dom (peer_view (am_root A) (g (doc r)))"
    by (rule get_all_peer_lists_view [OF L]) (use H' in auto)
  have "doc_peers A (doc r) = (if ms = [] then [] else [show_id (my_id c)])"
    using ls(3,4) H' distinct_set_singleton by (auto split: if_splits)
  then show ?thesis using ls(1,2) H' by (auto simp: repo_holds_def)
qed

lemma history_messages:
  assumes L: "storage_laws A chg blob base" "doc_laws A h g" and H: "has_history A chg blob g show_id c ms n r p"
    and same: "chg (doc r') = chg (doc r)"
  shows "length ms < usize_max \<Longrightarrow> get_all_messages b A r' = Return (Ok (sort_key message_key ms))"
    and "sorted (map message_key ms) \<Longrightarrow> off + lim \<le> usize_max \<Longrightarrow>
      get_messages b A r' off lim = Return (Ok (lastn lim (take (length ms - off) ms)))"
proof -
  note holds = same_changes_hold [OF L(1) same [symmetric] history_holds [OF L(2) H]]
  let ?yss = "if ms = [] then [] else [ms]"
  have all: "concat ?yss = ms" "\<forall>ys\<in>set ?yss. ys = ms" by auto
  show "get_all_messages b A r' = Return (Ok (sort_key message_key ms))" if "length ms < usize_max"
    using all_messages_sorted [OF holds, of b] that all(1) by simp
  show "get_messages b A r' off lim = Return (Ok (lastn lim (take (length ms - off) ms)))"
    if "sorted (map message_key ms)" "off + lim \<le> usize_max"
    using get_messages_holds [OF holds that(2), of b] page_lastn_all [of ?yss message_key off lim "off + lim" "[]"]
      all that(1) by (simp add: page_lastn sort_key_id_if_sorted)
qed

section \<open>The tests pass\<close>

lemma test_db_fresh: "fresh_chat cid (pool_db test_db)"
  by (simp add: test_db_def fresh_chat_def chat_rows_def)

lemma count_rows:
  assumes "foreign cid env" "\<forall>n. fault env n = None"
  obtains p' where "exec env (count_log cid) p = (Ok (length (chat_rows cid (pool_db p))), p')"
    "has_history A chg blob g show_id c ms n r p \<Longrightarrow> cid = chat_id_display show_id c \<Longrightarrow>
       has_history A chg blob g show_id c ms n r p'"
proof -
  let ?d = "fold apply_write (others env (pool_tick p)) (pool_db p)"
  have same: "chat_rows cid ?d = chat_rows cid (pool_db p)"
    using assms(1) by (simp add: apply_foreign_writes foreign_def)
  show thesis
  proof (rule that [of "\<lparr>pool_db = ?d, pool_tick = Suc (pool_tick p)\<rparr>"])
    show "exec env (count_log cid) p = (Ok (length (chat_rows cid (pool_db p))), \<lparr>pool_db = ?d, pool_tick = Suc (pool_tick p)\<rparr>)"
      using same assms(2) by (simp add: exec_def count_log_def chat_rows_def)
    show "has_history A chg blob g show_id c ms n r \<lparr>pool_db = ?d, pool_tick = Suc (pool_tick p)\<rparr>"
      if "has_history A chg blob g show_id c ms n r p" "cid = chat_id_display show_id c"
      using that(1) same unfolding has_history_def that(2) [symmetric] by (simp add: db_holds_foreign [OF assms(1)])
  qed
qed

lemma restore_passes:
  assumes L: "storage_laws (lib_am L) chg blob base" "tx_laws (lib_am L) h" "doc_laws (lib_am L) h g" "init_laws (lib_am L) h g"
    and F: "foreign (chat_id_display (lib_show_id L) c) env" "\<forall>n. fault env n = None"
  shows "fst (test_persistence_restore L env clock ids c test_db) = Return (Ok ())"
proof -
  let ?A = "lib_am L" and ?show = "lib_show_id L"
  obtain r p where 1: "new_repository ?A env ?show c test_db = (Ok r, p)" "has_history ?A chg blob g ?show c [] 0 r p"
    by (rule new_history [OF L(3,4) F test_db_fresh])
  define m where "m = \<lparr>msg_id = ids 0, sender_node_id = ?show (my_id c), content = Text ''Hello Persistence'',
    created_at = clock 0, updated_at = clock 0\<rparr>"
  obtain sm r1 p1 where 2: "add_message ?A env ?show (clock 0) (ids 0) (Text ''Hello Persistence'') (r, p) = (Ok (m, sm), (r1, p1))"
    "has_history ?A chg blob g ?show c ([] @ [m]) 1 r1 p1"
    by (rule add_history [OF L(1-3) F 1(2) m_def]) simp
  obtain r2 p2 where 3: "new_repository ?A env ?show c p1 = (Ok r2, p2)" "chg (doc r2) = chg (doc r1)"
    by (rule reload_history [OF L(1) F 2(2)])
  have "get_all_messages (lib_build L) ?A r1 = Return (Ok [m])" "get_all_messages (lib_build L) ?A r2 = Return (Ok [m])"
    using history_messages(1) [OF L(1,3) 2(2) refl] history_messages(1) [OF L(1,3) 2(2) 3(2)]
    by (simp_all add: usize_max_def)
  then show ?thesis
    using 1(1) 2(1) 3(1) by (simp add: test_persistence_restore_def text_at_def m_def)
qed

lemma added_texts:
  assumes L: "storage_laws (lib_am L) chg blob base" "tx_laws (lib_am L) h" "doc_laws (lib_am L) h g" "init_laws (lib_am L) h g"
    and F: "foreign (chat_id_display (lib_show_id L) c) env" "\<forall>n. fault env n = None"
  obtains r p r1 p1 where "new_repository (lib_am L) env (lib_show_id L) c test_db = (Ok r, p)"
    "add_texts L env clock ids text [0..<n] r p = (Return (Ok r1), p1)"
    "has_history (lib_am L) chg blob g (lib_show_id L) c
       (map (text_message (lib_show_id L (my_id c)) clock ids text) [0..<n]) n r1 p1"
proof -
  obtain r p where 1: "new_repository (lib_am L) env (lib_show_id L) c test_db = (Ok r, p)"
    "has_history (lib_am L) chg blob g (lib_show_id L) c [] 0 r p"
    by (rule new_history [OF L(3,4) F test_db_fresh])
  obtain r1 p1 where "add_texts L env clock ids text [0..<n] r p = (Return (Ok r1), p1)"
    "has_history (lib_am L) chg blob g (lib_show_id L) c
       ([] @ map (text_message (lib_show_id L (my_id c)) clock ids text) [0..<n]) (0 + length [0..<n]) r1 p1"
    by (rule add_texts_history [OF L(1-3) F 1(2)])
  then show thesis using that 1(1) by simp
qed

lemma logging_passes:
  assumes L: "storage_laws (lib_am L) chg blob base" "tx_laws (lib_am L) h" "doc_laws (lib_am L) h g" "init_laws (lib_am L) h g"
    and F: "foreign (chat_id_display (lib_show_id L) c) env" "\<forall>n. fault env n = None"
  shows "fst (test_incremental_logging L env clock ids c test_db) = Return (Ok ())"
proof -
  let ?cid = "chat_id_display (lib_show_id L) c"
  obtain r p r1 p1 where 1: "new_repository (lib_am L) env (lib_show_id L) c test_db = (Ok r, p)"
    "add_texts L env clock ids (\<lambda>i. ''Msg '' @ show_nat i) [0..<3] r p = (Return (Ok r1), p1)"
    "has_history (lib_am L) chg blob g (lib_show_id L) c
       (map (text_message (lib_show_id L (my_id c)) clock ids (\<lambda>i. ''Msg '' @ show_nat i)) [0..<3]) 3 r1 p1"
    by (rule added_texts [OF L F])
  obtain p2 where "exec env (count_log ?cid) p1 = (Ok (length (chat_rows ?cid (pool_db p1))), p2)"
    by (rule count_rows [OF F])
  then show ?thesis using 1 by (simp add: test_incremental_logging_def has_history_def del: upt_rec_numeral)
qed

lemma compaction_passes:
  assumes L: "storage_laws (lib_am L) chg blob base" "tx_laws (lib_am L) h" "doc_laws (lib_am L) h g" "init_laws (lib_am L) h g"
    and F: "foreign (chat_id_display (lib_show_id L) c) env" "\<forall>n. fault env n = None"
  shows "fst (test_compaction_trigger L env clock ids c test_db) = Return (Ok ())"
proof -
  let ?cid = "chat_id_display (lib_show_id L) c" and ?text = "\<lambda>i. ''Compaction Check '' @ show_nat i"
  define n where "n = CHAT_LOGS_LIMIT + CHAT_LOGS_LIMIT div 2"
  have n: "CHAT_LOGS_LIMIT < n" "n < usize_max" by (simp_all add: n_def CHAT_LOGS_LIMIT_def usize_max_def)
  obtain r p r1 p1 where 1: "new_repository (lib_am L) env (lib_show_id L) c test_db = (Ok r, p)"
    "add_texts L env clock ids ?text [0..<n] r p = (Return (Ok r1), p1)"
    "has_history (lib_am L) chg blob g (lib_show_id L) c
       (map (text_message (lib_show_id L (my_id c)) clock ids ?text) [0..<n]) n r1 p1"
    by (rule added_texts [OF L F])
  obtain p2 where 2: "exec env (count_log ?cid) p1 = (Ok (length (chat_rows ?cid (pool_db p1))), p2)"
    "has_history (lib_am L) chg blob g (lib_show_id L) c
       (map (text_message (lib_show_id L (my_id c)) clock ids ?text) [0..<n]) n r1 p2"
    by (rule count_rows [OF F, of p1 "lib_am L" chg blob g "lib_show_id L" c]) (use 1(3) in blast)
  obtain r3 p3 where 3: "new_repository (lib_am L) env (lib_show_id L) c p2 = (Ok r3, p3)" "chg (doc r3) = chg (doc r1)"
    "length (chat_rows ?cid (pool_db p3)) = rows_left n"
    by (rule reload_history [OF L(1) F 2(2)])
  obtain p4 where 4: "exec env (count_log ?cid) p3 = (Ok (length (chat_rows ?cid (pool_db p3))), p4)"
    by (rule count_rows [OF F])
  have rows: "length (chat_rows ?cid (pool_db p1)) = n" "length (chat_rows ?cid (pool_db p3)) = 0"
    using 1(3) 3(3) n(1) by (simp_all add: has_history_def rows_left_def)
  obtain ms where ms: "get_all_messages (lib_build L) (lib_am L) r3 = Return (Ok ms)" "length ms = n"
    using history_messages(1) [OF L(1,3) 2(2) 3(2), of "lib_build L"] n(2) by simp
  show ?thesis
    unfolding test_compaction_trigger_def Let_def n_def [symmetric]
    using 1(1,2) 2(1) 3(1) 4 rows ms by simp
qed

lemma texts_in_order:
  assumes "\<And>i j. i < j \<Longrightarrow> j < n \<Longrightarrow> sint (clock i) < sint (clock j)"
  shows "sorted (map message_key (map (text_message me clock ids text) [0..<n]))"
  using assms by (auto simp: sorted_iff_nth_mono_less message_key_def text_message_def less_eq_prod_def)

text \<open>The pages of such a history: the one asked for, or what there is of it.\<close>

definition text_page ::
  "string \<Rightarrow> (nat \<Rightarrow> i64) \<Rightarrow> (nat \<Rightarrow> string) \<Rightarrow> (nat \<Rightarrow> string) \<Rightarrow> nat \<Rightarrow> nat \<Rightarrow> nat \<Rightarrow> chat_message list" where
  "text_page me clock ids text n off lim =
     map (text_message me clock ids text) [n - off - lim..<n - off]"

lemma text_page_lastn:
  "lastn lim (take (n - off) (map (text_message me clock ids text) [0..<n])) = text_page me clock ids text n off lim"
  by (rule nth_equalityI) (auto simp: lastn_def text_page_def)

lemma text_page_facts:
  "length (text_page me clock ids text n off lim) = min lim (n - off)"
  "i < min lim (n - off) \<Longrightarrow> text (n - off - lim + i) = s \<Longrightarrow> text_at (text_page me clock ids text n off lim) i s"
  by (auto simp: text_page_def text_at_def text_message_def)

lemma pagination_passes:
  assumes L: "storage_laws (lib_am L) chg blob base" "tx_laws (lib_am L) h" "doc_laws (lib_am L) h g" "init_laws (lib_am L) h g"
    and F: "foreign (chat_id_display (lib_show_id L) c) env" "\<forall>n. fault env n = None"
    and clock: "\<And>i j. i < j \<Longrightarrow> j < 305 \<Longrightarrow> sint (clock i) < sint (clock j)"
  shows "fst (test_pagination_logic L env clock ids c test_db) = Return (Ok ())"
proof -
  let ?me = "lib_show_id L (my_id c)" and ?text = "\<lambda>i. ''Msg '' @ show_nat i"
  let ?page = "text_page ?me clock ids ?text 305"
  obtain r p r1 p1 where 1: "new_repository (lib_am L) env (lib_show_id L) c test_db = (Ok r, p)"
    "add_texts L env clock ids ?text [0..<305] r p = (Return (Ok r1), p1)"
    "has_history (lib_am L) chg blob g (lib_show_id L) c (map (text_message ?me clock ids ?text) [0..<305]) 305 r1 p1"
    by (rule added_texts [OF L F])
  have get: "get_messages (lib_build L) (lib_am L) r1 off lim = Return (Ok (?page off lim))" if "off + lim \<le> 1000" for off lim
    using history_messages(2) [OF L(1,3) 1(3) refl texts_in_order, of off lim "lib_build L"] clock that text_page_lastn [of lim 305 off]
    by (simp add: usize_max_def)
  have shown: "show_nat 304 = ''304''" "show_nat 299 = ''299''" "show_nat 303 = ''303''" "show_nat 205 = ''205''" "show_nat 0 = ''0''"
    by code_simp+
  have texts: "text_at (?page 0 1) 0 ''Msg 304''" "text_at (?page 1 5) 0 ''Msg 299''" "text_at (?page 1 5) 4 ''Msg 303''"
    "text_at (?page 0 100) 0 ''Msg 205''" "text_at (?page 0 100) 99 ''Msg 304''" "text_at (?page 300 10) 0 ''Msg 0''"
    by (rule text_page_facts(2); simp add: shown)+
  show ?thesis
    unfolding test_pagination_logic_def using 1(1,2) texts
    by (simp add: get text_page_facts(1) del: upt_rec_numeral One_nat_def append_Cons append_Nil)
qed

section \<open>Two tasks that open the same chat\<close>

text \<open>
  What a task meets when others open the same chat: of this chat they write only the snapshots of
  new documents, and nobody has written a message yet.
\<close>

definition opens_too :: "('d, 't, 'o, 'h, 's, 'm, 'l) automerge \<Rightarrow> string \<Rightarrow> sql_env \<Rightarrow> bool" where
  "opens_too A cid env \<longleftrightarrow>
     (\<forall>n. \<forall>w\<in>set (others env n). write_chat w = cid \<longrightarrow> (\<exists>d. w = WriteChat cid (am_save A d)))"

definition just_opened :: "('d, 't, 'o, 'h, 's, 'm, 'l) automerge \<Rightarrow> string \<Rightarrow> db \<Rightarrow> bool" where
  "just_opened A cid d \<longleftrightarrow> chat_rows cid d = [] \<and> (\<forall>b. map_of (chats d) cid = Some b \<longrightarrow> (\<exists>s. b = am_save A s))"

lemma just_opened_insert:
  "just_opened A cid d \<Longrightarrow> just_opened A cid (snd (insert_or_ignore_chat cid (am_save A s) d))"
  by (auto simp: just_opened_def insert_or_ignore_chat_def chat_rows_def map_add_def split: option.splits)

lemma just_opened_others:
  assumes "opens_too A cid env" "just_opened A cid d"
  shows "just_opened A cid (fold apply_write (others env n) d)"
proof -
  have "just_opened A cid (fold apply_write ws d)"
    if "\<forall>w\<in>set ws. write_chat w = cid \<longrightarrow> (\<exists>d. w = WriteChat cid (am_save A d))" for ws
    using that assms(2)
  proof (induction ws arbitrary: d)
    case (Cons w ws)
    have "just_opened A cid (apply_write w d)"
    proof (cases "write_chat w = cid")
      case True
      then obtain e where "w = WriteChat cid (am_save A e)" using Cons.prems(1) by auto
      then show ?thesis using just_opened_insert [OF Cons.prems(2)] by simp
    next
      case False
      then show ?thesis using Cons.prems by (simp add: just_opened_def apply_foreign_write)
    qed
    then show ?case using Cons by simp
  qed simp
  then show ?thesis using assms(1) by (simp add: opens_too_def)
qed

lemma opened_snapshot_loads:
  assumes L: "storage_laws A chg blob base" and E: "opens_too A cid env" "\<forall>n. fault env n = None"
    and o: "just_opened A cid (pool_db p)" and b: "b = am_save A s"
  shows "is_ok (fst (load_snapshot A env cid b p))"
proof -
  obtain d where "am_load A b = Ok d" using storage_load [OF L, of s] b by blast
  moreover have "chat_rows cid (fold apply_write (others env (pool_tick p)) (pool_db p)) = []"
    using just_opened_others [OF E(1) o] by (simp add: just_opened_def)
  ultimately show ?thesis
    using E(2) by (simp add: load_snapshot_def io_bind_def exec_def select_log_def chat_rows_def [symmetric] Let_def)
qed

lemma opened_chat_loads:
  assumes L: "storage_laws A chg blob base" and E: "opens_too A cid env" "\<forall>n. fault env n = None"
    and o: "just_opened A cid (pool_db p)" and found: "exec env (select_document cid) p = (Ok (Some b), q)"
  shows "is_ok (fst (load_loop A env cid (Suc n) p))"
proof -
  let ?d = "fold apply_write (others env (pool_tick p)) (pool_db p)"
  have q: "map_of (chats ?d) cid = Some b" "pool_db q = ?d"
    using found E(2) by (auto simp: exec_Ok_iff select_document_def)
  then obtain s where s: "b = am_save A s"
    using just_opened_others [OF E(1) o] unfolding just_opened_def by metis
  have "is_ok (fst (load_snapshot A env cid b q))"
    using opened_snapshot_loads [OF L E _ s, of q] just_opened_others [OF E(1) o] q(2) by simp
  then show ?thesis using found by (auto simp: io_bind_def is_ok_iff split: prod.splits result.splits)
qed

lemma opened_row_loads:
  assumes L: "storage_laws A chg blob base" and E: "opens_too A cid env" "\<forall>n. fault env n = None"
    and o: "just_opened A cid (pool_db p)" and row: "cid \<in> fst ` set (chats (pool_db p))"
  shows "is_ok (fst (load_loop A env cid (Suc n) p))"
proof -
  let ?d = "fold apply_write (others env (pool_tick p)) (pool_db p)"
  have "cid \<in> fst ` set (chats ?d)" using row fold_writes_keep_chats by blast
  then have "map_of (chats ?d) cid \<noteq> None" by (simp only: map_of_eq_None_iff not_not)
  then obtain b where "map_of (chats ?d) cid = Some b" by blast
  then have "exec env (select_document cid) p = (Ok (Some b), \<lparr>pool_db = ?d, pool_tick = Suc (pool_tick p)\<rparr>)"
    using E(2) by (simp add: exec_def select_document_def Let_def)
  then show ?thesis by (rule opened_chat_loads [OF L E o])
qed

lemma opening_succeeds:
  assumes L: "storage_laws A chg blob base" "doc_laws A h g" "init_laws A h g"
    and E: "opens_too A (chat_id_display show_id c) env" "\<forall>n. fault env n = None"
    and o: "just_opened A (chat_id_display show_id c) (pool_db p)"
  shows "is_ok (fst (new_repository A env show_id c p))"
proof -
  let ?cid = "chat_id_display show_id c"
  have sel: "\<exists>x q. exec env (select_document ?cid) p = (Ok x, q) \<and> just_opened A ?cid (pool_db q)"
    if "just_opened A ?cid (pool_db p)" for p
    using just_opened_others [OF E(1) that] E(2) by (simp add: exec_def select_document_def Let_def)
  obtain x q where q: "exec env (select_document ?cid) p = (Ok x, q)" "just_opened A ?cid (pool_db q)"
    using sel [OF o] by blast
  have "is_ok (fst (load_loop A env ?cid 2 p))"
  proof (cases x)
    case (Some b)
    then show ?thesis using opened_chat_loads [OF L(1) E o, of b q 1] q(1) by (simp add: numeral_2_eq_2)
  next
    case None
    obtain d where d: "transact A (io_map_err Automerge (tx_reconcile_init A ?cid)) (am_new A) = (Ok (), d)"
      by (rule init_doc [OF L(2,3)])
    obtain k db where ins: "insert_or_ignore_chat ?cid (am_save A d)
        (fold apply_write (others env (pool_tick q)) (pool_db q)) = (Ok k, db)"
      unfolding insert_or_ignore_chat_def by metis
    obtain y q2 where made: "create_snapshot A env ?cid q = (Ok y, q2)" "pool_db q2 = db"
      using d ins E(2) by (cases "k > 0") (simp_all add: create_snapshot_def io_bind_def exec_def)
    have open2: "just_opened A ?cid (pool_db q2)"
      using just_opened_insert [OF just_opened_others [OF E(1) q(2)], of d "pool_tick q"] ins made(2) by simp
    show ?thesis
    proof (cases y)
      case (Some r)
      then show ?thesis using q(1) None made(1) by (simp add: numeral_2_eq_2 io_bind_def)
    next
      case lost: None
      have row: "?cid \<in> fst ` set (chats (pool_db q2))" using create_lost_race made(1) lost by blast
      show ?thesis
        using opened_row_loads [OF L(1) E open2 row, of 0] q(1) None made(1) lost
        by (simp add: numeral_2_eq_2 io_bind_def [of "exec env (select_document ?cid)"] io_bind_def [of "create_snapshot A env ?cid"]
            load_loop.simps(2) [of _ _ _ "Suc 0"] del: load_loop.simps(2))
    qed
  qed
  then show ?thesis
    by (auto simp: get_persisted_doc_state_loop new_repository_def io_bind_def is_ok_iff split: prod.splits result.splits)
qed

lemma race_passes:
  assumes "storage_laws (lib_am L) chg blob base" "doc_laws (lib_am L) h g" "init_laws (lib_am L) h g"
    and "opens_too (lib_am L) (chat_id_display (lib_show_id L) c) env1" "\<forall>n. fault env1 n = None"
    and "opens_too (lib_am L) (chat_id_display (lib_show_id L) c) env2" "\<forall>n. fault env2 n = None"
  shows "test_race_condition_simulation L env1 env2 c test_db = Return (Ok ())"
proof -
  have "just_opened (lib_am L) (chat_id_display (lib_show_id L) c) (pool_db test_db)"
    by (simp add: just_opened_def test_db_def chat_rows_def)
  then show ?thesis
    using opening_succeeds [OF assms(1-5)] opening_succeeds [OF assms(1-3,6,7)]
    by (simp add: test_race_condition_simulation_def)
qed

section \<open>The tests of the repository\<close>

text \<open>
  C19: The tests of the repository pass, for every document library with the laws, every chat, and
  every working database, whatever is written to other chats meanwhile: a stored message is there
  after a restart; every message is one row of the log; a log that is too long is folded into the
  snapshot when the chat is loaded, and no message is lost; and with a clock that advances from
  message to message, the pages of 305 messages are the expected ones, up to the shorter page at
  the beginning of the history. Tasks that open the same chat at the same time all succeed, whichever
  of them comes first.
\<close>

theorem repository_tests_pass:
  assumes "storage_laws (lib_am L) chg blob base" "tx_laws (lib_am L) h" "doc_laws (lib_am L) h g" "init_laws (lib_am L) h g"
    and "foreign (chat_id_display (lib_show_id L) c) env" "\<forall>n. fault env n = None"
    and "\<forall>i j. i < j \<longrightarrow> j < 305 \<longrightarrow> sint (clock i) < sint (clock j)"
    and "opens_too (lib_am L) (chat_id_display (lib_show_id L) c) env1" "\<forall>n. fault env1 n = None"
    and "opens_too (lib_am L) (chat_id_display (lib_show_id L) c) env2" "\<forall>n. fault env2 n = None"
  shows "fst (test_persistence_restore L env clock ids c test_db) = Return (Ok ()) \<and>
    fst (test_incremental_logging L env clock ids c test_db) = Return (Ok ()) \<and>
    fst (test_compaction_trigger L env clock ids c test_db) = Return (Ok ()) \<and>
    test_race_condition_simulation L env1 env2 c test_db = Return (Ok ()) \<and>
    fst (test_pagination_logic L env clock ids c test_db) = Return (Ok ())"
  using restore_passes [OF assms(1-6)] logging_passes [OF assms(1-6)] compaction_passes [OF assms(1-6)]
    pagination_passes [OF assms(1-6)] assms(7) race_passes [OF assms(1,3,4,8-11)] by blast

section \<open>A library with storage\<close>

text \<open>
  A document is the list of its objects, as before, and a change of it is a version that it went
  through. A chunk names versions by their number, and loading takes the longest version there is.
\<close>

instance scalar :: countable by countable_datatype
instance obj_type :: countable by countable_datatype
instance am_value :: countable by countable_datatype
instance ref_node :: countable by countable_datatype

definition versions :: "ref_doc \<Rightarrow> ref_doc list" where
  "versions d = filter (\<lambda>v. v \<noteq> []) (suffixes d)"

definition number :: "'a::countable \<Rightarrow> bytes" where
  "number d = replicate (to_nat d) 0 @ [1]"

fun named :: "nat \<Rightarrow> bytes \<Rightarrow> 'a::countable list" where
  "named n [] = []"
| "named n (b # bs) = (if b = 0 then named (Suc n) bs else from_nat n # named 0 bs)"

fun longest :: "ref_doc list \<Rightarrow> ref_doc" where
  "longest [] = []"
| "longest (d # ds) = (if length (longest ds) < length d then d else longest ds)"

lemma named_number: "named n (replicate k 0 @ 1 # bs) = from_nat (n + k) # named 0 bs"
  by (induction k arbitrary: n) simp_all

lemma named_numbers: "named 0 (concat (map number ds) @ bs) = ds @ named 0 bs"
  by (induction ds) (simp_all add: number_def named_number)

lemma number_not_Nil [simp]: "number d \<noteq> []"
  by (simp add: number_def)

lemma numbers_Nil_iff [simp]: "concat (map number ds) = [] \<longleftrightarrow> ds = []"
  by (cases ds) (simp_all add: number_def)

lemma set_versions: "set (versions d) = {v. v \<noteq> [] \<and> suffix v d}"
  by (auto simp: versions_def)

lemma versions_subset: "set (versions d) \<subseteq> set (versions e) \<longleftrightarrow> suffix d e"
proof
  assume sub: "set (versions d) \<subseteq> set (versions e)"
  show "suffix d e"
  proof (cases "d = []")
    case False
    then have "d \<in> set (versions d)" by (simp add: set_versions)
    then show ?thesis using sub by (auto simp: set_versions)
  qed simp
next
  assume "suffix d e"
  then show "set (versions d) \<subseteq> set (versions e)" by (auto simp: set_versions intro: suffix_order.trans)
qed

lemma versions_inject: "set (versions d) = set (versions e) \<longleftrightarrow> d = e"
  using versions_subset [of d e] versions_subset [of e d] suffix_order.antisym by blast

lemma longest_in: "longest ds = [] \<or> longest ds \<in> set ds"
  by (induction ds) auto

lemma longest_ge: "d \<in> set ds \<Longrightarrow> length d \<le> length (longest ds)"
  by (induction ds) auto

lemma longest_versions:
  assumes "set (versions d) \<union> set ds = set (versions e)"
  shows "longest (d # ds) = e"
proof -
  have d: "suffix d e" using assms versions_subset by blast
  have ds: "x \<in> set ds \<Longrightarrow> suffix x e" for x using assms set_versions [of e] by blast
  then have all: "suffix (longest (d # ds)) e" using d longest_in [of "d # ds"] by auto
  have "length e \<le> length (longest (d # ds))"
  proof (cases "e = []")
    case False
    then have "e \<in> set (versions d) \<union> set ds" using assms by (simp add: set_versions)
    then have "e = d \<or> e \<in> set ds" using d set_versions [of d] suffix_order.antisym by blast
    then show ?thesis using longest_ge [of e "d # ds"] by auto
  qed simp
  moreover obtain zs where "e = zs @ longest (d # ds)" using all by (auto simp: suffix_def)
  ultimately show ?thesis by simp
qed

text \<open>A transaction is the document it was opened on, and a later version of it.\<close>

definition tx_view :: "ref_doc \<times> ref_doc \<Rightarrow> ref_doc" where
  "tx_view t = (if suffix (fst t) (snd t) then snd t else fst t)"

definition in_tx :: "(ref_doc, 'a, 'e) io \<Rightarrow> (ref_doc \<times> ref_doc, 'a, 'e) io" where
  "in_tx m t = (case m (tx_view t) of (x, d) \<Rightarrow> (x, (fst t, d)))"

definition version_am :: "(ref_doc, ref_doc \<times> ref_doc, nat, ref_doc, unit, unit, unit) automerge" where
  "version_am =
     \<lparr>am_root = 0, am_new = [(0, RefMap [])],
      am_load = (\<lambda>bs. Ok (longest (named 0 bs))), am_save = number,
      am_save_after = (\<lambda>d hs. concat (map number (filter (\<lambda>v. \<not> list_ex (suffix v) hs) (versions d)))),
      am_load_incremental = (\<lambda>d bs. Ok (longest (d # named 0 bs))), am_get_heads = (\<lambda>d. [d]),
      am_keys = ref_keys, am_get = (\<lambda>d i k. Ok (map_entries (ref_objects d i) k)),
      am_length = ref_length, am_hydrate_prop = ref_hydrate,
      tx_begin = (\<lambda>d. (d, d)), tx_commit = tx_view,
      tx_get = (\<lambda>t i k. Ok (map_entries (ref_objects (tx_view t) i) k)), tx_length = (\<lambda>t. ref_length (tx_view t)),
      tx_put_object = (\<lambda>i k ty. in_tx (ref_put_object i k ty)), tx_insert_object = (\<lambda>i j ty. in_tx (ref_insert_object i j ty)),
      tx_put = (\<lambda>i k v. in_tx (ref_put i k v)),
      tx_reconcile_init = (\<lambda>c. in_tx (ref_put 0 ''chat_id'' (ScalarStr c))),
      am_sync_new = (), am_receive_sync = (\<lambda>d s m. (Ok (), d, s, ())),
      am_make_patches = (\<lambda>_ _. []), am_generate_sync = (\<lambda>d s. (None, s))\<rparr>"

lemma in_tx_fst [simp]: "fst (snd (in_tx m t)) = fst t"
  by (simp add: in_tx_def split: prod.splits)

lemma suffix_tx_view: "suffix (fst t) (tx_view t)"
  by (simp add: tx_view_def)

lemma tx_view_Cons [simp]:
  "tx_view (a, x # tx_view (a, b)) = x # tx_view (a, b)" "tx_view (a, x # y # tx_view (a, b)) = x # y # tx_view (a, b)"
  using suffix_tx_view [of "(a, b)"] by (simp_all add: tx_view_def [of "(a, x # ds)" for x ds] suffix_ConsI)

lemma version_am_tx_laws: "tx_laws version_am (\<lambda>t. ref_objects (tx_view t))"
  unfolding tx_laws_def version_am_def
  by (auto simp: in_tx_def ref_put_object_def ref_insert_object_def ref_put_def ref_objects_def
      simp flip: fun_upd_def intro!: ext)

lemma version_am_doc_laws: "doc_laws version_am (\<lambda>t. ref_objects (tx_view t)) ref_objects"
  using ref_am_doc_laws
  by (simp add: doc_laws_def ref_am_def version_am_def tx_view_def del: ref_keys.simps ref_length.simps ref_hydrate.simps)

lemma version_am_init_laws: "init_laws version_am (\<lambda>t. ref_objects (tx_view t)) ref_objects"
  unfolding init_laws_def version_am_def
  by (auto simp: in_tx_def ref_put_def ref_objects_def simp flip: fun_upd_def intro!: ext)

lemma named_concat:
  assumes "\<forall>b\<in>set bss. \<exists>ds :: 'a::countable list. b = concat (map number ds)"
  shows "(named 0 (concat bss) :: 'a list) = concat (map (named 0) bss)"
  using assms
proof (induction bss)
  case (Cons b bss)
  then obtain ds :: "'a list" where "b = concat (map number ds)" by auto
  then show ?case using Cons named_numbers [of ds "concat bss"] named_numbers [of ds "[]"] by simp
qed simp

lemma named_chunks:
  assumes "\<forall>b\<in>set bss. is_chunk version_am (\<lambda>d. set (versions d)) b"
  shows "(named 0 (concat bss) :: ref_doc list) = concat (map (named 0) bss)"
  using assms by (intro named_concat) (auto simp: is_chunk_def version_am_def)

lemma version_am_storage: "storage_laws version_am (\<lambda>d. set (versions d)) (\<lambda>bs. set (named 0 bs)) fst"
  unfolding storage_laws_def
proof (intro conjI allI impI)
  fix d e assume "set (versions e) \<subseteq> set (versions d)"
  then show "set (named 0 (am_save_after version_am d (am_get_heads version_am e))) = set (versions d) - set (versions e)"
    "(am_save_after version_am d (am_get_heads version_am e) = []) = (set (versions d) = set (versions e))"
    using named_numbers [of "filter (\<lambda>v. \<not> suffix v e) (versions d)" "[]"]
    by (auto simp: version_am_def filter_empty_conv set_versions)
next
  fix d e bss
  assume "\<forall>b\<in>set bss. is_chunk version_am (\<lambda>d. set (versions d)) b"
    and "set (versions d) \<union> \<Union> ((\<lambda>bs. set (named 0 bs)) ` set bss) = set (versions e)"
  then have "longest (d # named 0 (concat bss)) = e"
    by (intro longest_versions) (simp add: named_chunks)
  then show "\<exists>d'. am_load_incremental version_am d (concat bss) = Ok d' \<and> set (versions d') = set (versions e)"
    by (simp add: version_am_def del: longest.simps)
next
  fix d show "\<exists>d'. am_load version_am (am_save version_am d) = Ok d' \<and> set (versions d') = set (versions d)"
    using named_numbers [of "[d]" "[]"] by (simp add: version_am_def)
next
  fix t show "set (versions (fst t)) \<subseteq> set (versions (tx_commit version_am t))"
    by (simp add: version_am_def versions_subset suffix_tx_view)
qed (simp_all add: version_am_def versions_inject)

definition version_lib :: "(nat, ref_doc, ref_doc \<times> ref_doc, nat, ref_doc, unit, unit, unit) chat_lib" where
  "version_lib = \<lparr>lib_am = version_am, lib_encode = (\<lambda>_. []), lib_decode = (\<lambda>_. Ok ()),
     lib_show_id = sample_show, lib_uuid_text = (\<lambda>_. ''u''), lib_build = Debug\<rparr>"

definition sample_clock :: "nat \<Rightarrow> i64" where
  "sample_clock i = word_of_nat i"

text \<open>The other task inserts its snapshot between the first two statements.\<close>

definition overtaken :: sql_env where
  "overtaken = \<lparr>fault = \<lambda>_. None, others = \<lambda>n. if n = 1 then [WriteChat ''aaa_aaaaa'' (am_save version_am [])] else []\<rparr>"

theorem repository_tests_pass_witness:
  "fst (test_compaction_trigger version_lib calm sample_clock show_nat \<lparr>my_id = 3, chat_remote_id = 5\<rparr> test_db) = Return (Ok ()) \<and>
   test_race_condition_simulation version_lib overtaken calm \<lparr>my_id = 3, chat_remote_id = 5\<rparr> test_db = Return (Ok ()) \<and>
   fst (test_pagination_logic version_lib calm sample_clock show_nat \<lparr>my_id = 3, chat_remote_id = 5\<rparr> test_db) = Return (Ok ())"
proof -
  have races: "opens_too version_am cid calm" "opens_too version_am cid overtaken" "\<forall>n. fault overtaken n = None" for cid
    by (auto simp: opens_too_def calm_def overtaken_def)
  have "sint (sample_clock i) = int i" if "i < 305" for i
    using that signed_take_bit_int_eq_self [of 63 "int i"] by (simp add: sample_clock_def signed_of_nat)
  then have clock: "\<forall>i j. i < j \<longrightarrow> j < 305 \<longrightarrow> sint (sample_clock i) < sint (sample_clock j)" by simp
  have lib: "lib_am version_lib = version_am" by (simp add: version_lib_def)
  show ?thesis
    using repository_tests_pass [of version_lib, unfolded lib, OF version_am_storage version_am_tx_laws version_am_doc_laws
        version_am_init_laws calm_foreign(1) _ clock races(2,3,1)] calm_foreign(2) by simp
qed

end
