(* ===== verification/Repo_Sync.thy ===== *)
theory Repo_Sync
  imports Scenarios
begin

text \<open>
  Two repositories that synchronise without a connection between them, which is how the tests of
  \<^verbatim>\<open>src/persistence.rs\<close> do it (\<^verbatim>\<open>sync_repos\<close>): what one answers is handed to the
  other until one of them has no answer. Shown here: when the loop has come to its end, both
  repositories are the same, and between replicas of a chat that this program has made nothing is lost
  and nothing is invented on the way.
\<close>

section \<open>Handing over answers\<close>

text \<open>
  The loop of \<^verbatim>\<open>sync_repos\<close>. It panics when it has taken ten turns; \<open>cause\<close> and \<open>receiver\<close> are
  the two repositories with their pools.
\<close>

function sync_loop ::
  "('id::linorder, 'd, 't, 'o, 'h, 's, 'm, 'l) chat_lib \<Rightarrow> sql_env \<Rightarrow> sql_env \<Rightarrow> nat \<Rightarrow> 'm option
     \<Rightarrow> ('id, 'd, 'h, 's) chat_repository \<times> pool \<Rightarrow> ('id, 'd, 'h, 's) chat_repository \<times> pool
     \<Rightarrow> (unit, lib_error) result may_panic \<times> (('id, 'd, 'h, 's) chat_repository \<times> pool)
          \<times> (('id, 'd, 'h, 's) chat_repository \<times> pool)" where
  "sync_loop L env1 env2 counter sync_from_cause cause receiver =
     (case receive_sync_message (lib_am L) env2 (lib_show_id L) sync_from_cause receiver of
        (Err e, receiver') \<Rightarrow> (Return (Err e), cause, receiver')
      | (Ok (_, None), receiver') \<Rightarrow> (Return (Ok ()), cause, receiver')
      | (Ok (_, Some sync_from_receive), receiver') \<Rightarrow>
          (case receive_sync_message (lib_am L) env1 (lib_show_id L) sync_from_receive cause of
             (Err e, cause') \<Rightarrow> (Return (Err e), cause', receiver')
           | (Ok (_, None), cause') \<Rightarrow> (Return (Ok ()), cause', receiver')
           | (Ok (_, Some new_sync_from_cause), cause') \<Rightarrow>
               if counter + 1 < 10 then sync_loop L env1 env2 (counter + 1) new_sync_from_cause cause' receiver'
               else (Panicked, cause', receiver')))"
  by pat_completeness auto
termination by (relation "measure (\<lambda>(_, _, _, counter, _). 10 - counter)") auto

declare sync_loop.simps [simp del]

definition sync_repos ::
  "('id::linorder, 'd, 't, 'o, 'h, 's, 'm, 'l) chat_lib \<Rightarrow> sql_env \<Rightarrow> sql_env \<Rightarrow> 'm option
     \<Rightarrow> ('id, 'd, 'h, 's) chat_repository \<times> pool \<Rightarrow> ('id, 'd, 'h, 's) chat_repository \<times> pool
     \<Rightarrow> (unit, lib_error) result may_panic \<times> (('id, 'd, 'h, 's) chat_repository \<times> pool)
          \<times> (('id, 'd, 'h, 's) chat_repository \<times> pool)" where
  "sync_repos L env1 env2 cause_repo_sync_msg cause receiver = sync_loop L env1 env2 0 cause_repo_sync_msg cause receiver"

definition test_two_peers_sync ::
  "('id::linorder, 'd, 't, 'o, 'h, 's, 'm, 'l) chat_lib \<Rightarrow> sql_env \<Rightarrow> sql_env \<Rightarrow> i64 \<Rightarrow> string \<Rightarrow> 'id \<Rightarrow> 'id
     \<Rightarrow> (unit, lib_error) result may_panic" where
  "test_two_peers_sync L env1 env2 now new_id p1_id p2_id =
     (case new_repository (lib_am L) env1 (lib_show_id L) \<lparr>my_id = p1_id, chat_remote_id = p2_id\<rparr> test_db of
        (Err e, _) \<Rightarrow> Return (Err e)
      | (Ok repo1, pool1) \<Rightarrow>
     (case new_repository (lib_am L) env2 (lib_show_id L) \<lparr>my_id = p2_id, chat_remote_id = p1_id\<rparr> test_db of
        (Err e, _) \<Rightarrow> Return (Err e)
      | (Ok repo2, pool2) \<Rightarrow>
     (case add_message (lib_am L) env1 (lib_show_id L) now new_id (Text ''Hello from P1'') (repo1, pool1) of
        (Err e, _) \<Rightarrow> Return (Err e)
      | (Ok (_, sync_from_repo1), repo1') \<Rightarrow>
     (case sync_repos L env1 env2 sync_from_repo1 repo1' (repo2, pool2) of
        (Panicked, _) \<Rightarrow> Panicked
      | (Return (Err e), _) \<Rightarrow> Return (Err e)
      | (Return (Ok _), _, (repo2', _)) \<Rightarrow>
     (case get_all_messages (lib_build L) (lib_am L) repo2' of
        Panicked \<Rightarrow> Panicked
      | Return (Err e) \<Rightarrow> Return (Err e)
      | Return (Ok msgs2) \<Rightarrow>
          if length msgs2 = 1 \<and> text_at msgs2 0 ''Hello from P1'' then Return (Ok ()) else Panicked)))))"

section \<open>One answer\<close>

text \<open>
  The state of the exchange between two answers: the message \<open>m\<close> of the first repository is all that
  is under way, and the library had nothing to send when the message is empty.
\<close>

definition handed ::
  "('d, 't, 'o, 'h, 's, 'm, 'l) automerge \<Rightarrow> ('d \<Rightarrow> 'c set) \<Rightarrow> 'm option
     \<Rightarrow> ('id, 'd, 'h, 's) chat_repository \<Rightarrow> ('id, 'd, 'h, 's) chat_repository \<Rightarrow> bool \<Rightarrow> bool" where
  "handed A chg m r1 r2 g \<longleftrightarrow>
     sync_session A chg (doc r1, sync_state r1, m = None, []) (doc r2, sync_state r2, g, somes [m])"

lemma answer_handed:
  assumes "handed A chg m r1 r2 g" "receive_sync_message A env show_id m (r2, p) = (Ok (ms, answer), (r2', p'))"
  obtains out where "answer = (if m = None \<and> out = None then None else Some out)" "handed A chg out r2' r1 (m = None)"
proof -
  let ?e1 = "(doc r1, sync_state r1, m = None, [])"
  obtain s out where t: "taken A (doc r2) (sync_state r2) m (doc r2') s" "am_generate_sync A (doc r2') s = (out, sync_state r2')"
      "answer = (if m = None \<and> out = None then None else Some out)"
    using receive_asks [OF assms(2)] by blast
  have s: "sync_session A chg (doc r2, sync_state r2, g, somes [m]) ?e1"
    using assms(1) unfolding handed_def by (rule session_swap)
  obtain g' where g': "sync_session A chg (doc r2', s, g', []) ?e1"
  proof (cases m)
    case None
    then show thesis using that [of g] s t(1) by (simp add: taken_def)
  next
    case (Some x)
    then obtain l where l: "am_receive_sync A (doc r2) (sync_state r2) x = (Ok (), doc r2', s, l)"
      using t(1) by (auto simp: taken_def)
    then show thesis using that [of False] session_receive [of A chg _ _ g x "[]", OF _ l] s Some by auto
  qed
  have "handed A chg out r2' r1 (m = None)"
    using session_generate [OF g' t(2)] by (cases out) (simp_all add: handed_def)
  then show thesis using that t(3) by blast
qed

text \<open>Where the last answer is that there is nothing to say, both have the same changes.\<close>

lemma nothing_to_answer:
  assumes "sync_laws A chg" "handed A chg None r1 r2 True"
  shows "chg (doc r1) = chg (doc r2)"
  using assms unfolding sync_laws_def handed_def by (auto simp del: split_paired_All)

section \<open>The loop\<close>

text \<open>
  What holds of an exchange that has come to its end: \<open>P m a b\<close> holds whenever \<open>a\<close> has just handed over
  the message \<open>m\<close> to \<open>b\<close>, and \<open>Q\<close>, in which the two have the same part, when there is no answer.
\<close>

lemma sync_loop_ends:
  assumes "sync_loop L env1 env2 counter m c r = (Return (Ok ()), c', r')" "P m c r"
    and step: "\<And>env m a b ms ans b'. P m a b \<Longrightarrow> receive_sync_message (lib_am L) env (lib_show_id L) m b = (Ok (ms, ans), b') \<Longrightarrow>
      (case ans of None \<Rightarrow> Q a b' | Some out \<Rightarrow> P out b' a)"
    and swap: "\<And>a b. Q a b \<Longrightarrow> Q b a"
  shows "Q c' r'"
  using assms(1,2)
proof (induction "10 - counter" arbitrary: counter m c r rule: less_induct)
  case less
  obtain x r1 where 1: "receive_sync_message (lib_am L) env2 (lib_show_id L) m r = (x, r1)" by (rule prod.exhaust)
  then obtain ms ans where x: "x = Ok (ms, ans)" using less.prems(1) by (cases x) (auto simp: sync_loop.simps)
  note S1 = step [OF less.prems(2) 1 [unfolded x]]
  show ?case
  proof (cases ans)
    case None
    then show ?thesis using less.prems(1) 1 x S1 by (simp add: sync_loop.simps)
  next
    case (Some out)
    obtain y c1 where 2: "receive_sync_message (lib_am L) env1 (lib_show_id L) out c = (y, c1)" by (rule prod.exhaust)
    then obtain ms' ans' where y: "y = Ok (ms', ans')"
      using less.prems(1) 1 x Some by (cases y) (auto simp: sync_loop.simps)
    have S2: "case ans' of None \<Rightarrow> Q r1 c1 | Some m' \<Rightarrow> P m' c1 r1"
      by (rule step [OF _ 2 [unfolded y]]) (use S1 Some in simp)
    show ?thesis
    proof (cases ans')
      case None
      then show ?thesis using less.prems(1) 1 2 x y Some S2 swap by (simp add: sync_loop.simps)
    next
      case again: (Some m')
      then have go: "counter < 9" "sync_loop L env1 env2 (Suc counter) m' c1 r1 = (Return (Ok ()), c', r')"
        using less.prems(1) 1 2 x y Some by (auto simp: sync_loop.simps [of _ _ _ counter] split: if_splits)
      then have "10 - Suc counter < 10 - counter" by simp
      then show ?thesis by (rule less.hyps [OF _ go(2)]) (use S2 again in simp)
    qed
  qed
qed

text \<open>The changes \<open>C\<close> that were there are kept, and in the end both have the same.\<close>

definition under_way ::
  "('d, 't, 'o, 'h, 's, 'm, 'l) automerge \<Rightarrow> ('d \<Rightarrow> 'c set) \<Rightarrow> 'c set \<Rightarrow> 'm option
     \<Rightarrow> ('id, 'd, 'h, 's) chat_repository \<times> pool \<Rightarrow> ('id, 'd, 'h, 's) chat_repository \<times> pool \<Rightarrow> bool" where
  "under_way A chg C m a b \<longleftrightarrow>
     (\<exists>g. handed A chg m (fst a) (fst b) g) \<and> C \<subseteq> chg (doc (fst a)) \<union> chg (doc (fst b))"

definition agree :: "('d \<Rightarrow> 'c set) \<Rightarrow> 'c set \<Rightarrow> ('id, 'd, 'h, 's) chat_repository \<times> pool \<Rightarrow> ('id, 'd, 'h, 's) chat_repository \<times> pool \<Rightarrow> bool" where
  "agree chg C a b \<longleftrightarrow> chg (doc (fst a)) = chg (doc (fst b)) \<and> C \<subseteq> chg (doc (fst a))"

lemma under_way_step:
  assumes S: "storage_laws A chg blob base" and Y: "sync_laws A chg" and P: "under_way A chg C m a b"
    and rcv: "receive_sync_message A env show_id m b = (Ok (ms, ans), b')"
  shows "case ans of None \<Rightarrow> agree chg C a b' | Some out \<Rightarrow> under_way A chg C out b' a"
proof -
  obtain r p r' p' where b: "b = (r, p)" "b' = (r', p')" by fastforce
  obtain g where H: "handed A chg m (fst a) r g" and C: "C \<subseteq> chg (doc (fst a)) \<union> chg (doc r)"
    using P by (auto simp: under_way_def b)
  obtain out where out: "ans = (if m = None \<and> out = None then None else Some out)" "handed A chg out r' (fst a) (m = None)"
    by (rule answer_handed [OF H rcv [unfolded b]])
  have grow: "chg (doc r) \<subseteq> chg (doc r')"
    using receive_asks [OF rcv [unfolded b]] storage_receive [OF S] by (cases m) (fastforce simp: taken_def)+
  show ?thesis
  proof (cases ans)
    case None
    then have "chg (doc r') = chg (doc (fst a))" using nothing_to_answer [OF Y] out by (auto split: if_splits)
    then show ?thesis using None C grow by (auto simp: agree_def b)
  next
    case (Some x)
    then have "x = out" using out(1) by (simp split: if_splits)
    then show ?thesis using Some out(2) C grow by (auto simp: under_way_def b)
  qed
qed

lemma generate_handed:
  assumes "generate_sync_message A r1 = (m, r1')" "sync_state r1 = am_sync_new A" "sync_state r2 = am_sync_new A"
  shows "handed A chg m r1' r2 False"
proof -
  obtain s where g: "am_generate_sync A (doc r1) (am_sync_new A) = (m, s)" "doc r1' = doc r1" "sync_state r1' = s"
    using assms(1,2) by (auto simp: generate_parts)
  have start: "sync_session A chg (doc r1, am_sync_new A, False, []) (doc r2, am_sync_new A, False, [])" by (rule session_start)
  show ?thesis
    using session_generate [OF start g(1)] g(2,3) assms(3) by (cases m) (simp_all add: handed_def)
qed

lemma sync_repos_agree_lemma:
  assumes S: "storage_laws (lib_am L) chg blob base" and Y: "sync_laws (lib_am L) chg"
    and gen: "generate_sync_message (lib_am L) r1 = (m, r1')"
    and new: "sync_state r1 = am_sync_new (lib_am L)" "sync_state r2 = am_sync_new (lib_am L)"
    and run: "sync_repos L env1 env2 m (r1', p1) (r2, p2) = (Return (Ok ()), c, r)"
  shows "agree chg (chg (doc r1) \<union> chg (doc r2)) c r"
proof (rule sync_loop_ends [OF run [unfolded sync_repos_def], where P = "under_way (lib_am L) chg (chg (doc r1) \<union> chg (doc r2))"])
  show "under_way (lib_am L) chg (chg (doc r1) \<union> chg (doc r2)) m (r1', p1) (r2, p2)"
    using generate_handed [OF gen new] generate_sync_message_keeps [OF gen] by (auto simp: under_way_def)
qed (auto simp: agree_def intro: under_way_step [OF S Y])

text \<open>
  C18: Two repositories of a chat that hand each other their answers, starting with the message of one
  of them, are the same when the loop has come to its end without an error: both have the same changes,
  everything that either of them had, and the same pages of messages. Whatever the library says, and
  however many of the ten turns it takes.
\<close>

theorem sync_repos_agree:
  assumes "storage_laws (lib_am L) chg blob base" "sync_laws (lib_am L) chg"
    and "generate_sync_message (lib_am L) r1 = (m, r1')"
    and "sync_state r1 = am_sync_new (lib_am L)" "sync_state r2 = am_sync_new (lib_am L)"
    and "sync_repos L env1 env2 m (r1', p1) (r2, p2) = (Return (Ok ()), (c, q1), (r, q2))"
  shows "chg (doc c) = chg (doc r) \<and> chg (doc r1) \<union> chg (doc r2) \<subseteq> chg (doc c) \<and>
    (\<forall>b off lim. get_messages b (lib_am L) c off lim = get_messages b (lib_am L) r off lim)"
proof -
  have same: "chg (doc c) = chg (doc r)" and all: "chg (doc r1) \<union> chg (doc r2) \<subseteq> chg (doc c)"
    using sync_repos_agree_lemma [OF assms] unfolding agree_def by (metis fst_conv)+
  from same all same_changes_same_messages [OF assms(1) same] show ?thesis by blast
qed

section \<open>Replicas of a chat\<close>

text \<open>
  Two replicas of a chat that this program has made: for each its peer, its document, and the sync
  messages that were generated from it. They start as new chats of two different peers; each peer
  stores messages in its own list; each takes in messages that the other has generated; and a document
  may be loaded again.
\<close>

inductive chat_replicas ::
  "('d, 't, 'o, 'h, 's, 'm, 'l) automerge \<Rightarrow> ('d \<Rightarrow> 'c set) \<Rightarrow> string \<times> 'd \<times> 'm set \<Rightarrow> string \<times> 'd \<times> 'm set \<Rightarrow> bool"
  for A chg where
  replicas_new: "p \<noteq> p' \<Longrightarrow> transact A (io_map_err Automerge (tx_reconcile_init A cid)) (am_new A) = (Ok (), d) \<Longrightarrow>
     chat_replicas A chg (p, d, {}) (p', d, {})"
| replicas_store: "chat_replicas A chg (p, d, M) e \<Longrightarrow>
     transact A (io_bind (ensure_peer_list A p) (\<lambda>l. append_message A l m)) d = (Ok (), d') \<Longrightarrow> chat_replicas A chg (p, d', M) e"
| replicas_generate: "chat_replicas A chg (p, d, M) e \<Longrightarrow> am_generate_sync A d s = (Some m, s') \<Longrightarrow>
     chat_replicas A chg (p, d, insert m M) e"
| replicas_receive: "chat_replicas A chg (p, d, M) (p', d', M') \<Longrightarrow> m \<in> M' \<Longrightarrow> am_receive_sync A d s m = (Ok (), d1, s', l) \<Longrightarrow>
     chat_replicas A chg (p, d1, M) (p', d', M')"
| replicas_reload: "chat_replicas A chg (p, d, M) e \<Longrightarrow> chg d1 = chg d \<Longrightarrow> chat_replicas A chg (p, d1, M) e"
| replicas_swap: "chat_replicas A chg e1 e2 \<Longrightarrow> chat_replicas A chg e2 e1"

text \<open>
  What is relied on: between such replicas, which never delete anything and never write to the same
  list, taking in a message leaves a chat document with all messages that were there.
\<close>

definition merge_laws :: "('d, 't, 'o, 'h, 's, 'm, 'l) automerge \<Rightarrow> ('d \<Rightarrow> 'c set) \<Rightarrow> ('d \<Rightarrow> 'o objects) \<Rightarrow> bool" where
  "merge_laws A chg g \<longleftrightarrow>
     (\<forall>p d M p' d' M' s m. chat_replicas A chg (p, d, M) (p', d', M') \<longrightarrow> m \<in> M' \<longrightarrow> only_adds A g d s m)"

lemma replicas_answer:
  assumes R: "chat_replicas A chg (p, doc c, M) (p', doc r, M')" and m: "\<forall>x. m = Some x \<longrightarrow> x \<in> M"
    and rcv: "receive_sync_message A env show_id m (r, q) = (Ok (ms, answer), (r', q'))"
  shows "\<exists>M''. chat_replicas A chg (p', doc r', M'') (p, doc c, M) \<and> (\<forall>out y. answer = Some out \<longrightarrow> out = Some y \<longrightarrow> y \<in> M'')"
proof -
  obtain s out where t: "taken A (doc r) (sync_state r) m (doc r') s" "am_generate_sync A (doc r') s = (out, sync_state r')"
      "answer = (if m = None \<and> out = None then None else Some out)"
    using receive_asks [OF rcv] by blast
  have R1: "chat_replicas A chg (p', doc r', M') (p, doc c, M)"
  proof (cases m)
    case None
    then show ?thesis using R t(1) replicas_swap by (simp add: taken_def)
  next
    case (Some x)
    then obtain l where "am_receive_sync A (doc r) (sync_state r) x = (Ok (), doc r', s, l)"
      using t(1) by (auto simp: taken_def)
    then show ?thesis using replicas_receive [OF replicas_swap [OF R]] m Some by blast
  qed
  show ?thesis
  proof (cases out)
    case None
    then show ?thesis using R1 t(3) by (auto split: if_splits)
  next
    case (Some y)
    then show ?thesis using replicas_generate [OF R1, of s y] t(2,3) by auto
  qed
qed

section \<open>Where messages come from\<close>

text \<open>
  What is relied on to know where the messages of such replicas come from. Every message is there because
  of an operation that inserted it; the operations of a document are known from its changes, and so
  are its objects; a sync message carries operations of the document that it was generated from;
  receiving it brings no others; and storing a message is one operation. In a new chat there is none.
\<close>

definition op_laws ::
  "('d, 't, 'o, 'h, 's, 'm, 'l) automerge \<Rightarrow> ('d \<Rightarrow> 'c set) \<Rightarrow> ('d \<Rightarrow> 'o objects)
     \<Rightarrow> ('d \<Rightarrow> ('k \<times> chat_message) set) \<Rightarrow> ('m \<Rightarrow> ('k \<times> chat_message) set) \<Rightarrow> bool" where
  "op_laws A chg g ops carried \<longleftrightarrow>
     (\<forall>d. finite (ops d)) \<and>
     (\<forall>d d'. chg d = chg d' \<longrightarrow> g d = g d' \<and> ops d = ops d') \<and>
     (\<forall>d s m s'. am_generate_sync A d s = (Some m, s') \<longrightarrow> carried m \<subseteq> ops d) \<and>
     (\<forall>cid d. transact A (io_map_err Automerge (tx_reconcile_init A cid)) (am_new A) = (Ok (), d) \<longrightarrow> ops d = {}) \<and>
     (\<forall>p d M p' d' M'. chat_replicas A chg (p, d, M) (p', d', M') \<longrightarrow>
        view_messages (peer_view (am_root A) (g d)) \<subseteq># image_mset snd (mset_set (ops d)) \<and>
        (\<forall>m d1. transact A (io_bind (ensure_peer_list A p) (\<lambda>l. append_message A l m)) d = (Ok (), d1) \<longrightarrow>
           (\<exists>k. ops d1 \<subseteq> insert (k, m) (ops d))) \<and>
        (\<forall>s m d1 s' l. m \<in> M' \<longrightarrow> am_receive_sync A d s m = (Ok (), d1, s', l) \<longrightarrow> ops d1 \<subseteq> ops d \<union> carried m))"

lemma op_view:
  "op_laws A chg g ops carried \<Longrightarrow> chat_replicas A chg (p, d, M) (p', d', M') \<Longrightarrow>
     view_messages (peer_view (am_root A) (g d)) \<subseteq># image_mset snd (mset_set (ops d))"
  unfolding op_laws_def by meson

lemma op_finite: "op_laws A chg g ops carried \<Longrightarrow> finite (ops d)"
  unfolding op_laws_def by metis

lemma op_same: "op_laws A chg g ops carried \<Longrightarrow> chg d = chg d' \<Longrightarrow> g d = g d' \<and> ops d = ops d'"
  unfolding op_laws_def by metis

lemma op_generate: "op_laws A chg g ops carried \<Longrightarrow> am_generate_sync A d s = (Some m, s') \<Longrightarrow> carried m \<subseteq> ops d"
  unfolding op_laws_def by meson

lemma op_receive:
  "op_laws A chg g ops carried \<Longrightarrow> chat_replicas A chg (p, d, M) (p', d', M') \<Longrightarrow> m \<in> M' \<Longrightarrow>
     am_receive_sync A d s m = (Ok (), d1, s', l) \<Longrightarrow> ops d1 \<subseteq> ops d \<union> carried m"
  unfolding op_laws_def by meson

lemma op_store:
  "op_laws A chg g ops carried \<Longrightarrow> chat_replicas A chg (p, d, M) (p', d', M') \<Longrightarrow>
     transact A (io_bind (ensure_peer_list A p) (\<lambda>l. append_message A l m)) d = (Ok (), d1) \<Longrightarrow>
     \<exists>k. ops d1 \<subseteq> insert (k, m) (ops d)"
  unfolding op_laws_def by meson

lemma op_new:
  "op_laws A chg g ops carried \<Longrightarrow>
     transact A (io_map_err Automerge (tx_reconcile_init A cid)) (am_new A) = (Ok (), d) \<Longrightarrow> ops d = {}"
  unfolding op_laws_def by meson

text \<open>The messages that come from the operations \<open>Z\<close>.\<close>

abbreviation op_messages :: "('k \<times> chat_message) set \<Rightarrow> chat_message multiset" where
  "op_messages Z \<equiv> image_mset snd (mset_set Z)"

lemma op_messages_mono: "finite Z \<Longrightarrow> Y \<subseteq> Z \<Longrightarrow> op_messages Y \<subseteq># op_messages Z"
  by (intro image_mset_subseteq_mono) (simp add: subset_imp_msubset_mset_set)

lemma op_messages_insert: "finite Z \<Longrightarrow> op_messages (insert (k, m) Z) \<subseteq># add_mset m (op_messages Z)"
  by (cases "(k, m) \<in> Z") (simp_all add: insert_absorb)

text \<open>A message that is handed over carries only operations out of \<open>Z\<close>.\<close>

definition carries_from :: "('m \<Rightarrow> ('k \<times> chat_message) set) \<Rightarrow> ('k \<times> chat_message) set \<Rightarrow> 'm option \<Rightarrow> bool" where
  "carries_from carried Z m \<longleftrightarrow> (\<forall>x. m = Some x \<longrightarrow> carried x \<subseteq> Z)"

lemma generate_carries:
  "op_laws A chg g ops carried \<Longrightarrow> am_generate_sync A d s = (m, s') \<Longrightarrow> ops d \<subseteq> Z \<Longrightarrow> carries_from carried Z m"
  unfolding carries_from_def by (metis op_generate order_trans)

lemma receive_ops:
  assumes O: "op_laws A chg g ops carried" and "ops (doc r) \<subseteq> Z" "carries_from carried Z m"
    and R: "chat_replicas A chg (p1, doc r, M1) (p2, d2, M2)" "\<And>x. m = Some x \<Longrightarrow> x \<in> M2"
    and rcv: "receive_sync_message A env show_id m (r, p) = (Ok (ms, answer), (r', p'))"
  shows "ops (doc r') \<subseteq> Z" "answer = Some out \<Longrightarrow> carries_from carried Z out"
proof -
  obtain s m' where t: "taken A (doc r) (sync_state r) m (doc r') s" "am_generate_sync A (doc r') s = (m', sync_state r')"
      "answer = (if m = None \<and> m' = None then None else Some m')"
    using receive_asks [OF rcv] by blast
  show ops: "ops (doc r') \<subseteq> Z"
  proof (cases m)
    case (Some x)
    then obtain l where "am_receive_sync A (doc r) (sync_state r) x = (Ok (), doc r', s, l)"
      using t(1) by (auto simp: taken_def)
    then show ?thesis using op_receive [OF O R(1) R(2) [OF Some]] assms(2,3) Some unfolding carries_from_def by blast
  qed (use t(1) assms(2) in \<open>simp add: taken_def\<close>)
  show "carries_from carried Z out" if "answer = Some out"
    using generate_carries [OF O t(2) ops] t(3) that by (auto split: if_splits)
qed

text \<open>
  So in the whole exchange nothing is invented, and what was there stays.
\<close>

definition from_ops ::
  "('d, 't, 'o, 'h, 's, 'm, 'l) automerge \<Rightarrow> ('d \<Rightarrow> 'o objects) \<Rightarrow> ('d \<Rightarrow> ('k \<times> chat_message) set)
     \<Rightarrow> ('k \<times> chat_message) set \<Rightarrow> chat_message set \<Rightarrow> 'd \<Rightarrow> bool" where
  "from_ops A g ops Z M d \<longleftrightarrow> chat_objects (am_root A) (g d) \<and> ops d \<subseteq> Z \<and> M \<subseteq> doc_messages A g d"

lemma receive_from_ops:
  assumes "doc_laws A h g" "patch_laws A g" "op_laws A chg g ops carried" "merge_laws A chg g"
    and R: "chat_replicas A chg (p1, doc r, M1) (p2, d2, M2)" "\<And>x. m = Some x \<Longrightarrow> x \<in> M2"
    and F: "from_ops A g ops Z M (doc r)" "carries_from carried Z m"
    and rcv: "receive_sync_message A env show_id m (r, p) = (Ok (ms, answer), (r', p'))"
  shows "from_ops A g ops Z M (doc r')" "answer = Some out \<Longrightarrow> carries_from carried Z out"
proof -
  have adds: "only_adds A g (doc r) (sync_state r) x" if "m = Some x" for x
    using assms(4) R(1) R(2) [OF that] unfolding merge_laws_def by blast
  note S = receive_ops [OF assms(3) _ F(2) R rcv]
  show "from_ops A g ops Z M (doc r')"
    using received_messages [OF assms(1,2) _ rcv adds] S(1) F(1) by (auto simp: from_ops_def brings_def)
  show "carries_from carried Z out" if "answer = Some out" using S(2) that F(1) by (simp add: from_ops_def)
qed

text \<open>The exchange between two replicas, out of which one has the messages \<open>M\<close>.\<close>

definition replicas_under_way ::
  "('d, 't, 'o, 'h, 's, 'm, 'l) automerge \<Rightarrow> ('d \<Rightarrow> 'c set) \<Rightarrow> ('d \<Rightarrow> 'o objects) \<Rightarrow> ('d \<Rightarrow> ('k \<times> chat_message) set)
     \<Rightarrow> ('m \<Rightarrow> ('k \<times> chat_message) set) \<Rightarrow> ('k \<times> chat_message) set \<Rightarrow> chat_message set \<Rightarrow> 'm option
     \<Rightarrow> ('id, 'd, 'h, 's) chat_repository \<times> pool \<Rightarrow> ('id, 'd, 'h, 's) chat_repository \<times> pool \<Rightarrow> bool" where
  "replicas_under_way A chg g ops carried Z M m a b \<longleftrightarrow>
     (\<exists>p p' N N' M' M''. chat_replicas A chg (p, doc (fst a), N) (p', doc (fst b), N') \<and> (\<forall>x. m = Some x \<longrightarrow> x \<in> N) \<and>
        from_ops A g ops Z M' (doc (fst a)) \<and> from_ops A g ops Z M'' (doc (fst b)) \<and> M = M' \<union> M'' \<and> carries_from carried Z m)"

definition kept_by_one ::
  "('d, 't, 'o, 'h, 's, 'm, 'l) automerge \<Rightarrow> ('d \<Rightarrow> 'c set) \<Rightarrow> ('d \<Rightarrow> 'o objects) \<Rightarrow> ('d \<Rightarrow> ('k \<times> chat_message) set)
     \<Rightarrow> ('k \<times> chat_message) set \<Rightarrow> chat_message set
     \<Rightarrow> ('id, 'd, 'h, 's) chat_repository \<times> pool \<Rightarrow> ('id, 'd, 'h, 's) chat_repository \<times> pool \<Rightarrow> bool" where
  "kept_by_one A chg g ops Z M a b \<longleftrightarrow>
     (\<exists>p p' N N'. chat_replicas A chg (p, doc (fst a), N) (p', doc (fst b), N')) \<and>
     (\<exists>M' M''. from_ops A g ops Z M' (doc (fst a)) \<and> from_ops A g ops Z M'' (doc (fst b)) \<and> M = M' \<union> M'')"

lemma kept_by_other: "kept_by_one A chg g ops Z M a b \<Longrightarrow> kept_by_one A chg g ops Z M b a"
  unfolding kept_by_one_def by (metis replicas_swap sup_commute)

lemma replicas_under_way_step:
  assumes L: "doc_laws A h g" "patch_laws A g" "op_laws A chg g ops carried" "merge_laws A chg g"
    and P: "replicas_under_way A chg g ops carried Z M m a b"
    and rcv: "receive_sync_message A env show_id m b = (Ok (ms, ans), b')"
  shows "case ans of None \<Rightarrow> kept_by_one A chg g ops Z M a b' | Some out \<Rightarrow> replicas_under_way A chg g ops carried Z M out b' a"
proof -
  obtain r q r' q' where b: "b = (r, q)" "b' = (r', q')" by fastforce
  obtain p p' N N' M' M'' where R: "chat_replicas A chg (p, doc (fst a), N) (p', doc r, N')" "\<forall>x. m = Some x \<longrightarrow> x \<in> N"
    and F: "from_ops A g ops Z M' (doc (fst a))" "from_ops A g ops Z M'' (doc r)" "M = M' \<union> M''" "carries_from carried Z m"
    using P by (auto simp: replicas_under_way_def b)
  note step = receive_from_ops [OF L replicas_swap [OF R(1)] R(2) [rule_format] F(2,4) rcv [unfolded b]]
  have F': "from_ops A g ops Z M'' (doc r')" by (rule step(1))
  have out: "carries_from carried Z out" if "ans = Some out" for out by (rule step(2) [OF _ that])
  obtain N'' where N: "chat_replicas A chg (p', doc r', N'') (p, doc (fst a), N)" "\<forall>out y. ans = Some out \<longrightarrow> out = Some y \<longrightarrow> y \<in> N''"
    using replicas_answer [OF R rcv [unfolded b]] by blast
  have M: "M = M'' \<union> M'" using F(3) by (simp add: Un_commute)
  show ?thesis
  proof (cases ans)
    case None
    then have "kept_by_one A chg g ops Z M a b'"
      unfolding kept_by_one_def b using replicas_swap [OF N(1)] F(1,3) F' by (metis fst_conv)
    then show ?thesis using None by simp
  next
    case (Some out')
    then have "replicas_under_way A chg g ops carried Z M out' b' a"
      unfolding replicas_under_way_def b using N F(1) F' M out by (metis fst_conv)
    then show ?thesis using Some by simp
  qed
qed

section \<open>The test\<close>

lemma new_repository_sync: "new_repository A env show_id c p = (Ok r, p') \<Longrightarrow> sync_state r = am_sync_new A"
  by (auto simp: new_repository_def io_bind_Ok_iff)

lemma history_row: "has_history A chg blob g show_id c ms n r p \<Longrightarrow> chat_row (chat_id_display show_id c) p"
  by (force simp: has_history_def db_holds_def chat_row_def dest: map_of_SomeD)

lemma add_message_generates:
  assumes "add_message A env show_id now i c (r, p) = (Ok (x, m), (r', p'))"
  obtains r0 where "generate_sync_message A r0 = (m, r')" "doc r0 = doc r'" "sync_state r0 = sync_state r"
    "repo_chat_id r0 = repo_chat_id r"
proof -
  obtain d r0 p0 where r0: "persist_chat A env show_id (r\<lparr>doc := d\<rparr>, p) = (Ok (), (r0, p0))" "generate_sync_message A r0 = (m, r')"
    using assms by (auto simp: add_message_def Let_def split: prod.splits result.splits)
  then show thesis
    using that persist_chat_parts [OF r0(1)] generate_sync_message_keeps [OF r0(2)] by simp
qed

lemma single_message:
  assumes "us \<noteq> []" "mset us \<subseteq># {#m#}"
  shows "us = [m]"
proof -
  have "length us \<le> 1" using size_mset_mono [OF assms(2)] by simp
  then obtain x where "us = [x]" using assms(1) by (cases us) auto
  then show ?thesis using assms(2) by simp
qed

lemma only_message_shown:
  assumes D: "doc_laws A h g" and O: "op_laws A chg g ops carried" and R: "chat_replicas A chg (p, doc r, N) (p', d', N')"
    and F: "from_ops A g ops {(k, m)} {m} (doc r)"
  shows "get_all_messages b A r = Return (Ok [m])"
proof -
  let ?v = "view_messages (peer_view (am_root A) (g (doc r)))"
  have sub: "?v \<subseteq># {#m#}"
    using op_view [OF O R] op_messages_mono [of "{(k, m)}" "ops (doc r)"] F by (auto simp: from_ops_def intro: subset_mset.trans)
  have chat: "chat_objects (am_root A) (g (doc r))" using F by (simp add: from_ops_def)
  have "size ?v < usize_max" using size_mset_mono [OF sub] by (simp add: usize_max_def)
  then obtain us where "get_all_messages b A r = Return (Ok us)" "set us = doc_messages A g (doc r)" "mset us = ?v"
    using all_messages_of_doc [OF D chat] by metis
  moreover have "m \<in> doc_messages A g (doc r)" using F by (simp add: from_ops_def)
  ultimately show ?thesis using single_message [of us m] sub by (metis length_pos_if_in_set length_0_conv less_irrefl)
qed

lemma exchange_from_ops:
  assumes L: "doc_laws (lib_am L) h g" "patch_laws (lib_am L) g" "op_laws (lib_am L) chg g ops carried" "merge_laws (lib_am L) chg g"
    and R: "chat_replicas (lib_am L) chg (p, doc r0, {}) (p', doc (fst r), {})"
    and F: "from_ops (lib_am L) g ops Z M (doc r0)" "from_ops (lib_am L) g ops Z {} (doc (fst r))"
    and gen: "generate_sync_message (lib_am L) r0 = (m, r1)"
    and run: "sync_repos L env1 env2 m (r1, p1) r = (Return (Ok ()), c', r')"
  shows "kept_by_one (lib_am L) chg g ops Z M c' r'"
proof (rule sync_loop_ends [OF run [unfolded sync_repos_def], where P = "replicas_under_way (lib_am L) chg g ops carried Z M"])
  have m: "am_generate_sync (lib_am L) (doc r0) (sync_state r0) = (m, sync_state r1)" "doc r1 = doc r0"
    using gen by (auto simp: generate_parts)
  have "carries_from carried Z m" using generate_carries [OF L(3) m(1)] F(1) by (simp add: from_ops_def)
  moreover have "chat_replicas (lib_am L) chg (p, doc r0, set_option m) (p', doc (fst r), {})"
    using R replicas_generate [OF R, of "sync_state r0"] m(1) by (cases m) auto
  ultimately show "replicas_under_way (lib_am L) chg g ops carried Z M m (r1, p1) r"
    unfolding replicas_under_way_def using F m(2)
    by (intro exI [of _ p] exI [of _ p'] exI [of _ "set_option m"] exI [of _ "{}"] exI [of _ M]) auto
qed (auto intro: kept_by_other replicas_under_way_step [OF L])

lemma agreed_messages:
  assumes O: "op_laws A chg g ops carried" and K: "kept_by_one A chg g ops Z M c r" and same: "chg (doc (fst c)) = chg (doc (fst r))"
  obtains p p' N N' where "from_ops A g ops Z M (doc (fst r))" "chat_replicas A chg (p, doc (fst r), N) (p', doc (fst c), N')"
proof -
  have "g (doc (fst c)) = g (doc (fst r))" using op_same [OF O same] by blast
  then have "from_ops A g ops Z M (doc (fst r))" using K by (auto simp: kept_by_one_def from_ops_def doc_messages_def)
  then show thesis using that K replicas_swap unfolding kept_by_one_def by metis
qed


end
