(* ===== verification/Replica.thy ===== *)
theory Replica
  imports Repo_Sync
begin

text \<open>
  A small document library that keeps all promises at once: it stores, has transactions, merges and
  synchronises. A document is a collection of versions, each of which knows the versions it was made
  from and holds all objects. It shows that what the other theories rely on can be had together, and
  the examples of two peers run on it.
\<close>

section \<open>Messages of a heap of objects\<close>

definition ref_list_ok :: "ref_doc \<Rightarrow> (am_value \<times> nat) option \<Rightarrow> bool" where
  "ref_list_ok d e \<longleftrightarrow>
     (case e of
        None \<Rightarrow> False
      | Some (v, i) \<Rightarrow>
          (case map_of d i of
             Some (RefList xs) \<Rightarrow> list_all (\<lambda>x. read_message_object (ref_objects d) (snd x) \<noteq> None) xs
           | _ \<Rightarrow> False))"

definition ref_chat :: "ref_doc \<Rightarrow> bool" where
  "ref_chat d \<longleftrightarrow>
     (case map_of d 0 of
        Some (RefMap al) \<Rightarrow>
          list_all (\<lambda>p. ref_list_ok d (map_of al (peer_list_key p))) (doc_peers ref_am d) \<and>
          distinct (map (\<lambda>p. snd (the (map_of al (peer_list_key p)))) (doc_peers ref_am d))
      | _ \<Rightarrow> False)"

lemma ref_list_ok_iff:
  "ref_list_ok d (Some (v, i)) \<longleftrightarrow>
     (\<exists>xs. map_of d i = Some (RefList xs) \<and> (\<forall>x\<in>set xs. read_message_object (ref_objects d) (snd x) \<noteq> None))"
  by (auto simp: ref_list_ok_def list_all_iff split: option.splits ref_node.splits)

lemma ref_peers:
  assumes "map_of d 0 = Some (RefMap al)"
  shows "set (doc_peers ref_am d) = {p. map_of al (peer_list_key p) \<noteq> None}" "distinct (doc_peers ref_am d)"
proof -
  have keys: "am_keys ref_am d (am_root ref_am) = remdups (map fst al)" using assms by (simp add: ref_am_def)
  show "set (doc_peers ref_am d) = {p. map_of al (peer_list_key p) \<noteq> None}"
    by (auto simp: doc_peers_def keys peer_list_key_def list_key_cases image_iff map_of_eq_None_iff)
      (force, metis append_eq_conv_conj fst_conv)
  show "distinct (doc_peers ref_am d)"
    by (auto simp: doc_peers_def keys distinct_map inj_on_def list_key_cases peer_list_key_def)
qed

lemma ref_chat_iff: "ref_chat d \<longleftrightarrow> chat_objects 0 (ref_objects d)"
proof (cases "\<exists>al. map_of d 0 = Some (RefMap al)")
  case True
  then obtain al where al: "map_of d 0 = Some (RefMap al)" by blast
  note P = ref_peers [OF al]
  let ?e = "\<lambda>p. map_of al (peer_list_key p)"
  let ?apart = "inj_on (\<lambda>p. snd (the (?e p))) {p. ?e p \<noteq> None}"
  have "ref_chat d \<longleftrightarrow> (\<forall>p\<in>{p. ?e p \<noteq> None}. ref_list_ok d (?e p)) \<and> ?apart"
    by (simp add: ref_chat_def al list_all_iff P distinct_map)
  also have "\<dots> \<longleftrightarrow> (\<forall>p v i. ?e p = Some (v, i) \<longrightarrow> ref_list_ok d (Some (v, i))) \<and> ?apart"
    by auto (metis)
  also have "?apart \<longleftrightarrow> (\<forall>p q v w i. ?e p = Some (v, i) \<longrightarrow> ?e q = Some (w, i) \<longrightarrow> p = q)"
    unfolding inj_on_def by auto
  also have "(\<forall>p v i. ?e p = Some (v, i) \<longrightarrow> ref_list_ok d (Some (v, i))) \<and>
      (\<forall>p q v w i. ?e p = Some (v, i) \<longrightarrow> ?e q = Some (w, i) \<longrightarrow> p = q) \<longleftrightarrow> chat_objects 0 (ref_objects d)"
    unfolding chat_objects_def ref_list_ok_iff by (simp add: al)
  finally show ?thesis .
qed (auto simp: ref_chat_def chat_objects_def split: option.splits ref_node.splits)

text \<open>Every message of a list with the number of the messages before it that are equal to it.\<close>

definition copies :: "'a list \<Rightarrow> (nat \<times> 'a) list" where
  "copies ms = map (\<lambda>j. (count_list (take j ms) (ms ! j), ms ! j)) [0..<length ms]"

lemma copies_simps [simp]: "copies [] = []" "copies (ms @ [m]) = copies ms @ [(count_list ms m, m)]"
  by (simp_all add: copies_def nth_append)

lemma set_copies: "set (copies ms) = {(i, m). i < count_list ms m}"
  by (induction ms rule: rev_induct) (auto simp: less_Suc_eq)

lemma distinct_copies: "distinct (copies ms)"
  by (induction ms rule: rev_induct) (auto simp: set_copies)

lemma copies_messages: "map snd (copies ms) = ms"
  by (simp add: copies_def comp_def map_nth)

text \<open>The insertions that the messages of a heap come from: who, which copy, and what.\<close>

type_synonym insertion = "(string \<times> nat) \<times> chat_message"

abbreviation ref_msgs :: "ref_doc \<Rightarrow> string \<Rightarrow> chat_message list" where
  "ref_msgs d p \<equiv> case_option [] id (peer_view 0 (ref_objects d) p)"

definition heap_ops :: "ref_doc \<Rightarrow> insertion list" where
  "heap_ops d =
     (if ref_chat d
      then concat (map (\<lambda>p. map (\<lambda>(i, m). ((p, i), m)) (copies (ref_msgs d p))) (doc_peers ref_am d))
      else [])"

lemma chat_peers:
  assumes "chat_objects 0 (ref_objects d)"
  shows "distinct (doc_peers ref_am d)" "set (doc_peers ref_am d) = dom (peer_view 0 (ref_objects d))"
proof -
  have "am_root ref_am = 0" by (simp add: ref_am_def)
  then show "distinct (doc_peers ref_am d)" "set (doc_peers ref_am d) = dom (peer_view 0 (ref_objects d))"
    using get_all_peer_lists_view [OF ref_am_doc_laws, of d] assms by metis+
qed

lemma set_heap_ops:
  assumes "chat_objects 0 (ref_objects d)"
  shows "set (heap_ops d) = {((p, i), m). i < count_list (ref_msgs d p) m}"
  using chat_peers(2) [OF assms] assms
  by (auto simp: heap_ops_def ref_chat_iff set_copies image_iff split: option.splits)

lemma distinct_heap_ops: "distinct (heap_ops d)"
proof (cases "ref_chat d")
  case True
  have "distinct (concat (map (\<lambda>p. map (\<lambda>(i, m). ((p, i), m)) (copies (ref_msgs d p))) ps))" if "distinct ps" for ps
    using that by (induction ps) (auto simp: distinct_map distinct_copies inj_on_def)
  then show ?thesis using chat_peers(1) True by (simp add: heap_ops_def ref_chat_iff)
qed (simp add: heap_ops_def)

lemma heap_ops_view:
  assumes "chat_objects 0 (ref_objects d)"
  shows "view_messages (peer_view 0 (ref_objects d)) = op_messages (set (heap_ops d))"
proof -
  let ?v = "peer_view 0 (ref_objects d)"
  note P = chat_peers [OF assms]
  have tag: "snd \<circ> (\<lambda>(i, m). ((p, i), m)) = snd" for p :: string
    by (auto simp: fun_eq_iff)
  have "map snd (concat (map (\<lambda>p. map (\<lambda>(i, m). ((p, i), m)) (copies (f p))) ps)) = concat (map f ps)"
    for f :: "string \<Rightarrow> chat_message list" and ps
    by (induction ps) (simp_all add: tag copies_messages)
  then have "map snd (heap_ops d) = concat (map (ref_msgs d) (doc_peers ref_am d))"
    using assms by (simp add: heap_ops_def ref_chat_iff)
  then have "op_messages (set (heap_ops d)) = mset (concat (map (ref_msgs d) (doc_peers ref_am d)))"
    by (metis mset_map mset_set_set distinct_heap_ops)
  also have "\<dots> = (\<Sum>p\<in>dom ?v. mset (ref_msgs d p))"
    by (simp only: mset_concat_distinct [OF P(1)] P(2))
  also have "\<dots> = view_messages ?v"
    unfolding view_messages_def by (rule sum.cong) auto
  finally show ?thesis ..
qed

section \<open>Building a heap\<close>

definition place :: "insertion \<Rightarrow> ref_doc \<Rightarrow> ref_doc" where
  "place x d = snd (transact ref_am (io_bind (ensure_peer_list ref_am (fst (fst x))) (\<lambda>l. append_message ref_am l (snd x))) d)"

definition build_heap :: "insertion list \<Rightarrow> ref_doc" where
  "build_heap xs = fold place xs [(0, RefMap [])]"

lemma build_heap_view:
  "chat_objects 0 (ref_objects (build_heap xs)) \<and>
   (\<forall>p. ref_msgs (build_heap xs) p = map snd (filter (\<lambda>x. fst (fst x) = p) xs))"
proof (induction xs rule: rev_induct)
  case Nil
  have "chat_objects 0 (ref_objects [(0, RefMap [])])" by (rule chat_objectsI [where f = Map.empty]) simp_all
  moreover have "peer_view 0 (ref_objects [(0, RefMap [])]) p = None" for p by (simp add: peer_view_def)
  ultimately show ?case by (simp add: build_heap_def del: ref_objects_Cons)
next
  case (snoc x xs)
  let ?d = "build_heap xs" and ?p = "fst (fst x)"
  have root: "am_root ref_am = 0" by (simp add: ref_am_def)
  obtain d' where d': "transact ref_am (io_bind (ensure_peer_list ref_am ?p) (\<lambda>l. append_message ref_am l (snd x))) ?d = (Ok (), d')"
    "chat_objects 0 (ref_objects d')"
    "peer_view 0 (ref_objects d') = (peer_view 0 (ref_objects ?d))(?p \<mapsto> ref_msgs ?d ?p @ [snd x])"
    by (rule store_message_view [OF ref_am_tx_laws ref_am_doc_laws, of ?d ?p "snd x"]) (use snoc root in simp_all)
  have "build_heap (xs @ [x]) = d'" using d'(1) by (simp add: build_heap_def place_def)
  then show ?case using d'(2,3) snoc by simp
qed

lemma down_closed_card:
  assumes "finite I" "\<And>i j. i \<in> I \<Longrightarrow> j < i \<Longrightarrow> j \<in> (I :: nat set)"
  shows "I = {..<card I}"
proof (cases "I = {}")
  case False
  note M = Max_ge [OF assms(1)] Max_in [OF assms(1) False]
  have "I = {..Max I}"
    using M(1) assms(2) [OF M(2)] M(2) by (auto simp: le_less)
  then show ?thesis by (metis card_atMost lessThan_Suc_atMost)
qed simp

lemma build_heap_ops:
  assumes "distinct xs" and closed: "\<And>p i j m. ((p, i), m) \<in> set xs \<Longrightarrow> j < i \<Longrightarrow> ((p, j), m) \<in> set xs"
  shows "set (heap_ops (build_heap xs)) = set xs"
proof -
  have "count_list (ref_msgs (build_heap xs) p) m = card {i. ((p, i), m) \<in> set xs}" for p m
  proof -
    have "count_list (ref_msgs (build_heap xs) p) m = length (filter (\<lambda>x. fst (fst x) = p \<and> snd x = m) xs)"
      using build_heap_view [of xs] by (simp add: count_list_eq_length_filter filter_map comp_def conj_commute eq_commute)
    also have "\<dots> = card {x \<in> set xs. fst (fst x) = p \<and> snd x = m}"
      using assms(1) by (simp flip: distinct_card)
    also have "\<dots> = card ((\<lambda>i. ((p, i), m)) ` {i. ((p, i), m) \<in> set xs})"
      by (rule arg_cong [of _ _ card]) (auto simp: image_iff)
    also have "\<dots> = card {i. ((p, i), m) \<in> set xs}" by (rule card_image) (simp add: inj_on_def)
    finally show ?thesis .
  qed
  moreover have "{i. ((p, i), m) \<in> set xs} = {..<card {i. ((p, i), m) \<in> set xs}}" for p m
  proof (rule down_closed_card)
    have "{i. ((p, i), m) \<in> set xs} \<subseteq> (\<lambda>x. snd (fst x)) ` set xs" by force
    then show "finite {i. ((p, i), m) \<in> set xs}" by (rule finite_subset) simp
  qed (use closed in blast)
  then have "i < card {i. ((p, i), m) \<in> set xs} \<longleftrightarrow> ((p, i), m) \<in> set xs" for p i m by blast
  ultimately show ?thesis
    using set_heap_ops [of "build_heap xs"] build_heap_view [of xs] by auto
qed

section \<open>Versions\<close>

datatype version = Version (made_from: "version list") (heap_of: ref_doc)

type_synonym replica = "version list"

text \<open>Versions as bytes, by way of trees: an opening and a closing byte, and a byte that announces another.\<close>

datatype tree = Leaf byte | Node (kids: "tree list")
  where "kids (Leaf b) = []"

fun tree_bytes :: "tree \<Rightarrow> bytes" where
  "tree_bytes (Leaf b) = [2, b]"
| "tree_bytes (Node ts) = 1 # concat (map tree_bytes ts) @ [0]"

fun parse_trees :: "tree list \<Rightarrow> tree list list \<Rightarrow> bytes \<Rightarrow> tree list" where
  "parse_trees ts up [] = ts"
| "parse_trees ts up (b # bs) =
     (if b = 1 then parse_trees [] (ts # up) bs
      else if b = 0 then (case up of us # up' \<Rightarrow> parse_trees (us @ [Node ts]) up' bs | [] \<Rightarrow> ts)
      else (case bs of c # bs' \<Rightarrow> parse_trees (ts @ [Leaf c]) up bs' | [] \<Rightarrow> ts))"

lemma parse_tree [simp]: "parse_trees ts up (tree_bytes t @ bs) = parse_trees (ts @ [t]) up bs"
proof (induction t arbitrary: ts up bs rule: tree_bytes.induct)
  case (2 us)
  have "parse_trees ts up (concat (map tree_bytes vs) @ bs) = parse_trees (ts @ vs) up bs" if "set vs \<subseteq> set us" for vs ts up bs
    using that by (induction vs arbitrary: ts) (simp_all add: 2)
  then show ?case by simp
qed simp

definition nat_tree :: "nat \<Rightarrow> tree" where
  "nat_tree n = Node (replicate n (Node []))"

definition str_tree :: "string \<Rightarrow> tree" where
  "str_tree s = Node (map (\<lambda>c. Leaf (word_of_nat (of_char c))) s)"

definition tree_str :: "tree \<Rightarrow> string" where
  "tree_str t = map (\<lambda>u. case u of Leaf b \<Rightarrow> char_of (unat b) | Node _ \<Rightarrow> CHR ''?'') (kids t)"

fun value_tree :: "am_value \<Rightarrow> tree" where
  "value_tree (Object ObjMap) = Node []"
| "value_tree (Object ObjList) = Node [Node []]"
| "value_tree (Scalar (ScalarStr s)) = Node [Node [], str_tree s]"
| "value_tree (Scalar (ScalarInt w)) = Node [Node [], Node [], nat_tree (unat w)]"

definition tree_value :: "tree \<Rightarrow> am_value" where
  "tree_value t =
     (case kids t of
        [_] \<Rightarrow> Object ObjList
      | [_, s] \<Rightarrow> Scalar (ScalarStr (tree_str s))
      | [_, _, n] \<Rightarrow> Scalar (ScalarInt (word_of_nat (length (kids n))))
      | _ \<Rightarrow> Object ObjMap)"

fun node_tree :: "ref_node \<Rightarrow> tree" where
  "node_tree (RefMap al) = Node (map (\<lambda>(k, v, i). Node [str_tree k, value_tree v, nat_tree i]) al)"
| "node_tree (RefList xs) = Node (Leaf 0 # map (\<lambda>(v, i). Node [value_tree v, nat_tree i]) xs)"

definition tree_node :: "tree \<Rightarrow> ref_node" where
  "tree_node t =
     (case kids t of
        Leaf _ # ts \<Rightarrow> RefList (map (\<lambda>u. (tree_value (kids u ! 0), length (kids (kids u ! 1)))) ts)
      | ts \<Rightarrow> RefMap (map (\<lambda>u. (tree_str (kids u ! 0), tree_value (kids u ! 1), length (kids (kids u ! 2)))) ts))"

definition heap_tree :: "ref_doc \<Rightarrow> tree" where
  "heap_tree hp = Node (map (\<lambda>(i, n). Node [nat_tree i, node_tree n]) hp)"

definition tree_heap :: "tree \<Rightarrow> ref_doc" where
  "tree_heap t = map (\<lambda>u. (length (kids (kids u ! 0)), tree_node (kids u ! 1))) (kids t)"

fun version_tree :: "version \<Rightarrow> tree" where
  "version_tree (Version vs hp) = Node [heap_tree hp, Node (map version_tree vs)]"

fun tree_version :: "tree \<Rightarrow> version" where
  "tree_version (Node [h, Node ts]) = Version (map tree_version ts) (tree_heap h)"
| "tree_version _ = Version [] []"

lemma tree_str_inv [simp]: "tree_str (str_tree s) = s"
proof -
  have "unat (word_of_nat (of_char c) :: byte) = of_char c" for c
    by (simp add: unat_of_nat take_bit_eq_mod of_char_mod_256)
  then show ?thesis by (simp add: tree_str_def str_tree_def comp_def)
qed

lemma tree_value_inv [simp]: "tree_value (value_tree v) = v"
  by (cases v rule: value_tree.cases) (simp_all add: tree_value_def nat_tree_def)

lemma tree_node_inv [simp]: "tree_node (node_tree n) = n"
proof (cases n)
  case (RefMap al)
  then show ?thesis
    by (cases al) (auto simp: tree_node_def nat_tree_def case_prod_unfold comp_def)
qed (auto simp: tree_node_def nat_tree_def case_prod_unfold comp_def)

lemma tree_heap_inv [simp]: "tree_heap (heap_tree hp) = hp"
  by (simp add: tree_heap_def heap_tree_def nat_tree_def case_prod_unfold comp_def)

lemma tree_version_inv [simp]: "tree_version (version_tree v) = v"
  by (induction v rule: version_tree.induct) (simp add: comp_def map_idI)

definition number_version :: "version \<Rightarrow> bytes" where
  "number_version v = tree_bytes (version_tree v)"

definition named_versions :: "bytes \<Rightarrow> version list" where
  "named_versions bs = map tree_version (parse_trees [] [] bs)"

lemma parse_versions: "parse_trees ts [] (concat (map number_version vs) @ bs) = parse_trees (ts @ map version_tree vs) [] bs"
  by (induction vs arbitrary: ts) (simp_all add: number_version_def)

lemma named_save: "named_versions (concat (map number_version d)) = d"
  using parse_versions [of "[]" d "[]"] by (simp add: named_versions_def comp_def)

lemma number_version_Cons: "number_version v \<noteq> []"
  by (cases v) (simp add: number_version_def)

lemma named_chunks_version:
  assumes "\<forall>b\<in>set bss. \<exists>vs. b = concat (map number_version vs)"
  shows "named_versions (concat bss) = concat (map named_versions bss)"
proof -
  have "\<exists>vss. bss = map (\<lambda>vs. concat (map number_version vs)) vss"
    using assms by (induction bss) (auto intro: exI [of _ "x # xs" for x xs])
  then obtain vss where vss: "bss = map (\<lambda>vs. concat (map number_version vs)) vss" by blast
  have "concat bss = concat (map number_version (concat vss))"
    unfolding vss by (induction vss) simp_all
  then show ?thesis by (simp add: named_save vss comp_def)
qed

text \<open>A version covers a document when everything in the document is known to it.\<close>

definition covers :: "replica \<Rightarrow> version \<Rightarrow> bool" where
  "covers d v \<longleftrightarrow> list_all (\<lambda>u. u = v \<or> u \<in> set (made_from v)) d"

definition replica_ops :: "replica \<Rightarrow> insertion list" where
  "replica_ops d = concat (map (heap_ops \<circ> heap_of) d)"

text \<open>The version that covers a document holds its objects; without one, all messages are put together.\<close>

definition insertion_key :: "insertion \<Rightarrow> string \<times> nat \<times> string \<times> string \<times> string \<times> int \<times> int" where
  "insertion_key x = (case x of ((p, i), m) \<Rightarrow>
     (p, i, msg_id m, sender_node_id m, (case content m of Text t \<Rightarrow> t), sint (created_at m), sint (updated_at m)))"

definition put_together :: "replica \<Rightarrow> ref_doc" where
  "put_together d = build_heap (sort_key insertion_key (remdups (replica_ops d)))"

definition heap_now :: "replica \<Rightarrow> ref_doc" where
  "heap_now d = (case filter (covers d) d of v # _ \<Rightarrow> heap_of v | [] \<Rightarrow> put_together d)"

lemma size_made_from: "u \<in> set (made_from v) \<Longrightarrow> size u < size v"
  by (cases v) (auto simp: less_Suc_eq_le intro: size_list_estimation' [OF _ order_refl])

lemma covers_iff: "covers d v \<longleftrightarrow> set d \<subseteq> insert v (set (made_from v))"
  by (auto simp: covers_def list_all_iff)

lemma cover_unique: "v \<in> set d \<Longrightarrow> w \<in> set d \<Longrightarrow> covers d v \<Longrightarrow> covers d w \<Longrightarrow> v = w"
  using size_made_from [of v w] size_made_from [of w v] by (force simp: covers_iff)

lemma heap_now_covered:
  assumes "v \<in> set d" "covers d v"
  shows "heap_now d = heap_of v"
proof (cases "filter (covers d) d")
  case Nil
  then show ?thesis using assms by (auto simp: filter_empty_conv)
next
  case (Cons w ws)
  then have "w \<in> set (filter (covers d) d)" by simp
  then have "w \<in> set d" "covers d w" by auto
  then show ?thesis using Cons cover_unique assms by (simp add: heap_now_def) blast
qed

lemma heap_now_apart: "(\<And>v. v \<in> set d \<Longrightarrow> \<not> covers d v) \<Longrightarrow> heap_now d = put_together d"
  by (simp add: heap_now_def filter_empty_conv)

lemma sort_key_remdups_cong:
  assumes "inj_on k (set xs)" "set xs = set ys"
  shows "sort_key k (remdups xs) = sort_key k (remdups ys)"
proof -
  have "map k (sort_key k (remdups xs)) = map k (sort_key k (remdups ys))"
    using assms by (intro sorted_distinct_set_unique) (simp_all add: distinct_map)
  then show ?thesis using assms by (simp add: inj_on_map_eq_map)
qed

lemma insertion_key_inj: "inj insertion_key"
  by (rule injI) (auto simp: insertion_key_def split: chat_message_content.splits prod.splits
      intro!: chat_message.equality signed_word_eqI)

lemma heap_now_cong:
  assumes "set d = set e"
  shows "heap_now d = heap_now e"
proof -
  have cov: "covers d = covers e" using assms by (auto simp: covers_iff fun_eq_iff)
  show ?thesis
  proof (cases "\<exists>v\<in>set d. covers d v")
    case True
    then show ?thesis using heap_now_covered [of _ d] heap_now_covered [of _ e] cov assms by auto
  next
    case False
    have "set (replica_ops d) = set (replica_ops e)" using assms by (simp add: replica_ops_def)
    then have "put_together d = put_together e"
      unfolding put_together_def by (metis sort_key_remdups_cong insertion_key_inj inj_on_subset subset_UNIV)
    then show ?thesis using False heap_now_apart [of d] heap_now_apart [of e] cov assms by auto
  qed
qed

lemma put_together_chat: "chat_objects 0 (ref_objects (put_together d))"
  using build_heap_view by (simp add: put_together_def)

lemma replica_ops_closed: "((p, i), m) \<in> set (replica_ops d) \<Longrightarrow> j < i \<Longrightarrow> ((p, j), m) \<in> set (replica_ops d)"
proof -
  assume "((p, i), m) \<in> set (replica_ops d)" "j < i"
  then obtain v where v: "v \<in> set d" "((p, i), m) \<in> set (heap_ops (heap_of v))" by (auto simp: replica_ops_def)
  then have "chat_objects 0 (ref_objects (heap_of v))" by (auto simp: heap_ops_def ref_chat_iff split: if_splits)
  then have "((p, j), m) \<in> set (heap_ops (heap_of v))" using v(2) set_heap_ops \<open>j < i\<close> by fastforce
  then show ?thesis using v(1) by (auto simp: replica_ops_def)
qed

lemma put_together_ops: "set (heap_ops (put_together d)) = set (replica_ops d)"
  unfolding put_together_def
  by (subst build_heap_ops) (auto simp: distinct_map intro: replica_ops_closed)

text \<open>The insertions of the objects are insertions of the document.\<close>

lemma heap_now_ops: "set (heap_ops (heap_now d)) \<subseteq> set (replica_ops d)"
proof (cases "\<exists>v\<in>set d. covers d v")
  case True
  then show ?thesis using heap_now_covered by (fastforce simp: replica_ops_def)
next
  case False
  then show ?thesis using heap_now_apart [of d] put_together_ops by auto
qed

section \<open>The library\<close>

definition in_version :: "(ref_doc, 'a, 'e) io \<Rightarrow> (replica \<times> ref_doc, 'a, 'e) io" where
  "in_version m t = (case m (snd t) of (x, hp) \<Rightarrow> (x, (fst t, hp)))"

text \<open>
  A version is spoiled when it does not show all messages of the versions it was made from. Merging
  takes over all versions, and adds one that has all messages when a spoiled one would cover them.
\<close>

definition spoiled :: "version \<Rightarrow> bool" where
  "spoiled v \<longleftrightarrow> \<not> ref_chat (heap_of v) \<or> \<not> list_all (\<lambda>x. x \<in> set (heap_ops (heap_of v))) (replica_ops (made_from v))"

definition union :: "replica \<Rightarrow> replica \<Rightarrow> replica" where
  "union d e = d @ filter (\<lambda>v. v \<notin> set d) e"

definition merge_replica :: "replica \<Rightarrow> replica \<Rightarrow> replica" where
  "merge_replica d e =
     (let u = union d e in
      if list_ex (\<lambda>v. covers u v \<and> spoiled v) u then Version u (put_together u) # u else u)"

definition all_places :: "replica \<Rightarrow> nat patch list" where
  "all_places d =
     concat (map (\<lambda>p. map (\<lambda>i. \<lparr>patch_path = [(0, PropMap (peer_list_key p)), (0, PropSeq i)]\<rparr>)
       [0..<length (ref_msgs (heap_now d) p)]) (doc_peers ref_am (heap_now d)))"

definition replica_am ::
  "(replica, replica \<times> ref_doc, nat, replica, replica option, replica, unit) automerge" where
  "replica_am =
     \<lparr>am_root = 0, am_new = [], am_load = (\<lambda>bs. Ok (named_versions bs)), am_save = (\<lambda>d. concat (map number_version d)),
      am_save_after = (\<lambda>d hs. concat (map number_version (filter (\<lambda>v. \<not> list_ex (\<lambda>h. v \<in> set h) hs) d))),
      am_load_incremental = (\<lambda>d bs. Ok (union d (named_versions bs))), am_get_heads = (\<lambda>d. [d]),
      am_keys = (\<lambda>d. ref_keys (heap_now d)), am_get = (\<lambda>d i k. Ok (map_entries (ref_objects (heap_now d) i) k)),
      am_length = (\<lambda>d. ref_length (heap_now d)), am_hydrate_prop = (\<lambda>d. ref_hydrate (heap_now d)),
      tx_begin = (\<lambda>d. (d, heap_now d)), tx_commit = (\<lambda>t. Version (fst t) (snd t) # fst t),
      tx_get = (\<lambda>t i k. Ok (map_entries (ref_objects (snd t) i) k)), tx_length = (\<lambda>t. ref_length (snd t)),
      tx_put_object = (\<lambda>i k ty. in_version (ref_put_object i k ty)),
      tx_insert_object = (\<lambda>i j ty. in_version (ref_insert_object i j ty)),
      tx_put = (\<lambda>i k v. in_version (ref_put i k v)),
      tx_reconcile_init = (\<lambda>c. in_version (ref_put 0 ''chat_id'' (ScalarStr c))),
      am_sync_new = None, am_receive_sync = (\<lambda>d s m. (Ok (), merge_replica d m, s, ())),
      am_make_patches = (\<lambda>d _. all_places d),
      am_generate_sync = (\<lambda>d s. if s = Some d then (None, s) else (Some d, Some d))\<rparr>"

abbreviation replica_objects :: "replica \<Rightarrow> nat objects" where
  "replica_objects d \<equiv> ref_objects (heap_now d)"

abbreviation version_objects :: "replica \<times> ref_doc \<Rightarrow> nat objects" where
  "version_objects t \<equiv> ref_objects (snd t)"

lemma replica_root: "am_root replica_am = 0"
  by (simp add: replica_am_def)

lemma heap_now_commit [simp]: "heap_now (Version d hp # d) = hp"
  using heap_now_covered [of "Version d hp" "Version d hp # d"] by (simp add: covers_iff subset_insertI)

lemma replica_tx_laws: "tx_laws replica_am version_objects"
  unfolding tx_laws_def replica_am_def
  by (auto simp: in_version_def ref_put_object_def ref_insert_object_def ref_put_def ref_objects_def
      simp flip: fun_upd_def intro!: ext)

lemma replica_doc_laws: "doc_laws replica_am version_objects replica_objects"
  using ref_am_doc_laws
  by (simp add: doc_laws_def ref_am_def replica_am_def del: ref_keys.simps ref_length.simps ref_hydrate.simps)

lemma heap_now_Nil: "heap_now [] = [(0, RefMap [])]"
  by (simp add: heap_now_def put_together_def replica_ops_def build_heap_def)

lemma replica_init_laws: "init_laws replica_am version_objects replica_objects"
  unfolding init_laws_def replica_am_def
  by (auto simp: heap_now_Nil in_version_def ref_put_def ref_objects_def simp flip: fun_upd_def intro!: ext)

lemma set_union [simp]: "set (union d e) = set d \<union> set e"
  by (auto simp: union_def)

lemma set_merge_replica: "set d \<union> set e \<subseteq> set (merge_replica d e)"
  by (auto simp: merge_replica_def Let_def)

lemma in_version_fst [simp]: "fst (snd (in_version m t)) = fst t"
  by (simp add: in_version_def split: prod.splits)

lemma replica_storage: "storage_laws replica_am set (\<lambda>bs. set (named_versions bs)) fst"
  unfolding storage_laws_def
proof (intro conjI allI impI)
  fix d e :: replica assume "set e \<subseteq> set d"
  then show "set (named_versions (am_save_after replica_am d (am_get_heads replica_am e))) = set d - set e"
    "(am_save_after replica_am d (am_get_heads replica_am e) = []) = (set d = set e)"
    by (auto simp: replica_am_def named_save filter_empty_conv number_version_Cons)
next
  fix d e :: replica and bss
  assume "\<forall>b\<in>set bss. is_chunk replica_am set b" and all: "set d \<union> \<Union> ((\<lambda>bs. set (named_versions bs)) ` set bss) = set e"
  then have "\<forall>b\<in>set bss. \<exists>ds. b = concat (map number_version ds)"
    by (auto simp: is_chunk_def replica_am_def)
  then have "set d \<union> set (named_versions (concat bss)) = set e" using all named_chunks_version [of bss] by simp
  then show "\<exists>d'. am_load_incremental replica_am d (concat bss) = Ok d' \<and> set d' = set e"
    by (simp add: replica_am_def)
next
  fix d d' :: replica assume "set d = set d'"
  then show "am_keys replica_am d = am_keys replica_am d'" "am_get replica_am d = am_get replica_am d'"
    "am_length replica_am d = am_length replica_am d'" "am_hydrate_prop replica_am d = am_hydrate_prop replica_am d'"
    using heap_now_cong [of d d'] by (simp_all add: replica_am_def)
qed (use set_merge_replica in \<open>auto simp: replica_am_def named_save\<close>)

section \<open>Merging\<close>

lemma spoiled_iff:
  "spoiled v \<longleftrightarrow> \<not> (chat_objects 0 (ref_objects (heap_of v)) \<and> set (replica_ops (made_from v)) \<subseteq> set (heap_ops (heap_of v)))"
  by (auto simp: spoiled_def ref_chat_iff list_all_iff)

lemma replica_ops_union: "set (replica_ops (union d e)) = set (replica_ops d) \<union> set (replica_ops e)"
  by (auto simp: replica_ops_def union_def)

lemma put_together_not_spoiled: "\<not> spoiled (Version u (put_together u))"
  by (simp add: spoiled_iff put_together_chat put_together_ops)

lemma merge_replica_cases:
  obtains (repaired) v where "v \<in> set (union d e)" "covers (union d e) v" "spoiled v"
      "merge_replica d e = Version (union d e) (put_together (union d e)) # union d e"
  | (joined) "\<And>v. v \<in> set (union d e) \<Longrightarrow> covers (union d e) v \<Longrightarrow> \<not> spoiled v" "merge_replica d e = union d e"
proof (cases "\<exists>v\<in>set (union d e). covers (union d e) v \<and> spoiled v")
  case True
  then show thesis using repaired by (auto simp: merge_replica_def Let_def list_ex_iff)
next
  case False
  then have "merge_replica d e = union d e" by (auto simp: merge_replica_def Let_def list_ex_iff)
  then show thesis using joined False by blast
qed

lemma merge_replica_shows:
  "chat_objects 0 (replica_objects (merge_replica d e))"
  "set (replica_ops (merge_replica d e)) = set (replica_ops d) \<union> set (replica_ops e)"
  "set (heap_ops (heap_now (merge_replica d e))) = set (replica_ops (merge_replica d e))"
proof -
  let ?m = "merge_replica d e" and ?u = "union d e"
  have "chat_objects 0 (replica_objects ?m) \<and> set (replica_ops ?m) = set (replica_ops ?u) \<and>
    set (heap_ops (heap_now ?m)) = set (replica_ops ?m)"
  proof (cases rule: merge_replica_cases [of d e])
    case (repaired v)
    then show ?thesis by (simp add: put_together_chat) (simp add: replica_ops_def put_together_ops [unfolded replica_ops_def])
  next
    case joined
    show ?thesis
    proof (cases "\<exists>v\<in>set ?u. covers ?u v")
      case True
      then obtain v where v: "v \<in> set ?u" "covers ?u v" "\<not> spoiled v" using joined(1) by blast
      have "set (replica_ops ?u) \<subseteq> set (heap_ops (heap_of v)) \<union> set (replica_ops (made_from v))"
        using v(2) by (fastforce simp: replica_ops_def covers_iff)
      then show ?thesis
        using v heap_now_covered [OF v(1,2)] heap_now_ops [of ?u] joined(2) by (auto simp: spoiled_iff)
    next
      case False
      then show ?thesis using heap_now_apart [of ?u] put_together_chat put_together_ops joined(2) by auto
    qed
  qed
  then show "chat_objects 0 (replica_objects ?m)" "set (replica_ops ?m) = set (replica_ops d) \<union> set (replica_ops e)"
    "set (heap_ops (heap_now ?m)) = set (replica_ops ?m)"
    using replica_ops_union by simp_all
qed

lemma in_msgs_iff:
  assumes "chat_objects 0 (ref_objects hp)"
  shows "m \<in> set (ref_msgs hp p) \<longleftrightarrow> ((p, 0), m) \<in> set (heap_ops hp)"
  using set_heap_ops [OF assms] count_list_0_iff [of "ref_msgs hp p" m] by auto

lemma all_places_iff:
  assumes "chat_objects 0 (replica_objects d)"
  shows "pt \<in> set (all_places d) \<longleftrightarrow> (\<exists>p ms i. peer_view 0 (replica_objects d) p = Some ms \<and> i < length ms \<and>
    pt = \<lparr>patch_path = [(0, PropMap (peer_list_key p)), (0, PropSeq i)]\<rparr>)"
proof -
  have "pt \<in> set (all_places d) \<longleftrightarrow> (\<exists>p\<in>dom (peer_view 0 (replica_objects d)). \<exists>i<length (ref_msgs (heap_now d) p).
      pt = \<lparr>patch_path = [(0, PropMap (peer_list_key p)), (0, PropSeq i)]\<rparr>)"
    by (auto simp: all_places_def chat_peers(2) [OF assms]) force
  then show ?thesis by (auto simp: dom_def)
qed

lemma replica_grows:
  assumes "am_receive_sync replica_am d s e = (Ok (), d', s', l)" "chat_objects (am_root replica_am) (replica_objects d)"
  shows "grows (am_root replica_am) (replica_objects d) (replica_objects d')"
proof -
  have d': "d' = merge_replica d e" and C: "chat_objects 0 (replica_objects d)" and root: "am_root replica_am = 0"
    using assms by (simp_all add: replica_am_def)
  note M = merge_replica_shows [of d e, folded d']
  have "set (ref_msgs (heap_now d) p) \<subseteq> set (ref_msgs (heap_now d') p)" for p
    using heap_now_ops [of d] M(2,3) unfolding subset_iff in_msgs_iff [OF C] in_msgs_iff [OF M(1)] by blast
  then have "set ms \<subseteq> set (ref_msgs (heap_now d') p)" if "peer_view 0 (replica_objects d) p = Some ms" for p ms
    using that by (metis id_apply option.case(2))
  then show ?thesis unfolding grows_def root using M(1) by blast
qed

lemma replica_patch_laws: "patch_laws replica_am replica_objects"
  unfolding patch_laws_def
proof (intro allI impI)
  fix d s m d' s' l
  assume "am_receive_sync replica_am d s m = (Ok (), d', s', l)" "grows (am_root replica_am) (replica_objects d) (replica_objects d')"
  then have root: "am_root replica_am = 0" "am_make_patches replica_am d' l = all_places d'" and C: "chat_objects 0 (replica_objects d')"
    by (simp_all add: replica_am_def grows_def)
  have new: "\<exists>pt\<in>set (all_places d'). \<exists>x y rest. patch_path pt = (x, PropMap (peer_list_key p)) # (y, PropSeq i) # rest"
    if "peer_view 0 (replica_objects d') p = Some ms'" "i < length ms'" for p ms' i
    using that all_places_iff [OF C] by (intro bexI [of _ "\<lparr>patch_path = [(0, PropMap (peer_list_key p)), (0, PropSeq i)]\<rparr>"]) auto
  have range: "i < length ms'" if "pt \<in> set (all_places d')" "peer_view 0 (replica_objects d') p = Some ms'"
      "patch_path pt = (x, PropMap (peer_list_key p)) # (y, PropSeq i) # rest" for pt p ms' x y i rest
    using that unfolding all_places_iff [OF C] by auto
  show "named_by (am_make_patches replica_am d' l) (am_root replica_am) (replica_objects d) (replica_objects d')"
    unfolding named_by_def root using new range by blast
qed

section \<open>Operations\<close>

abbreviation op_set :: "replica \<Rightarrow> insertion set" where
  "op_set d \<equiv> set (replica_ops d)"

lemma transact_version:
  assumes "transact replica_am f d = (Ok x, d')" "keeps fst f"
  obtains hp where "d' = Version d hp # d"
proof -
  obtain t where t: "f (d, heap_now d) = (Ok x, t)" "d' = Version (fst t) (snd t) # fst t"
    using assms(1) by (auto simp: transact_def replica_am_def split: prod.splits result.splits)
  have "fst t = d" using assms(2) t(1) unfolding keeps_def by (metis fst_conv snd_conv)
  then show thesis using that t(2) by simp
qed

lemma replica_store_ops:
  assumes C: "chat_objects 0 (replica_objects d)"
    and run: "transact replica_am (io_bind (ensure_peer_list replica_am p) (\<lambda>l. append_message replica_am l m)) d = (Ok (), d')"
  shows "\<exists>k. op_set d' \<subseteq> insert (k, m) (op_set d)"
proof -
  have root: "am_root replica_am = 0" by (simp add: replica_am_def)
  obtain hp where hp: "d' = Version d hp # d"
    by (rule transact_version [OF run keeps_store_message [OF replica_storage]])
  have new: "chat_objects 0 (ref_objects hp)"
    "peer_view 0 (ref_objects hp) = (peer_view 0 (replica_objects d))(p \<mapsto> ref_msgs (heap_now d) p @ [m])"
    by (rule store_message_view [OF replica_tx_laws replica_doc_laws, of d p m], use C run root hp in \<open>simp_all\<close>)+
  have "set (heap_ops hp) \<subseteq> insert ((p, count_list (ref_msgs (heap_now d) p) m), m) (set (heap_ops (heap_now d)))"
    unfolding set_heap_ops [OF new(1)] set_heap_ops [OF C] by (auto simp: new(2) less_Suc_eq split: if_splits)
  then show ?thesis
    using heap_now_ops [of d] unfolding hp
    by (intro exI [of _ "(p, count_list (ref_msgs (heap_now d) p) m)"]) (auto simp: replica_ops_def)
qed

lemma replica_init_ops:
  assumes "transact replica_am (io_map_err Automerge (tx_reconcile_init replica_am cid)) (am_new replica_am) = (Ok (), d)"
  shows "op_set d = {}"
proof -
  have root: "am_root replica_am = 0" "am_new replica_am = []" by (simp_all add: replica_am_def)
  obtain hp where hp: "d = [Version [] hp]"
    by (rule transact_version [OF assms]) (auto simp: keeps_def replica_am_def io_map_err_def in_version_def root split: prod.splits)
  have "chat_objects 0 (ref_objects hp)" "peer_view 0 (ref_objects hp) = Map.empty"
    by (rule init_doc [OF replica_doc_laws replica_init_laws, of cid], use assms root hp in simp)+
  then show ?thesis using set_heap_ops [of hp] by (simp add: replica_ops_def hp)
qed

text \<open>Documents of replicas are chat documents, and no message takes anything away from them.\<close>

lemma replica_chat:
  assumes "chat_replicas replica_am set e1 e2"
  shows "chat_objects 0 (replica_objects (fst (snd e1))) \<and> chat_objects 0 (replica_objects (fst (snd e2)))"
  using assms
proof (induction rule: chat_replicas.induct)
  case (replicas_new p p' cid d)
  then show ?case using init_doc [OF replica_doc_laws replica_init_laws] by (metis fst_conv snd_conv replica_root)
next
  case (replicas_store p d M e m d')
  then have "chat_objects 0 (replica_objects d')"
    using store_message_view [OF replica_tx_laws replica_doc_laws, of d p m, unfolded replica_root] by (metis Pair_inject fst_conv snd_conv)
  then show ?case using replicas_store.IH by simp
next
  case (replicas_receive p d M p' d' M' m s d1 s' l)
  then show ?case using merge_replica_shows(1) [of d m] by (simp add: replica_am_def)
next
  case (replicas_reload p d M e d1)
  then show ?case using heap_now_cong [of d1 d] by simp
qed simp_all

lemma replica_merge_laws: "merge_laws replica_am set replica_objects"
  unfolding merge_laws_def only_adds_def using replica_grows replica_chat replica_root by fastforce

lemma replica_op_laws: "op_laws replica_am set replica_objects op_set op_set"
  unfolding op_laws_def
proof (intro conjI allI impI)
  fix d d' :: replica assume "set d = set d'"
  then show "replica_objects d = replica_objects d'" "op_set d = op_set d'"
    using heap_now_cong [of d d'] by (simp_all add: replica_ops_def)
next
  fix cid d
  assume run: "transact replica_am (io_map_err Automerge (tx_reconcile_init replica_am cid)) (am_new replica_am) = (Ok (), d)"
  then show "op_set d = {}" by (rule replica_init_ops)
next
  fix p d M p' d' M'
  assume "chat_replicas replica_am set (p, d, M) (p', d', M')"
  then have C: "chat_objects 0 (replica_objects d)" using replica_chat by fastforce
  show "view_messages (peer_view (am_root replica_am) (replica_objects d)) \<subseteq># op_messages (op_set d)"
    using C heap_ops_view [of "heap_now d"] op_messages_mono [OF _ heap_now_ops [of d]] by (simp add: replica_root)
  show "\<exists>k. op_set d1 \<subseteq> insert (k, m) (op_set d)"
    if "transact replica_am (io_bind (ensure_peer_list replica_am p) (\<lambda>l. append_message replica_am l m)) d = (Ok (), d1)" for m d1
    using replica_store_ops [OF C that] .
qed (use merge_replica_shows(2) in \<open>auto simp: replica_am_def split: if_splits\<close>)

section \<open>Synchronising\<close>

type_synonym replica_end = "(replica, replica option, replica) sync_end"

fun replica_inv :: "replica_end \<Rightarrow> replica_end \<Rightarrow> bool" where
  "replica_inv (d1, s1, g1, q1) (d2, s2, g2, q2) \<longleftrightarrow>
     (g1 \<longrightarrow> s1 = Some d1) \<and> (g2 \<longrightarrow> s2 = Some d2) \<and>
     (\<forall>x. s1 = Some x \<longrightarrow> set x \<subseteq> set d2 \<or> x \<in> set q2) \<and> (\<forall>x. s2 = Some x \<longrightarrow> set x \<subseteq> set d1 \<or> x \<in> set q1)"

lemma replica_session: "sync_session replica_am set e1 e2 \<Longrightarrow> replica_inv e1 e2"
proof (induction rule: sync_session.induct)
  case (session_write d s g q e d')
  then show ?case by (cases e) (simp, blast)
next
  case (session_generate d s g q d2 s2 g2 q2 m s')
  then show ?case by (auto simp: replica_am_def split: if_splits)
next
  case (session_receive d s g m q e d' s' l)
  then have "set d \<union> set m \<subseteq> set d'" "s' = s" using set_merge_replica [of d m] by (auto simp: replica_am_def)
  then show ?case using session_receive.IH by (cases e) (simp, blast)
next
  case (session_swap e1 e2)
  then show ?case by (cases e1; cases e2) auto
qed (simp add: replica_am_def)

lemma replica_sync: "sync_laws replica_am set"
  unfolding sync_laws_def by (auto dest!: replica_session)

definition replica_lib :: "(nat, replica, replica \<times> ref_doc, nat, replica, replica option, replica, unit) chat_lib" where
  "replica_lib = \<lparr>lib_am = replica_am, lib_encode = (\<lambda>m. concat (map number_version m)), lib_decode = (\<lambda>bs. Ok (named_versions bs)),
     lib_show_id = sample_show, lib_uuid_text = (\<lambda>_. ''u''), lib_build = Debug\<rparr>"

lemma replica_codec: "\<forall>m. lib_decode replica_lib (lib_encode replica_lib m) = Ok m"
  by (simp add: replica_lib_def named_save)

lemma replica_lib_am [simp]: "lib_am replica_lib = replica_am"
  by (simp add: replica_lib_def)

lemmas replica_laws = replica_storage replica_tx_laws replica_doc_laws replica_init_laws replica_sync
  replica_patch_laws replica_merge_laws replica_op_laws

section \<open>Two repositories on this library\<close>

definition first_version :: version where
  "first_version = Version [] (build_heap [((''aaa'', 0), sample_message ''x'' ''aaa'' 7)])"

definition replica_repo :: "nat \<Rightarrow> nat \<Rightarrow> replica \<Rightarrow> (nat, replica, replica, replica option) chat_repository" where
  "replica_repo me other d = \<lparr>repo_chat_id = \<lparr>my_id = me, chat_remote_id = other\<rparr>, doc = d, sync_state = None,
     last_saved_heads = [], sync_status_tx = watch_channel False\<rparr>"

lemma exchange_succeeds:
  "case new_repository replica_am calm sample_show \<lparr>my_id = 3, chat_remote_id = 5\<rparr> test_db of
     (Ok r1, q1) \<Rightarrow>
       (case new_repository replica_am calm sample_show \<lparr>my_id = 5, chat_remote_id = 3\<rparr> test_db of
          (Ok r2, q2) \<Rightarrow>
            (case add_message replica_am calm sample_show 7 ''i'' (Text ''Hello from P1'') (r1, q1) of
               (Ok (x, m), c) \<Rightarrow> fst (sync_repos replica_lib calm calm m c (r2, q2)) = Return (Ok ())
             | _ \<Rightarrow> False)
        | _ \<Rightarrow> False)
   | _ \<Rightarrow> False"
  by code_simp


theorem sync_repos_agree_witness:
  "\<exists>c q1 r q2. sync_repos replica_lib calm calm (Some [first_version])
       (replica_repo 3 5 [first_version]\<lparr>sync_state := Some [first_version]\<rparr>, first_pool) (replica_repo 5 3 [], first_pool) =
       (Return (Ok ()), (c, q1), (r, q2)) \<and>
     set (doc c) = set (doc r) \<and> first_version \<in> set (doc c) \<and>
     (\<forall>b off lim. get_messages b replica_am c off lim = get_messages b replica_am r off lim)"
proof -
  have ok: "fst (sync_repos replica_lib calm calm (Some [first_version])
      (replica_repo 3 5 [first_version]\<lparr>sync_state := Some [first_version]\<rparr>, first_pool) (replica_repo 5 3 [], first_pool)) =
      Return (Ok ())" by code_simp
  have gen: "generate_sync_message replica_am (replica_repo 3 5 [first_version]) =
      (Some [first_version], replica_repo 3 5 [first_version]\<lparr>sync_state := Some [first_version]\<rparr>)"
    by (simp add: generate_sync_message_def replica_repo_def replica_am_def send_if_modified_def watch_channel_def)
  obtain c q1 r q2 where run: "sync_repos replica_lib calm calm (Some [first_version])
      (replica_repo 3 5 [first_version]\<lparr>sync_state := Some [first_version]\<rparr>, first_pool) (replica_repo 5 3 [], first_pool) =
      (Return (Ok ()), (c, q1), (r, q2))"
    using ok by (metis fst_conv prod.exhaust)
  have new: "sync_state (replica_repo me other d) = am_sync_new replica_am" "doc (replica_repo me other d) = d" for me other d
    by (simp_all add: replica_repo_def replica_am_def)
  show ?thesis
    using run sync_repos_agree [of replica_lib, unfolded replica_lib_am, OF replica_storage replica_sync gen new(1) new(1) run]
    by (auto simp only: new(2) list.set Un_insert_left insert_subset)
qed

end
