(* ===== verification/Spec2Isabelle.thy ===== *)
theory Spec2Isabelle
  imports Benchmarks Logging Replica
begin

text \<open>
  \<^bold>\<open>Verification of the Tryst core\<close>, a local-first peer-to-peer messaging engine written in Rust.
  Two endpoints that know each other keep one chat: a replicated document that both write to, that
  each stores in a local database, and that they synchronise over connections either of them may
  open. This root theory imports the whole development.

  \<^bold>\<open>The program and the theories.\<close> From the wire up:

  \<^item> \<open>Message\<close> (\<^verbatim>\<open>src/protocols/chat/message.rs\<close>) and \<open>Framing\<close>
    (\<^verbatim>\<open>src/protocols/chat/utils.rs\<close>): wire messages, and length-prefixed frames on a stream
    that is cut into arbitrary pieces. A reader is the list of what the stream will deliver.
  \<^item> \<open>Protocol_Handler\<close> (\<^verbatim>\<open>src/protocols/chat/protocol_handler.rs\<close>): the opening of a
    connection, its reading, writing and watching tasks, the close codes, and the actor that serves
    dial and accept requests.
  \<^item> \<open>Chat_Connection\<close> (\<^verbatim>\<open>src/protocols/chat.rs\<close>): the state of the connection of one chat
    behind its lock, with every critical section as one step of a relation, and the resolution of
    simultaneous dialling.
  \<^item> \<open>Schema\<close> (\<^verbatim>\<open>src/persistence/schema.rs\<close>) and \<open>Persistence\<close>
    (\<^verbatim>\<open>src/persistence.rs\<close>): the shape of the document, and the repository that keeps the
    document, its log and snapshots in the database, its sync state and its pages of messages.
    \<open>Tables\<close>: what every statement of the repository keeps of the tables.
  \<^item> \<open>Manager\<close> (\<^verbatim>\<open>src/manager.rs\<close>): the actor of one chat, which owns a repository and a
    connection, serves the application and answers the peer. \<open>Conversation\<close>: two managers that are
    connected to each other and take their turns in any order. \<open>Receiver\<close>: the receiver of the manager
    module, which merges what it is handed, next to a manager. \<open>Scenarios\<close> and \<open>Repo_Sync\<close>: the tests of
    \<^verbatim>\<open>src/persistence.rs\<close> as programs over one repository and over two that synchronise.
    \<open>Replica\<close>: a small document library that has all laws at once.
  \<^item> \<open>Tryst\<close> (\<^verbatim>\<open>src/protocols/tryst\<close>): epoch secrets, stored relationships and their table,
    invitations. \<open>Network\<close> (\<^verbatim>\<open>src/network_endpoint.rs\<close>,
    \<^verbatim>\<open>src/protocols/tryst/discovery.rs\<close>): the endpoint and the discovery of this snapshot.
  \<^item> \<open>App\<close> (\<^verbatim>\<open>src/app.rs\<close>): the application and its actor, which keeps one manager per chat.
    \<open>Errors\<close> (\<^verbatim>\<open>src/error.rs\<close>): the errors that cross the foreign interface.
  \<^item> \<open>Logging\<close> (\<^verbatim>\<open>src/log.rs\<close>): the log layer. \<open>Text\<close>, \<open>Bench_Utils\<close> and \<open>Benchmarks\<close>
    (\<^verbatim>\<open>src/bench_utils.rs\<close>, \<^verbatim>\<open>src/bin\<close>): numbers and lines as text, the
    benchmark workers and the program that runs them.
  \<^item> \<open>Prelude\<close>: results, panics, watch cells, and the interfaces that several components provide.

  \<^bold>\<open>How code becomes definitions.\<close> A function that may fail returns a \<open>result\<close>; one that also
  changes a state is an \<open>io\<close>; a panic is the value \<open>Panicked\<close>. Types and functions keep their Rust
  names, with a prefix where a name would clash. An asynchronous function whose body is interrupted
  by awaiting is one definition for each part under a lock, and the interleavings are the steps of
  a relation (\<open>conn_step\<close>, \<open>repo_move\<close>, \<open>mgr_move\<close>, \<open>conv_move\<close>, \<open>follow_move\<close>,
  \<open>app_move\<close>). A select loop is a turn function
  that takes what the turn meets, and a run over a list of turns. Libraries that the code calls are
  arguments: the document library is the record \<open>automerge\<close>, the database an interpreter of exactly
  the statements of the code with a schedule of failures and of foreign writes (\<open>sql_env\<close>), and
  identifiers, keys, codecs, clocks and the network are functions. What is assumed of them is named:
  \<open>tx_laws\<close>, \<open>doc_laws\<close> and \<open>init_laws\<close> (transactions, reading, new documents), \<open>storage_laws\<close> (saving and loading), \<open>sync_laws\<close>
  (an exchange in which nothing is left to say is complete), \<open>patch_laws\<close> (the patches of a sync message that makes
  the document grow name what is new), \<open>merge_laws\<close> and \<open>op_laws\<close> (between replicas of a chat that this
  program has made, \<open>chat_replicas\<close>, a sync message only adds, and every message comes from an operation
  that stored it), \<open>id_laws\<close>, \<open>id_text_laws\<close>; each has an instance on which the theorems are evaluated, and the
  laws of the document library have one together (\<open>Replica\<close>). That a sync message is accepted, that
  the library comes to an end of what it has to say, and that a foreign peer does not overwrite the
  chat are not assumed as laws: where they matter, the theorems have them as conditions on the run.

  \<^bold>\<open>Interfaces.\<close> \<open>codec\<close> (what was written can be read back) is provided by frames' close codes,
  rows of the table, decimal numbers and joined fields; \<open>invariant_system\<close> by the connection, the
  repository, the manager (twice), two managers in conversation and the application; \<open>frame_stream\<close> by the reading task over the
  framing; \<open>table_invariant\<close> (kept by the four writing statements, hence by every operation of a
  repository) by the well-formedness of the tables and by the presence of a chat; \<open>actor_loop\<close> by the
  three actors.

  \<^bold>\<open>What is shown.\<close>

  \<^item> Connections: both ends agree on one connection when they dial each other at the same time,
    however often; a connection cancels exactly its superseded handles in every interleaving; what subscribers see is the
    state; a reconnecting connection is never stuck.
  \<^item> Streams: a frame is read back for every cutting of the stream; a session delivers a prefix of
    the sent messages in order, and all of them when the stream is complete; oversized frames,
    truncated frames and wrong openings are handled as stated.
  \<^item> Storage: in every history with failing statements, restarts and compaction, a restart gives
    exactly the version last saved; added messages are shown and survive a restart; a page read
    from a bounded suffix of each list is the page of the whole history; loading ends after two
    turns and bounds the log; the tables stay well formed. The tests of restoring, logging,
    compaction, racing and pagination pass for every library with the laws. Two repositories that
    synchronise are the same when their exchange has ended, and the test of them passes exactly when
    it ends.
  \<^item> Actors: the manager answers all requests and serves all subscriptions in order, keeps its receiver informed and recovers
    from failed synchronisation at most once in a row; the application has one manager per chat,
    hands it the accepted connections, opens chats for redeemed invitations and shuts down. Two
    connected managers lose nothing and converge: when nothing is under way, both say so and show the
    same messages. Apart from the ticks of the clock, which they answer each time, they go on only as
    long as the library has something to say. A receiver that merges what it is handed always shows
    the messages of the document, as long as the peer only adds to them.
  \<^item> Relationships, invitations, logging and benchmarks: the table refines a map, invitations and
    reports are read back, spans are logged in full, and the wait for silence is its specification.

  \<^bold>\<open>Loops and bounds.\<close> Every loop is a total function. The loop that loads a chat is given two turns
  (\<open>load_loop\<close>), and \<open>loading_takes_two_turns\<close> shows that it never needs more; reading loops end by
  a measure on the stream; the manager works off its queues by the measure \<open>work\<close>; the wait of the
  benchmarks has the twenty rounds of the code. \<^verbatim>\<open>usize\<close> and \<^verbatim>\<open>u64\<close> sums keep their
  overflow, which panics or wraps with the build; epochs and time stamps are 64-bit words.

  \<^bold>\<open>What is not modelled.\<close> The libraries themselves (automerge, iroh, sqlx, tokio, tracing), the
  generated foreign bindings, the tests that need two peers or a network, and what this snapshot of the code leaves out of
  the Tryst protocol: its cryptography and its discovery are stubs in the source, and the model has
  the stubs. Log calls appear only where a value depends on them.
\<close>

end
